(* ===== verification/Prelude.thy ===== *)
theory Prelude
  imports Main "HOL-Library.Word" "HOL-Library.Multiset"
begin

text \<open>
  Bytes, fixed-width little-endian and big-endian numbers, and the generic facts about them
  that every codec of the client rests on. A Go \<open>[]byte\<close> is a \<open>byte list\<close>; Go's
  \<open>encoding/binary\<close> little-endian writers are \<open>le_bytes\<close> and its readers \<open>le_nat\<close>; the
  big-endian ones are their reversals.
\<close>

unbundle bit_operations_syntax

named_theorems codec_simps \<open>round trips and widths of the byte-level codecs\<close>

type_synonym byte = "8 word"

subsection \<open>Little-endian and big-endian numbers\<close>

fun le_bytes :: "nat \<Rightarrow> nat \<Rightarrow> byte list" where
  "le_bytes 0 v = []"
| "le_bytes (Suc n) v = word_of_nat v # le_bytes n (v div 256)"

fun le_nat :: "byte list \<Rightarrow> nat" where
  "le_nat [] = 0"
| "le_nat (b # bs) = unat b + 256 * le_nat bs"

definition be_bytes :: "nat \<Rightarrow> nat \<Rightarrow> byte list" where
  "be_bytes n v = rev (le_bytes n v)"

definition be_nat :: "byte list \<Rightarrow> nat" where
  "be_nat bs = le_nat (rev bs)"

lemma unat_byte_less [simp]: "unat (b :: byte) < 256"
  using unsigned_less [of b] by simp

lemma uint_byte_bounds [simp]: "uint (b :: byte) < 256" "uint (b :: byte) \<le> 255"
proof -
  have "int (unat b) < 256" using unat_byte_less [of b] by linarith
  then show "uint b < 256" and "uint b \<le> 255" by simp_all
qed

lemma unat_of_nat_byte [simp]: "unat (word_of_nat v :: byte) = v mod 256"
  by (simp add: unat_of_nat)

lemma unat_word_of_nat_id: "n < 2 ^ LENGTH('a) \<Longrightarrow> unat (word_of_nat n :: 'a::len word) = n"
  by (simp add: unat_of_nat)

lemma div_mod_split: "m < k \<Longrightarrow> (a * k + m) div k = (a::nat)" "m < k \<Longrightarrow> (a * k + m) mod k = m"
  by simp_all

lemma length_le_bytes [simp, codec_simps]: "length (le_bytes n v) = n"
  by (induction n arbitrary: v) auto

lemma le_bytes_Nil_iff [simp]: "le_bytes n v = [] \<longleftrightarrow> n = 0"
  by (cases n) auto

lemma le_bytes_map: "le_bytes n v = map (\<lambda>i. word_of_nat (v div 256 ^ i)) [0..<n]"
proof (induction n arbitrary: v)
  case 0
  then show ?case by simp
next
  case (Suc n)
  have "map (\<lambda>i. word_of_nat (v div 256 ^ i) :: byte) [0..<Suc n] =
    word_of_nat v # map (\<lambda>i. word_of_nat (v div 256 ^ Suc i)) [0..<n]"
    by (simp only: upt_conv_Cons zero_less_Suc list.map map_Suc_upt [symmetric] map_map) (simp add: comp_def)
  then show ?case using Suc by (simp add: div_mult2_eq)
qed

lemma le_bytes_widths:
  "le_bytes 1 v = [word_of_nat v]"
  "le_bytes 2 v = [word_of_nat v, word_of_nat (v div 2 ^ 8)]"
  "le_bytes 3 v = [word_of_nat v, word_of_nat (v div 2 ^ 8), word_of_nat (v div 2 ^ 16)]"
  "le_bytes 4 v = [word_of_nat v, word_of_nat (v div 2 ^ 8), word_of_nat (v div 2 ^ 16), word_of_nat (v div 2 ^ 24)]"
  "le_bytes 6 v = [word_of_nat v, word_of_nat (v div 2 ^ 8), word_of_nat (v div 2 ^ 16), word_of_nat (v div 2 ^ 24),
    word_of_nat (v div 2 ^ 32), word_of_nat (v div 2 ^ 40)]"
  "le_bytes 8 v = [word_of_nat v, word_of_nat (v div 2 ^ 8), word_of_nat (v div 2 ^ 16), word_of_nat (v div 2 ^ 24),
    word_of_nat (v div 2 ^ 32), word_of_nat (v div 2 ^ 40), word_of_nat (v div 2 ^ 48), word_of_nat (v div 2 ^ 56)]"
proof -
  have u: "[0..<2] = [0, 1::nat]" "[0..<3] = [0, 1, 2::nat]" "[0..<4] = [0, 1, 2, 3::nat]"
    "[0..<6] = [0, 1, 2, 3, 4, 5::nat]" "[0..<8] = [0, 1, 2, 3, 4, 5, 6, 7::nat]"
    by (simp_all add: upt_rec)
  show "le_bytes 1 v = [word_of_nat v]"
    and "le_bytes 2 v = [word_of_nat v, word_of_nat (v div 2 ^ 8)]"
    and "le_bytes 3 v = [word_of_nat v, word_of_nat (v div 2 ^ 8), word_of_nat (v div 2 ^ 16)]"
    and "le_bytes 4 v = [word_of_nat v, word_of_nat (v div 2 ^ 8), word_of_nat (v div 2 ^ 16), word_of_nat (v div 2 ^ 24)]"
    and "le_bytes 6 v = [word_of_nat v, word_of_nat (v div 2 ^ 8), word_of_nat (v div 2 ^ 16), word_of_nat (v div 2 ^ 24),
      word_of_nat (v div 2 ^ 32), word_of_nat (v div 2 ^ 40)]"
    and "le_bytes 8 v = [word_of_nat v, word_of_nat (v div 2 ^ 8), word_of_nat (v div 2 ^ 16), word_of_nat (v div 2 ^ 24),
      word_of_nat (v div 2 ^ 32), word_of_nat (v div 2 ^ 40), word_of_nat (v div 2 ^ 48), word_of_nat (v div 2 ^ 56)]"
    by (simp_all add: le_bytes_map u)
qed

lemma length_be_bytes [simp, codec_simps]: "length (be_bytes n v) = n"
  by (simp add: be_bytes_def)

lemma le_nat_le_bytes [codec_simps]: "le_nat (le_bytes n v) = v mod 256 ^ n"
proof (induction n arbitrary: v)
  case 0
  then show ?case by simp
next
  case (Suc n)
  have "v mod (256 * 256 ^ n) = 256 * (v div 256 mod 256 ^ n) + v mod 256"
    by (rule mod_mult2_eq)
  with Suc show ?case by simp
qed

lemma be_nat_be_bytes [codec_simps]: "be_nat (be_bytes n v) = v mod 256 ^ n"
  by (simp add: be_nat_def be_bytes_def le_nat_le_bytes)

lemma le_nat_bound: "le_nat bs < 256 ^ length bs"
proof (induction bs)
  case Nil
  then show ?case by simp
next
  case (Cons b bs)
  have "le_nat bs + 1 \<le> 256 ^ length bs" using Cons by simp
  then have "256 * (le_nat bs + 1) \<le> 256 * 256 ^ length bs" by (rule mult_le_mono2)
  moreover have "unat b < 256" by (rule unat_byte_less)
  ultimately have "unat b + 256 * le_nat bs < 256 * 256 ^ length bs"
    unfolding distrib_left by linarith
  then show ?case by simp
qed

lemma be_nat_bound: "be_nat bs < 256 ^ length bs"
  using le_nat_bound [of "rev bs"] by (simp add: be_nat_def)

lemma le_bytes_le_nat [codec_simps]: "le_bytes (length bs) (le_nat bs) = bs"
proof (induction bs)
  case Nil
  then show ?case by simp
next
  case (Cons b bs)
  have "unat b < 256" by simp
  then have "(unat b + 256 * le_nat bs) div 256 = le_nat bs" by simp
  moreover have "(word_of_nat (unat b + 256 * le_nat bs) :: byte) = b"
    by (simp only: word_unat_eq_iff unat_of_nat_byte) simp
  ultimately show ?case using Cons by simp
qed

lemma le_bytes_le_nat_len: "length bs = n \<Longrightarrow> le_bytes n (le_nat bs) = bs"
  using le_bytes_le_nat [of bs] by simp

lemma be_bytes_be_nat_len: "length bs = n \<Longrightarrow> be_bytes n (be_nat bs) = bs"
  by (simp add: be_bytes_def be_nat_def le_bytes_le_nat_len)

lemma le_nat_append: "le_nat (xs @ ys) = le_nat xs + 256 ^ length xs * le_nat ys"
  by (induction xs) (auto simp: algebra_simps)

lemma be_nat_Nil [simp]: "be_nat [] = 0"
  by (simp add: be_nat_def)

lemma be_nat_Cons: "be_nat (b # bs) = unat b * 256 ^ length bs + be_nat bs"
  by (simp add: be_nat_def le_nat_append)

lemma be_nat_append: "be_nat (xs @ ys) = be_nat xs * 256 ^ length ys + be_nat ys"
  by (simp add: be_nat_def le_nat_append)

lemma be_nat_single [simp]: "be_nat [b] = unat b"
  by (simp add: be_nat_Cons)

lemma be_nat_inj: "length xs = length ys \<Longrightarrow> be_nat xs = be_nat ys \<Longrightarrow> xs = ys"
  by (metis be_bytes_be_nat_len)

subsection \<open>Machine words as bytes\<close>

text \<open>
  \<open>putUint16\<close>, \<open>putUint32\<close> and \<open>putUint64\<close> of the source append a word little-endian; the
  word's width fixes the number of bytes.
\<close>

definition word_le :: "'a::len word \<Rightarrow> byte list" where
  "word_le w = le_bytes (LENGTH('a) div 8) (unat w)"

definition word_be :: "'a::len word \<Rightarrow> byte list" where
  "word_be w = be_bytes (LENGTH('a) div 8) (unat w)"

lemma length_word_le [simp]: "length (word_le (w :: 'a::len word)) = LENGTH('a) div 8"
  by (simp add: word_le_def)

lemma length_word_be [simp]: "length (word_be (w :: 'a::len word)) = LENGTH('a) div 8"
  by (simp add: word_be_def)

lemma le_nat_word_le [codec_simps]:
  "8 dvd LENGTH('a) \<Longrightarrow> le_nat (word_le (w :: 'a::len word)) = unat w"
proof -
  assume d: "8 dvd LENGTH('a)"
  then have "(256::nat) ^ (LENGTH('a) div 8) = 2 ^ LENGTH('a)"
    using power_mult [of "2::nat" 8 "LENGTH('a) div 8"] by simp
  moreover have "unat w < 2 ^ LENGTH('a)" by (rule unsigned_less)
  ultimately show ?thesis by (simp add: word_le_def le_nat_le_bytes)
qed

lemma be_nat_word_be [codec_simps]:
  "8 dvd LENGTH('a) \<Longrightarrow> be_nat (word_be (w :: 'a::len word)) = unat w"
  using le_nat_word_le [of w] by (simp add: word_be_def word_le_def be_nat_def be_bytes_def)

subsection \<open>Signed readings\<close>

text \<open>\<open>wrap n i\<close> is the \<open>n\<close>-bit two's-complement reading of \<open>i\<close>: Go's integer conversion.\<close>

definition wrap :: "nat \<Rightarrow> int \<Rightarrow> int" where
  "wrap n i = (i + 2 ^ (n - 1)) mod 2 ^ n - 2 ^ (n - 1)"

lemma wrap_id: "- (2 ^ (n - 1)) \<le> i \<Longrightarrow> i < 2 ^ (n - 1) \<Longrightarrow> 0 < n \<Longrightarrow> wrap n i = i"
proof -
  assume a: "- (2 ^ (n - 1)) \<le> i" "i < 2 ^ (n - 1)" "0 < n"
  then have "(2::int) ^ n = 2 * 2 ^ (n - 1)" by (metis Suc_pred' power_Suc)
  with a have "0 \<le> i + 2 ^ (n - 1)" and "i + 2 ^ (n - 1) < 2 ^ n" by simp_all
  then have "(i + 2 ^ (n - 1)) mod 2 ^ n = i + 2 ^ (n - 1)" by (rule mod_pos_pos_trivial)
  then show ?thesis by (simp add: wrap_def)
qed

lemma wrap_bounds: "0 < n \<Longrightarrow> - (2 ^ (n - 1)) \<le> wrap n i \<and> wrap n i < 2 ^ (n - 1)"
proof -
  assume "0 < n"
  then have e: "(2::int) ^ n = 2 * 2 ^ (n - 1)" by (metis Suc_pred' power_Suc)
  have "0 \<le> (i + 2 ^ (n - 1)) mod 2 ^ n" and "(i + 2 ^ (n - 1)) mod 2 ^ n < 2 ^ n" by simp_all
  with e show ?thesis by (simp add: wrap_def)
qed

subsection \<open>Strings as byte sequences\<close>

text \<open>A Go string is a byte sequence; HOL's \<open>char\<close> is a byte.\<close>

definition str_bytes :: "string \<Rightarrow> byte list" where
  "str_bytes s = map (\<lambda>c. word_of_nat (of_char c)) s"

definition bytes_str :: "byte list \<Rightarrow> string" where
  "bytes_str bs = map (\<lambda>b. char_of (unat b)) bs"

lemma of_char_char_of_unat [simp]: "(word_of_nat (of_char (char_of (unat b))) :: byte) = b"
  by (simp add: word_unat_eq_iff)

lemma bytes_str_str_bytes [simp]: "bytes_str (str_bytes s) = s"
  by (simp add: bytes_str_def str_bytes_def comp_def map_idI)

lemma str_bytes_bytes_str [simp]: "str_bytes (bytes_str bs) = bs"
  by (simp add: bytes_str_def str_bytes_def comp_def map_idI)

lemma length_str_bytes [simp]: "length (str_bytes s) = length s"
  by (simp add: str_bytes_def)

lemma str_bytes_Nil_iff [simp]: "str_bytes s = [] \<longleftrightarrow> s = []"
  by (metis length_0_conv length_str_bytes)

lemma length_bytes_str [simp]: "length (bytes_str bs) = length bs"
  by (simp add: bytes_str_def)

subsection \<open>Sorting a slice\<close>

text \<open>What \<^verbatim>\<open>sort.Slice\<close> promises: for a comparison that is a strict weak order, the elements are permuted so that none
  is less than one before it. Elements that are not less than one another may come in any order, so the sorter is a
  parameter wherever the client sorts; the comparison is the client's.\<close>

definition strict_weak :: "('a \<Rightarrow> 'a \<Rightarrow> bool) \<Rightarrow> bool" where
  "strict_weak lt \<longleftrightarrow>
     (\<forall>x. \<not> lt x x) \<and> (\<forall>x y z. lt x y \<longrightarrow> lt y z \<longrightarrow> lt x z) \<and>
     (\<forall>x y z. \<not> lt y x \<longrightarrow> \<not> lt z y \<longrightarrow> \<not> lt z x)"

type_synonym 'a slice_sort = "('a \<Rightarrow> 'a \<Rightarrow> bool) \<Rightarrow> 'a list \<Rightarrow> 'a list"

locale slice_sorter =
  fixes sorter :: "'a slice_sort"
  assumes sorter_perm: "strict_weak lt \<Longrightarrow> mset (sorter lt xs) = mset xs"
    and sorter_sorted: "strict_weak lt \<Longrightarrow> sorted_wrt (\<lambda>x y. \<not> lt y x) (sorter lt xs)"
begin

lemma sorter_set: "strict_weak lt \<Longrightarrow> set (sorter lt xs) = set xs"
  by (metis set_mset_mset sorter_perm)

end

lemma strict_weak_key [simp, intro]: "strict_weak (\<lambda>x y. key x < (key y :: int))"
  by (auto simp: strict_weak_def)

text \<open>Insertion sort is such a sorter.\<close>

fun insert_by :: "('a \<Rightarrow> 'a \<Rightarrow> bool) \<Rightarrow> 'a \<Rightarrow> 'a list \<Rightarrow> 'a list" where
  "insert_by lt x [] = [x]"
| "insert_by lt x (y # ys) = (if lt y x then y # insert_by lt x ys else x # y # ys)"

definition insertion_sort :: "'a slice_sort" where
  "insertion_sort lt xs = foldr (insert_by lt) xs []"

lemma mset_insert_by [simp]: "mset (insert_by lt x ys) = add_mset x (mset ys)"
  by (induction ys) auto

lemma set_insert_by [simp]: "set (insert_by lt x ys) = insert x (set ys)"
  by (induction ys) auto

lemma sorted_insert_by:
  assumes "strict_weak lt" "sorted_wrt (\<lambda>x y. \<not> lt y x) ys"
  shows "sorted_wrt (\<lambda>x y. \<not> lt y x) (insert_by lt x ys)"
  using assms(2)
proof (induction ys)
  case (Cons y ys)
  show ?case
  proof (cases "lt y x")
    case True
    then have "\<not> lt x y" using assms(1) unfolding strict_weak_def by blast
    with True Cons show ?thesis by auto
  next
    case False
    have "\<not> lt z x" if "z \<in> set ys" for z
    proof -
      have "\<not> lt z y" using that Cons.prems by simp
      with False assms(1) show ?thesis unfolding strict_weak_def by blast
    qed
    with False Cons show ?thesis by auto
  qed
qed simp

interpretation insertion: slice_sorter insertion_sort
proof
  show "mset (insertion_sort lt xs) = mset xs" for lt and xs :: "'a list"
    by (induction xs) (simp_all add: insertion_sort_def)
  show "sorted_wrt (\<lambda>x y. \<not> lt y x) (insertion_sort lt xs)" if "strict_weak lt" for lt and xs :: "'a list"
    by (induction xs) (simp_all add: insertion_sort_def sorted_insert_by that)
qed

context slice_sorter
begin

text \<open>When the keys differ, the comparison by key determines the result.\<close>

lemma sorter_by_key:
  fixes key :: "'a \<Rightarrow> int"
  shows "sorted (map key (sorter (\<lambda>x y. key x < key y) xs))"
  using sorter_sorted [of "\<lambda>x y. key x < key y" xs] by (simp add: sorted_map not_less)

lemma sorter_determined:
  fixes key :: "'a \<Rightarrow> int"
  assumes "distinct (map key xs)"
  shows "sorter (\<lambda>x y. key x < key y) xs = sort_key key xs"
proof -
  have "inj_on key (set xs)" using assms by (simp add: distinct_map)
  then show ?thesis using sorter_perm [OF strict_weak_key] sorter_by_key by (metis sort_key_inj_key_eq)
qed

end

end
