(* ===== verification/GoErrors.thy ===== *)
theory GoErrors
  imports Prelude
begin

text \<open>
  Go's outcomes and the package \<^verbatim>\<open>binary/errors\<close>. A Go call returns a value (\<open>Ok\<close>), returns an
  error (\<open>Err\<close>) or panics (\<open>Panic\<close>); \<open>res\<close> keeps the three apart, so that a nil
  dereference or an index out of range in the source is a branch of the model and not an
  unspecified value. \<open>sprintf0\<close> is \<^verbatim>\<open>fmt.Sprintf\<close> with no operands, which is what
  \<^verbatim>\<open>errors.Errorf\<close> becomes when \<^verbatim>\<open>Wrapf\<close> hands it a finished message as its format.
\<close>

subsection \<open>Errors and outcomes\<close>

text \<open>
  An \<^verbatim>\<open>error\<close> is an \<^verbatim>\<open>IgniteError\<close> (status, server message, text) or any other error, of which
  the client only uses the text.
\<close>

datatype gerror =
  GoError string
| IgniteError (IgniteStatus: "32 word") (IgniteMessage: string) (ignite_text: string)

datatype gopanic = IndexOutOfRange | MakeSliceLen | NilDereference | BadTypeAssertion

datatype 'a res = Ok 'a | Err gerror | Panic gopanic

fun rbind :: "'a res \<Rightarrow> ('a \<Rightarrow> 'b res) \<Rightarrow> 'b res" where
  "rbind (Ok x) f = f x"
| "rbind (Err e) f = Err e"
| "rbind (Panic p) f = Panic p"

fun map_err :: "(gerror \<Rightarrow> gerror) \<Rightarrow> 'a res \<Rightarrow> 'a res" where
  "map_err f (Ok x) = Ok x"
| "map_err f (Err e) = Err (f e)"
| "map_err f (Panic p) = Panic p"

fun rmap :: "('a \<Rightarrow> 'b) \<Rightarrow> 'a res \<Rightarrow> 'b res" where
  "rmap f (Ok x) = Ok (f x)"
| "rmap f (Err e) = Err e"
| "rmap f (Panic p) = Panic p"

text \<open>A loop that runs a fallible body on each element and collects the results.\<close>

fun mapR :: "('a \<Rightarrow> 'b res) \<Rightarrow> 'a list \<Rightarrow> 'b list res" where
  "mapR f [] = Ok []"
| "mapR f (x # xs) = rbind (f x) (\<lambda>y. rmap (\<lambda>ys. y # ys) (mapR f xs))"

lemma rbind_Ok_iff [simp]: "rbind m f = Ok y \<longleftrightarrow> (\<exists>x. m = Ok x \<and> f x = Ok y)"
  by (cases m) auto

lemma rmap_Ok_iff [simp]: "rmap f m = Ok y \<longleftrightarrow> (\<exists>x. m = Ok x \<and> y = f x)"
  by (cases m) auto

lemma map_err_Ok_iff [simp]: "map_err f m = Ok y \<longleftrightarrow> m = Ok y"
  by (cases m) auto

lemma map_err_Panic_iff [simp]: "map_err f m = Panic p \<longleftrightarrow> m = Panic p"
  by (cases m) auto

lemma mapR_Ok: "(\<And>x. x \<in> set xs \<Longrightarrow> f x = Ok (g x)) \<Longrightarrow> mapR f xs = Ok (map g xs)"
  by (induction xs) auto

lemma mapR_length: "mapR f xs = Ok ys \<Longrightarrow> length ys = length xs"
  by (induction xs arbitrary: ys) auto

subsection \<open>Indexing and slicing\<close>

text \<open>
  \<^verbatim>\<open>b[i]\<close> and \<^verbatim>\<open>b[lo:hi]\<close> panic out of range. A slice is modelled with its capacity equal to its
  length, which is how every slice these operations receive was made.
\<close>

definition index_at :: "'a list \<Rightarrow> int \<Rightarrow> 'a res" where
  "index_at xs i = (if 0 \<le> i \<and> i < int (length xs) then Ok (xs ! nat i) else Panic IndexOutOfRange)"

definition slice_of :: "'a list \<Rightarrow> int \<Rightarrow> int \<Rightarrow> 'a list res" where
  "slice_of xs lo hi =
     (if 0 \<le> lo \<and> lo \<le> hi \<and> hi \<le> int (length xs)
      then Ok (take (nat (hi - lo)) (drop (nat lo) xs)) else Panic IndexOutOfRange)"

lemma index_at_Ok: "i < length xs \<Longrightarrow> index_at xs (int i) = Ok (xs ! i)"
  by (simp add: index_at_def)

lemma slice_of_Ok: "a + k \<le> length xs \<Longrightarrow> slice_of xs (int a) (int a + int k) = Ok (take k (drop a xs))"
  by (simp add: slice_of_def)

lemma mapR_index_at:
  assumes "a + n \<le> length xs"
  shows "mapR (\<lambda>i. index_at xs (int a + int i)) [0..<n] = Ok (take n (drop a xs))"
proof -
  have "mapR (\<lambda>i. index_at xs (int a + int i)) [0..<n] = Ok (map (\<lambda>i. xs ! (a + i)) [0..<n])"
    using assms by (intro mapR_Ok) (auto simp: index_at_def nat_add_distrib)
  also have "map (\<lambda>i. xs ! (a + i)) [0..<n] = take n (drop a xs)"
    using assms by (intro nth_equalityI) auto
  finally show ?thesis .
qed

subsection \<open>Decimal text of integers (the verb \%d)\<close>

fun nat_text :: "nat \<Rightarrow> string" where
  "nat_text n = (if n < 10 then [char_of (48 + n)] else nat_text (n div 10) @ [char_of (48 + n mod 10)])"

declare nat_text.simps [simp del]

definition int_text :: "int \<Rightarrow> string" where
  "int_text i = (if i < 0 then CHR ''-'' # nat_text (nat (- i)) else nat_text (nat i))"

subsection \<open>fmt.Sprintf with no operands\<close>

definition is_digit :: "char \<Rightarrow> bool" where
  "is_digit c = (48 \<le> (of_char c :: nat) \<and> (of_char c :: nat) \<le> 57)"

text \<open>\<^verbatim>\<open>parsenum\<close>: whether a number was read, and what follows; a number above a million gives up.\<close>

fun parsenum :: "nat \<Rightarrow> bool \<Rightarrow> string \<Rightarrow> bool \<times> string" where
  "parsenum n isnum [] = (isnum, [])"
| "parsenum n isnum (c # cs) =
     (if is_digit c
      then (if 1000000 < n then (False, []) else parsenum (n * 10 + (of_char c - 48)) True cs)
      else (isnum, c # cs))"

definition parseArgNumber :: "string \<Rightarrow> string \<times> bool" where
  "parseArgNumber r =
     (if length r < 3 then (tl r, False)
      else let after = dropWhile (\<lambda>c. c \<noteq> CHR '']'') (tl r);
               inner = parsenum 0 False (takeWhile (\<lambda>c. c \<noteq> CHR '']'') (tl r))
           in if after = [] then (tl r, False) else (tl after, fst inner \<and> snd inner = []))"

text \<open>\<^verbatim>\<open>argNumber\<close>: whether the operand number is still good, what follows, whether an index was found.\<close>

definition argNumber :: "string \<Rightarrow> bool \<times> string \<times> bool" where
  "argNumber r = (if r \<noteq> [] \<and> hd r = CHR ''['' then (False, parseArgNumber r) else (True, r, False))"

text \<open>The next rune's bytes (the replacement character for an invalid byte) and what follows.\<close>

definition rune_split :: "string \<Rightarrow> string \<times> string" where
  "rune_split s =
     (let b = (\<lambda>i. if i < length s then of_char (s ! i) else (0::nat));
          cont = (\<lambda>i. 128 \<le> b i \<and> b i \<le> 191);
          n = (if b 0 < 128 then 1
               else if 194 \<le> b 0 \<and> b 0 \<le> 223 \<and> cont 1 then 2
               else if 224 \<le> b 0 \<and> b 0 \<le> 239 \<and> cont 1 \<and> cont 2
                       \<and> (b 0 = 224 \<longrightarrow> 160 \<le> b 1) \<and> (b 0 = 237 \<longrightarrow> b 1 \<le> 159) then 3
               else if 240 \<le> b 0 \<and> b 0 \<le> 244 \<and> cont 1 \<and> cont 2 \<and> cont 3
                       \<and> (b 0 = 240 \<longrightarrow> 144 \<le> b 1) \<and> (b 0 = 244 \<longrightarrow> b 1 \<le> 143) then 4
               else 0)
      in if n = 0 then (map char_of [239, 191, 189 :: nat], tl s) else (take n s, drop n s))"

text \<open>
  One directive: the text after the percent sign gives the output and what follows. The stages
  are the flags and the operand index, the width, the precision, a late operand index, the verb.
\<close>

definition width_part :: "string \<Rightarrow> bool \<Rightarrow> string \<times> string \<times> bool" where
  "width_part r a = (if r \<noteq> [] \<and> hd r = CHR ''*'' then (''%!(BADWIDTH)'', tl r, False)
                     else ([], snd (parsenum 0 False r), a))"

definition prec_part :: "string \<Rightarrow> bool \<Rightarrow> string \<times> bool \<times> string \<times> bool" where
  "prec_part r a =
     (if r \<noteq> [] \<and> hd r = CHR ''.''
      then (let (g, r', a') = argNumber (tl r)
            in if r' \<noteq> [] \<and> hd r' = CHR ''*'' then (''%!(BADPREC)'', g, tl r', False)
               else ([], g, snd (parsenum 0 False r'), a'))
      else ([], True, r, a))"

definition late_index :: "string \<Rightarrow> bool \<Rightarrow> bool \<times> string" where
  "late_index r a = (if a then (True, r) else (fst (argNumber r), fst (snd (argNumber r))))"

definition verb_part :: "bool \<Rightarrow> string \<Rightarrow> string \<times> string" where
  "verb_part good r =
     (if r = [] then (''%!(NOVERB)'', [])
      else (if hd r = CHR ''%'' then ''%''
            else ''%!'' @ fst (rune_split r) @ (if good then ''(MISSING)'' else ''(BADINDEX)''),
            snd (rune_split r)))"

definition directive :: "string \<Rightarrow> string \<times> string" where
  "directive cs =
     (let (g1, r2, a1) = argNumber (dropWhile (\<lambda>c. c \<in> set ''#0+- '') cs);
          (w, r3, a2) = width_part r2 a1;
          (p, g2, r4, a3) = prec_part r3 a2;
          (g3, r5) = late_index r4 a3;
          (v, rest) = verb_part (g1 \<and> g2 \<and> g3) r5
      in (w @ p @ v, rest))"

lemma parsenum_shorter: "length (snd (parsenum n b s)) \<le> length s"
  by (induction n b s rule: parsenum.induct) auto

lemma argNumber_shorter: "length (fst (snd (argNumber r))) \<le> length r"
proof -
  have "length (tl (dropWhile P (tl r))) \<le> length r" for P
    using length_dropWhile_le [of P "tl r"] by simp
  then show ?thesis by (simp add: argNumber_def parseArgNumber_def Let_def)
qed

lemma width_part_shorter: "length (fst (snd (width_part r a))) \<le> length r"
  by (simp add: width_part_def parsenum_shorter)

lemma prec_part_shorter: "length (fst (snd (snd (prec_part r a)))) \<le> length r"
proof -
  obtain g r' a' where e: "argNumber (tl r) = (g, r', a')" by (cases "argNumber (tl r)") auto
  then have "length r' \<le> length r" using argNumber_shorter [of "tl r"] by simp
  then have "length (tl r') \<le> length r" and "length (snd (parsenum 0 False r')) \<le> length r"
    using parsenum_shorter [of 0 False r'] by simp_all
  then show ?thesis by (simp add: prec_part_def e)
qed

lemma late_index_shorter: "length (snd (late_index r a)) \<le> length r"
  by (simp add: late_index_def argNumber_shorter)

lemma verb_part_shorter: "length (snd (verb_part g r)) \<le> length r"
  by (simp add: verb_part_def rune_split_def Let_def)

lemma directive_shorter: "length (snd (directive cs)) \<le> length cs"
proof -
  define r1 where "r1 = dropWhile (\<lambda>c. c \<in> set ''#0+- '') cs"
  obtain g1 r2 a1 where 1: "argNumber r1 = (g1, r2, a1)" by (cases "argNumber r1") auto
  obtain w r3 a2 where 2: "width_part r2 a1 = (w, r3, a2)" by (cases "width_part r2 a1") auto
  obtain p g2 r4 a3 where 3: "prec_part r3 a2 = (p, g2, r4, a3)" by (cases "prec_part r3 a2") auto
  obtain g3 r5 where 4: "late_index r4 a3 = (g3, r5)" by (cases "late_index r4 a3") auto
  obtain v rest where 5: "verb_part (g1 \<and> g2 \<and> g3) r5 = (v, rest)"
    by (cases "verb_part (g1 \<and> g2 \<and> g3) r5") auto
  have "length r1 \<le> length cs" unfolding r1_def by (rule length_dropWhile_le)
  moreover have "length r2 \<le> length r1" using argNumber_shorter [of r1] 1 by simp
  moreover have "length r3 \<le> length r2" using width_part_shorter [of r2 a1] 2 by simp
  moreover have "length r4 \<le> length r3" using prec_part_shorter [of r3 a2] 3 by simp
  moreover have "length r5 \<le> length r4" using late_index_shorter [of r4 a3] 4 by simp
  moreover have "length rest \<le> length r5" using verb_part_shorter [of "g1 \<and> g2 \<and> g3" r5] 5 by simp
  moreover have "snd (directive cs) = rest"
    unfolding directive_def r1_def [symmetric] 1 by (simp add: 2 3 4 5)
  ultimately show ?thesis by simp
qed

function sprintf0 :: "string \<Rightarrow> string" where
  "sprintf0 [] = []"
| "sprintf0 (c # cs) =
     (if c = CHR ''%'' then fst (directive cs) @ sprintf0 (snd (directive cs)) else c # sprintf0 cs)"
  by pat_completeness auto
termination
  by (relation "measure length") (auto simp: le_imp_less_Suc directive_shorter)

declare sprintf0.simps(2) [simp del]

lemma sprintf0_no_percent: "CHR ''%'' \<notin> set s \<Longrightarrow> sprintf0 s = s"
  by (induction s) (auto simp: sprintf0.simps(2))

subsection \<open>The package \<^verbatim>\<open>binary/errors\<close>\<close>

fun err_text :: "gerror \<Rightarrow> string" where
  "err_text (GoError m) = m"
| "err_text (IgniteError st im m) = m"

text \<open>\<^verbatim>\<open>(*IgniteError).String\<close>.\<close>

definition ignite_String :: "gerror \<Rightarrow> string" where
  "ignite_String e = err_text e"

text \<open>\<^verbatim>\<open>Errorf\<close> with operands already formatted into the text, and with a bare format.\<close>

definition Errorf :: "string \<Rightarrow> gerror" where
  "Errorf m = GoError m"

definition Errorf0 :: "string \<Rightarrow> gerror" where
  "Errorf0 format = GoError (sprintf0 format)"

definition NewError :: "32 word \<Rightarrow> string \<Rightarrow> gerror" where
  "NewError status message = IgniteError status message (''['' @ int_text (sint status) @ ''] '' @ message)"

text \<open>
  \<^verbatim>\<open>Wrapf\<close>; \<open>context\<close> is its format with the operands already substituted. An \<^verbatim>\<open>IgniteError\<close>
  gets the longer text in place and keeps its status; any other error is rebuilt by passing the
  finished text to \<^verbatim>\<open>Errorf\<close> as a format.
\<close>

fun Wrapf :: "gerror \<Rightarrow> string \<Rightarrow> gerror" where
  "Wrapf (IgniteError st im m) ctxt = IgniteError st im (ctxt @ '': '' @ m)"
| "Wrapf (GoError m) ctxt = Errorf0 (ctxt @ '': '' @ m)"

abbreviation wrap_err :: "string \<Rightarrow> 'a res \<Rightarrow> 'a res" where
  "wrap_err ctxt m \<equiv> map_err (\<lambda>e. Wrapf e ctxt) m"

text \<open>What the rest of the client relies on: context is prefixed, the status survives.\<close>

lemma err_text_Wrapf:
  assumes "CHR ''%'' \<notin> set ctxt" and "CHR ''%'' \<notin> set (err_text e)"
  shows "err_text (Wrapf e ctxt) = ctxt @ '': '' @ err_text e"
proof (cases e)
  case (GoError m)
  with assms have "sprintf0 (ctxt @ '': '' @ m) = ctxt @ '': '' @ m"
    by (intro sprintf0_no_percent) auto
  with GoError show ?thesis by (simp add: Errorf0_def)
next
  case (IgniteError st im m)
  then show ?thesis by simp
qed

fun is_ignite :: "gerror \<Rightarrow> bool" where
  "is_ignite (IgniteError st im m) = True"
| "is_ignite (GoError m) = False"

lemma is_ignite_Wrapf [simp]: "is_ignite (Wrapf e c) = is_ignite e"
  by (cases e) (auto simp: Errorf0_def)

subsection \<open>Properties\<close>

text \<open>\<^verbatim>\<open>Wrapf\<close> prefixes the context to the error's text, and an error that carries a server status
  keeps the status and the server's message; without a percent sign in the texts this holds for every
  error.\<close>

theorem Wrapf_context:
  assumes "CHR ''%'' \<notin> set ctxt" and "CHR ''%'' \<notin> set (err_text e)"
  shows "err_text (Wrapf e ctxt) = ctxt @ '': '' @ err_text e \<and>
    (case (e, Wrapf e ctxt) of
       (IgniteError st im m, w) \<Rightarrow> (\<exists>m'. w = IgniteError st im m')
     | (GoError m, w) \<Rightarrow> \<not> is_ignite w)"
  using err_text_Wrapf [OF assms] by (cases e) (auto simp: Errorf0_def)

theorem Wrapf_context_witness:
  "err_text (Wrapf (IgniteError 5 ''x'' ''[5] x'') ''ctx'') = ''ctx'' @ '': '' @ err_text (IgniteError 5 ''x'' ''[5] x'') \<and>
   (case (IgniteError 5 ''x'' ''[5] x'', Wrapf (IgniteError 5 ''x'' ''[5] x'') ''ctx'') of
      (IgniteError st im m, w) \<Rightarrow> (\<exists>m'. w = IgniteError st im m')
    | (GoError m, w) \<Rightarrow> \<not> is_ignite w)"
  by (rule Wrapf_context) simp_all

text \<open>A plain error text with a percent sign does not survive \<^verbatim>\<open>Wrapf\<close>, which reads the finished
  text as a format: the word after the sign is replaced by a complaint about a missing operand.\<close>

theorem Wrapf_mangles_percent:
  "err_text (Wrapf (GoError ''at 100%d'') ''read'') = ''read: at 100%!d(MISSING)''"
  by code_simp

end
