(* ===== verification/BigInt.thy ===== *)
theory BigInt
  imports GoErrors
begin

text \<open>
  Go's \<^verbatim>\<open>math/big\<close> integers as HOL integers, and the big-endian two's-complement byte sequences of
  DECIMAL values: the writer \<^verbatim>\<open>twosComplementBytes\<close> (binary-tuple.go), the writer
  \<^verbatim>\<open>encodeDecimalUnscaled\<close> (tuple.go) and the sign extension of \<^verbatim>\<open>GetValue\<close>. The reference is
  \<open>canonical\<close>: the shortest non-empty two's-complement sequence of a value.
\<close>

subsection \<open>Magnitude bytes and bit length\<close>

text \<open>\<^verbatim>\<open>(*big.Int).Bytes\<close>: the big-endian magnitude with no leading zero byte; \<^verbatim>\<open>BitLen\<close>.\<close>

fun nat_bytes :: "nat \<Rightarrow> byte list" where
  "nat_bytes n = (if n = 0 then [] else nat_bytes (n div 256) @ [word_of_nat n])"

fun bit_len :: "nat \<Rightarrow> nat" where
  "bit_len n = (if n = 0 then 0 else Suc (bit_len (n div 2)))"

declare nat_bytes.simps [simp del] bit_len.simps [simp del]

definition big_Bytes :: "int \<Rightarrow> byte list" where
  "big_Bytes v = nat_bytes (nat \<bar>v\<bar>)"

definition big_BitLen :: "int \<Rightarrow> nat" where
  "big_BitLen v = bit_len (nat \<bar>v\<bar>)"

lemma nat_bytes_0 [simp]: "nat_bytes 0 = []"
  by (simp add: nat_bytes.simps)

lemma nat_bytes_Nil_iff [simp]: "nat_bytes n = [] \<longleftrightarrow> n = 0"
  by (subst nat_bytes.simps) simp

lemma nat_bytes_pos: "0 < n \<Longrightarrow> nat_bytes n = nat_bytes (n div 256) @ [word_of_nat n]"
  by (subst nat_bytes.simps) simp

lemma bit_len_pos: "0 < n \<Longrightarrow> bit_len n = Suc (bit_len (n div 2))"
  by (subst bit_len.simps) simp

lemma bit_len_0 [simp]: "bit_len 0 = 0"
  by (simp add: bit_len.simps)

lemma be_nat_nat_bytes [codec_simps]: "be_nat (nat_bytes n) = n"
proof (induction n rule: nat_bytes.induct)
  case (1 n)
  then show ?case by (subst nat_bytes.simps) (simp add: be_nat_append)
qed

lemma hd_nat_bytes: "0 < n \<Longrightarrow> hd (nat_bytes n) \<noteq> 0"
proof (induction n rule: nat_bytes.induct)
  case (1 n)
  show ?case
  proof (cases "n < 256")
    case True
    with 1 have "nat_bytes n = [word_of_nat n]" by (subst nat_bytes.simps) simp
    moreover from 1 True have "(word_of_nat n :: byte) \<noteq> 0"
      by (simp add: word_unat_eq_iff)
    ultimately show ?thesis by simp
  next
    case False
    with 1 have "hd (nat_bytes (n div 256)) \<noteq> 0" by simp
    moreover have "nat_bytes n = nat_bytes (n div 256) @ [word_of_nat n]"
      using False by (subst nat_bytes.simps) simp
    moreover have "n div 256 \<noteq> 0" using False by (simp add: div_eq_0_iff)
    ultimately show ?thesis by (simp add: hd_append)
  qed
qed

lemma nat_bytes_upper: "n < 256 ^ length (nat_bytes n)"
  using be_nat_bound [of "nat_bytes n"] by (simp add: be_nat_nat_bytes)

lemma be_nat_hd_ge:
  assumes "bs \<noteq> []"
  shows "unat (hd bs) * 256 ^ (length bs - 1) \<le> be_nat bs"
    and "be_nat bs < (unat (hd bs) + 1) * 256 ^ (length bs - 1)"
proof -
  obtain b bs' where bs: "bs = b # bs'" using assms by (cases bs) auto
  show "unat (hd bs) * 256 ^ (length bs - 1) \<le> be_nat bs"
    by (simp add: bs be_nat_Cons)
  show "be_nat bs < (unat (hd bs) + 1) * 256 ^ (length bs - 1)"
    using be_nat_bound [of bs'] by (simp add: bs be_nat_Cons)
qed

lemma nat_bytes_lower:
  assumes "0 < n"
  shows "256 ^ (length (nat_bytes n) - 1) \<le> n"
proof -
  have "nat_bytes n \<noteq> []" and "1 \<le> unat (hd (nat_bytes n))"
    using assms hd_nat_bytes [OF assms] by (simp_all add: Suc_leI unat_gt_0)
  then have "1 * 256 ^ (length (nat_bytes n) - 1) \<le> unat (hd (nat_bytes n)) * 256 ^ (length (nat_bytes n) - 1)"
    by (intro mult_le_mono1)
  also have "\<dots> \<le> be_nat (nat_bytes n)"
    using \<open>nat_bytes n \<noteq> []\<close> by (rule be_nat_hd_ge(1))
  finally show ?thesis by (simp add: be_nat_nat_bytes)
qed

lemma length_nat_bytes_eq:
  assumes "256 ^ k \<le> n" and "n < 256 ^ Suc k"
  shows "length (nat_bytes n) = Suc k"
proof -
  have n: "0 < n" using assms(1) by (rule less_le_trans [rotated]) simp
  define l where "l = length (nat_bytes n)"
  have "0 < l" using n by (simp add: l_def)
  have "(256::nat) ^ (l - 1) < 256 ^ Suc k"
    using nat_bytes_lower [OF n] assms(2) unfolding l_def by (rule le_less_trans)
  moreover have "(256::nat) ^ k < 256 ^ l"
    using assms(1) nat_bytes_upper [of n] unfolding l_def by (rule le_less_trans)
  ultimately have "l - 1 < Suc k" and "k < l"
    by (simp_all only: power_strict_increasing_iff)
  with \<open>0 < l\<close> show ?thesis unfolding l_def by simp
qed

lemma nat_bytes_of_be_nat:
  assumes "bs \<noteq> []" and "hd bs \<noteq> 0"
  shows "nat_bytes (be_nat bs) = bs"
proof -
  define n where "n = be_nat bs"
  have len: "length bs = Suc (length bs - 1)" using assms(1) by (cases bs) auto
  have "1 \<le> unat (hd bs)" using assms(2) by (simp add: Suc_leI unat_gt_0)
  then have "1 * 256 ^ (length bs - 1) \<le> unat (hd bs) * 256 ^ (length bs - 1)"
    by (intro mult_le_mono1)
  also have "\<dots> \<le> n" unfolding n_def using assms(1) by (rule be_nat_hd_ge(1))
  finally have "256 ^ (length bs - 1) \<le> n" by simp
  moreover have "n < 256 ^ Suc (length bs - 1)"
    using be_nat_bound [of bs] len unfolding n_def by simp
  ultimately have "length (nat_bytes n) = length bs"
    using len length_nat_bytes_eq by metis
  then show ?thesis
    unfolding n_def by (intro be_nat_inj) (simp_all add: be_nat_nat_bytes)
qed

lemma bit_len_upper: "n < 2 ^ bit_len n"
proof (induction n rule: bit_len.induct)
  case (1 n)
  show ?case
  proof (cases "n = 0")
    case True
    then show ?thesis by simp
  next
    case False
    with 1 have "n div 2 < 2 ^ bit_len (n div 2)" by simp
    then have "n < 2 * 2 ^ bit_len (n div 2)" by linarith
    with False show ?thesis by (subst bit_len.simps) simp
  qed
qed

lemma bit_len_lower: "0 < n \<Longrightarrow> 2 ^ (bit_len n - 1) \<le> n"
proof (induction n rule: bit_len.induct)
  case (1 n)
  show ?case
  proof (cases "n = 1")
    case True
    then show ?thesis by (subst bit_len.simps) (simp add: bit_len.simps)
  next
    case False
    with 1 have "2 ^ (bit_len (n div 2) - 1) \<le> n div 2" and "0 < n div 2" by simp_all
    moreover from this(2) have "0 < bit_len (n div 2)" by (subst bit_len.simps) simp
    ultimately have "2 ^ bit_len (n div 2) \<le> n"
      by (cases "bit_len (n div 2)") auto
    with 1 show ?thesis by (subst bit_len.simps) simp
  qed
qed

subsection \<open>Two's-complement values\<close>

definition top_set :: "byte \<Rightarrow> bool" where
  "top_set b = (b AND 0x80 \<noteq> 0)"

text \<open>The sign extension of \<^verbatim>\<open>GetValue\<close> for DECIMAL: \<^verbatim>\<open>SetBytes\<close>, then minus \<^verbatim>\<open>1 << 8*len\<close> if negative.\<close>

definition signed_be :: "byte list \<Rightarrow> int" where
  "signed_be raw =
     (let n = int (be_nat raw)
      in if 0 < length raw \<and> top_set (raw ! 0) then n - 2 ^ (8 * length raw) else n)"

lemma odd_div_128: "n < 256 \<Longrightarrow> odd (n div 128) \<longleftrightarrow> 128 \<le> (n :: nat)"
  by (cases "128 \<le> n") (auto simp: div_nat_eqI [of 128 1 n])

lemma top_set_iff: "top_set b \<longleftrightarrow> 128 \<le> unat b"
proof -
  have "top_set b \<longleftrightarrow> b AND 2 ^ 7 \<noteq> 0" by (simp add: top_set_def)
  also have "\<dots> \<longleftrightarrow> bit b 7" by (simp only: and_exp_eq_0_iff_not_bit not_not)
  also have "\<dots> \<longleftrightarrow> bit (unat b) 7" by (simp add: bit_unsigned_iff)
  also have "\<dots> \<longleftrightarrow> odd (unat b div 128)" by (simp add: bit_iff_odd)
  also have "\<dots> \<longleftrightarrow> 128 \<le> unat b" by (rule odd_div_128) simp
  finally show ?thesis .
qed

lemma top_set_uint: "top_set b \<longleftrightarrow> 128 \<le> uint b"
proof -
  have "uint b = int (unat b)" by simp
  then show ?thesis unfolding top_set_iff by linarith
qed

lemma pow8_256: "(2::int) ^ (8 * n) = 256 ^ n"
  by (simp add: power_mult)

lemma signed_be_alt:
  assumes "bs \<noteq> []"
  shows "signed_be bs = int (be_nat bs) - (if top_set (hd bs) then 256 ^ length bs else 0)"
  using assms by (simp add: signed_be_def Let_def hd_conv_nth pow8_256)

definition fits :: "nat \<Rightarrow> int \<Rightarrow> bool" where
  "fits n v \<longleftrightarrow> - (128 * 256 ^ (n - 1)) \<le> v \<and> v < 128 * 256 ^ (n - 1)"

lemma pow256_split: "bs \<noteq> [] \<Longrightarrow> (256::int) ^ length bs = 256 * 256 ^ (length bs - 1)"
  by (cases bs) auto

lemma hd_be_nat_int:
  assumes "bs \<noteq> []"
  shows "uint (hd bs) * 256 ^ (length bs - 1) \<le> int (be_nat bs)"
    and "int (be_nat bs) < (uint (hd bs) + 1) * 256 ^ (length bs - 1)"
proof -
  have "int (unat (hd bs) * 256 ^ (length bs - 1)) \<le> int (be_nat bs)"
    using be_nat_hd_ge(1) [OF assms] by (simp only: of_nat_le_iff)
  then show "uint (hd bs) * 256 ^ (length bs - 1) \<le> int (be_nat bs)" by simp
  have "int (be_nat bs) < int ((unat (hd bs) + 1) * 256 ^ (length bs - 1))"
    using be_nat_hd_ge(2) [OF assms] by (simp only: of_nat_less_iff)
  then show "int (be_nat bs) < (uint (hd bs) + 1) * 256 ^ (length bs - 1)"
    by (simp add: distrib_right)
qed

lemma signed_be_fits:
  assumes "bs \<noteq> []"
  shows "fits (length bs) (signed_be bs)"
proof -
  define P :: int where "P = 256 ^ (length bs - 1)"
  define h where "h = uint (hd bs)"
  have P: "0 < P" by (simp add: P_def)
  have b: "h * P \<le> int (be_nat bs)" "int (be_nat bs) < (h + 1) * P"
    using hd_be_nat_int [OF assms] by (simp_all add: P_def h_def)
  have h: "0 \<le> h" "h \<le> 255" by (simp_all add: h_def)
  show ?thesis
  proof (cases "top_set (hd bs)")
    case True
    then have "128 \<le> h" by (simp add: top_set_uint h_def)
    then have "128 * P \<le> h * P" using P by (intro mult_right_mono) auto
    moreover have "(h + 1) * P \<le> 256 * P" using h P by (intro mult_right_mono) auto
    moreover have "signed_be bs = int (be_nat bs) - 256 * P"
      using assms True by (simp add: signed_be_alt pow256_split P_def)
    ultimately show ?thesis using b P unfolding fits_def P_def [symmetric] by linarith
  next
    case False
    then have "h + 1 \<le> 128" by (simp add: top_set_uint h_def)
    then have "(h + 1) * P \<le> 128 * P" using P by (intro mult_right_mono) auto
    moreover have "signed_be bs = int (be_nat bs)" using assms False by (simp add: signed_be_alt)
    ultimately show ?thesis using b P unfolding fits_def P_def [symmetric] by linarith
  qed
qed

lemma signed_be_mod: "signed_be bs mod 256 ^ length bs = int (be_nat bs)"
proof (cases "bs = []")
  case True
  then show ?thesis by (simp add: signed_be_def)
next
  case False
  have "int (be_nat bs) < 256 ^ length bs"
    using be_nat_bound [of bs] by (metis of_nat_less_iff of_nat_numeral of_nat_power)
  with False show ?thesis by (simp add: signed_be_alt)
qed

lemma signed_be_inj:
  assumes "length xs = length ys" and "signed_be xs = signed_be ys"
  shows "xs = ys"
proof -
  have "int (be_nat xs) = int (be_nat ys)"
    using signed_be_mod [of xs] signed_be_mod [of ys] assms by simp
  then show ?thesis using assms(1) by (intro be_nat_inj) auto
qed

subsection \<open>The shortest encoding\<close>

definition canonical :: "byte list \<Rightarrow> bool" where
  "canonical bs \<longleftrightarrow> bs \<noteq> [] \<and>
     (1 < length bs \<longrightarrow>
        \<not> (hd bs = 0 \<and> \<not> top_set (hd (tl bs))) \<and> \<not> (hd bs = 0xff \<and> top_set (hd (tl bs))))"

lemma fits_mono: "m \<le> n \<Longrightarrow> fits m v \<Longrightarrow> fits n v"
proof -
  assume "m \<le> n" and f: "fits m v"
  then have "(256::int) ^ (m - 1) \<le> 256 ^ (n - 1)" by (intro power_increasing) auto
  with f show ?thesis unfolding fits_def by linarith
qed

lemma canonical_not_shorter:
  assumes "canonical bs" and "1 < length bs"
  shows "\<not> fits (length bs - 1) (signed_be bs)"
proof -
  obtain a b cs where bs: "bs = a # b # cs"
    using assms(2) by (metis One_nat_def length_0_conv length_Suc_conv less_numeral_extra(2) less_irrefl neq_Nil_conv)
  define P :: int where "P = 256 ^ length cs"
  define r where "r = int (be_nat (b # cs))"
  have P: "0 < P" by (simp add: P_def)
  have rb: "uint b * P \<le> r" "r < (uint b + 1) * P"
    using hd_be_nat_int [of "b # cs"] by (simp_all add: P_def r_def)
  have s: "signed_be bs = uint a * (256 * P) + r - (if top_set a then 256 * (256 * P) else 0)"
    by (simp add: bs signed_be_alt be_nat_Cons [of a] P_def r_def)
  have a: "uint a \<le> 255" "0 \<le> uint a" by simp_all
  have r: "0 \<le> r" "r < 256 * P"
  proof -
    show "0 \<le> r" by (simp add: r_def)
    have "uint b + 1 \<le> 256" using uint_byte_bounds(1) [of b] by linarith
    then have "(uint b + 1) * P \<le> 256 * P" using P by (intro mult_right_mono) auto
    with rb show "r < 256 * P" by simp
  qed
  have a0: "a = 0 \<longleftrightarrow> uint a = 0" and a255: "a = 0xff \<longleftrightarrow> uint a = 255"
    by (simp_all add: word_uint_eq_iff)
  have fits: "fits (length bs - 1) v \<longleftrightarrow> - (128 * P) \<le> v \<and> v < 128 * P" for v
    by (simp add: fits_def bs P_def)
  consider "top_set a" "a \<noteq> 0xff" | "a = 0xff" | "\<not> top_set a" "a \<noteq> 0" | "a = 0" by blast
  then show ?thesis
  proof cases
    case 1
    then have "uint a \<le> 254" using a a255 by linarith
    then have "uint a * (256 * P) \<le> 254 * (256 * P)" using P by (intro mult_right_mono) auto
    moreover have "signed_be bs = uint a * (256 * P) + r - 256 * (256 * P)" using 1 by (simp add: s)
    ultimately show ?thesis unfolding fits using r P by linarith
  next
    case 2
    then have "top_set a" by (simp add: top_set_iff)
    have "\<not> top_set b" using assms 2 by (simp add: canonical_def bs)
    then have "uint b + 1 \<le> 128" by (simp add: top_set_uint)
    then have "(uint b + 1) * P \<le> 128 * P" using P by (intro mult_right_mono) auto
    moreover have "signed_be bs = r - 256 * P" using 2 \<open>top_set a\<close> by (simp add: s)
    ultimately show ?thesis unfolding fits using rb P by linarith
  next
    case 3
    then have "1 \<le> uint a" using a0 uint_ge_0 [of a] by linarith
    then have "1 * (256 * P) \<le> uint a * (256 * P)" using P by (intro mult_right_mono) auto
    moreover have "signed_be bs = uint a * (256 * P) + r" using 3 by (simp add: s)
    ultimately show ?thesis unfolding fits using r P by linarith
  next
    case 4
    then have "\<not> top_set a" by (simp add: top_set_iff)
    have "top_set b" using assms 4 by (simp add: canonical_def bs)
    then have "128 \<le> uint b" by (simp add: top_set_uint)
    then have "128 * P \<le> uint b * P" using P by (intro mult_right_mono) auto
    moreover have "signed_be bs = r" using 4 \<open>\<not> top_set a\<close> by (simp add: s)
    ultimately show ?thesis unfolding fits using rb P by linarith
  qed
qed

lemma canonical_unique:
  assumes "canonical xs" and "canonical ys" and "signed_be xs = signed_be ys"
  shows "xs = ys"
proof -
  have ge: "length us \<le> length vs"
    if "canonical us" "canonical vs" "signed_be us = signed_be vs" for us vs
  proof (rule ccontr)
    assume "\<not> length us \<le> length vs"
    moreover have "0 < length vs" using that(2) by (simp add: canonical_def)
    ultimately have "length vs \<le> length us - 1" "1 < length us" by linarith+
    moreover have "fits (length vs) (signed_be us)"
      using that signed_be_fits [of vs] by (simp add: canonical_def)
    ultimately show False
      using canonical_not_shorter [OF that(1)] fits_mono by blast
  qed
  have "length xs = length ys" using ge assms by (metis le_antisym)
  then show ?thesis using assms(3) by (rule signed_be_inj)
qed

lemma canonical_shortest:
  assumes "canonical bs" and "cs \<noteq> []" and "signed_be cs = signed_be bs"
  shows "length bs \<le> length cs"
proof (rule ccontr)
  assume "\<not> length bs \<le> length cs"
  moreover have "0 < length cs" using assms(2) by simp
  ultimately have "length cs \<le> length bs - 1" "1 < length bs" by linarith+
  moreover have "fits (length cs) (signed_be bs)" using signed_be_fits [OF assms(2)] assms(3) by simp
  ultimately show False using canonical_not_shorter [OF assms(1)] fits_mono by blast
qed

end
