(* ===== verification/DecimalBytes.thy ===== *)
theory DecimalBytes
  imports BigInt
begin

text \<open>
  The two DECIMAL writers of the client. \<^verbatim>\<open>twosComplementBytes\<close> (key-value path) is the shortest
  two's-complement encoding of every integer. \<^verbatim>\<open>encodeDecimalUnscaled\<close> (SQL argument path) is
  the same function except on the negative numbers whose magnitude starts with byte \<open>0xff\<close>
  followed by something non-zero: there the subtraction loses leading zero bytes and the number
  written is another one.
\<close>

subsection \<open>twosComplementBytes\<close>

text \<open>The loop that drops redundant leading \<open>0xff\<close> bytes.\<close>

fun trim_ff :: "byte list \<Rightarrow> byte list" where
  "trim_ff (b0 # b1 # bs) = (if b0 = 0xff \<and> b1 AND 0x80 \<noteq> 0 then trim_ff (b1 # bs) else b0 # b1 # bs)"
| "trim_ff bs = bs"

text \<open>A \<^verbatim>\<open>*big.Int\<close> is an optional integer; \<open>None\<close> is the nil pointer.\<close>

definition twosComplementBytes :: "int option \<Rightarrow> byte list" where
  "twosComplementBytes ov =
     (case ov of
        None \<Rightarrow> [0]
      | Some v \<Rightarrow>
          if 0 \<le> v
          then (let b = big_Bytes v
                in if length b = 0 then [0] else if b ! 0 AND 0x80 \<noteq> 0 then [0] @ b else b)
          else (let len = (big_BitLen v + 8) div 8;
                    twos = 2 ^ (len * 8) + v;
                    b = trim_ff (big_Bytes twos)
                in if length b = 0 \<or> b ! 0 AND 0x80 = 0 then [0xff] @ b else b))"

subsection \<open>encodeDecimalUnscaled\<close>

text \<open>Dereferencing a nil \<^verbatim>\<open>*big.Int\<close> panics in \<^verbatim>\<open>Sign\<close>.\<close>

definition encodeDecimalUnscaled :: "int option \<Rightarrow> byte list res" where
  "encodeDecimalUnscaled on =
     (case on of
        None \<Rightarrow> Panic NilDereference
      | Some n \<Rightarrow>
          if n = 0 then Ok [0]
          else if 0 < n
          then (let b = big_Bytes n in Ok (if b ! 0 AND 0x80 \<noteq> 0 then 0 # b else b))
          else (let abs = - n;
                    bits = (big_BitLen abs + 7) div 8;
                    bits = (if bits = 0 then 1 else bits);
                    modulus = 2 ^ (8 * bits);
                    twos = modulus - abs;
                    b = big_Bytes twos
                in Ok (if b ! 0 AND 0x80 = 0 then 0xff # b else b)))"

subsection \<open>The shortest encoding, written by twosComplementBytes\<close>

lemma top_set_and [simp]: "(b AND 0x80 \<noteq> 0) = top_set b" "(b AND 0x80 = 0) = (\<not> top_set b)"
  by (simp_all add: top_set_def)

lemma top_set_0 [simp]: "\<not> top_set 0" and top_set_ff [simp]: "top_set 0xff"
  by (simp_all add: top_set_iff)

lemma signed_be_single: "signed_be [b] = (if top_set b then uint b - 256 else uint b)"
  by (simp add: signed_be_alt)

lemma signed_be_0_Cons: "\<not> top_set (hd bs) \<or> bs \<noteq> [] \<Longrightarrow> signed_be (0 # bs) = int (be_nat bs)"
  by (simp add: signed_be_alt be_nat_Cons)

lemma signed_be_ff_Cons:
  assumes "bs \<noteq> []" and "top_set (hd bs)"
  shows "signed_be (0xff # bs) = signed_be bs"
proof -
  have "signed_be (0xff # bs) = 255 * 256 ^ length bs + int (be_nat bs) - 256 * 256 ^ length bs"
    by (simp add: signed_be_alt be_nat_Cons)
  also have "\<dots> = signed_be bs" using assms by (simp add: signed_be_alt)
  finally show ?thesis .
qed

lemma trim_ff_Nil_iff [simp]: "trim_ff bs = [] \<longleftrightarrow> bs = []"
  by (induction bs rule: trim_ff.induct) auto

lemma trim_ff_top: "bs \<noteq> [] \<Longrightarrow> top_set (hd bs) \<Longrightarrow> top_set (hd (trim_ff bs))"
  by (induction bs rule: trim_ff.induct) auto

lemma signed_be_trim_ff: "signed_be (trim_ff bs) = signed_be bs"
  by (induction bs rule: trim_ff.induct) (auto simp: signed_be_ff_Cons)

lemma canonical_trim_ff: "bs \<noteq> [] \<Longrightarrow> top_set (hd bs) \<Longrightarrow> canonical (trim_ff bs)"
  by (induction bs rule: trim_ff.induct) (auto simp: canonical_def)

lemma nonneg_bytes:
  assumes "0 \<le> v" and "b = big_Bytes v"
    and "r = (if length b = 0 then [0] else if top_set (b ! 0) then 0 # b else b)"
  shows "signed_be r = v \<and> canonical r"
proof (cases "v = 0")
  case True
  with assms show ?thesis by (simp add: big_Bytes_def signed_be_single canonical_def)
next
  case False
  have b: "b \<noteq> []" "hd b \<noteq> 0" "int (be_nat b) = v"
    using assms(1,2) False hd_nat_bytes [of "nat v"] by (simp_all add: big_Bytes_def be_nat_nat_bytes)
  have hd0: "b ! 0 = hd b" using b(1) by (simp add: hd_conv_nth)
  show ?thesis
  proof (cases "top_set (hd b)")
    case True
    with assms(3) b hd0 have "r = 0 # b" by simp
    with b True show ?thesis by (simp add: signed_be_0_Cons canonical_def)
  next
    case False
    with assms(3) b hd0 have "r = b" by simp
    moreover from b False have "canonical b" by (auto simp: canonical_def)
    ultimately show ?thesis using b False by (simp add: signed_be_alt)
  qed
qed

lemma neg_bytes_width:
  assumes "v < 0" and "len = (big_BitLen v + 8) div 8"
  shows "0 < len" and "128 * 256 ^ (len - 1) \<le> 2 ^ (len * 8) + v" and "2 ^ (len * 8) + v < 256 ^ len"
proof -
  define m where "m = nat (- v)"
  have m: "v = - int m" "0 < m" using assms(1) by (simp_all add: m_def)
  have k: "big_BitLen v = bit_len m" using assms(1) by (simp add: big_BitLen_def m_def)
  show len: "0 < len" using assms(2) by simp
  have "bit_len m \<le> len * 8 - 1" using assms(2) k by presburger
  then have "(2::nat) ^ bit_len m \<le> 2 ^ (len * 8 - 1)" by (intro power_increasing) auto
  with bit_len_upper [of m] have "m \<le> 2 ^ (len * 8 - 1)" by linarith
  then have "int m \<le> 2 ^ (len * 8 - 1)" by (metis of_nat_le_iff of_nat_numeral of_nat_power)
  moreover have "len * 8 = Suc (len * 8 - 1)" and "len * 8 - 1 = 7 + 8 * (len - 1)" using len by simp_all
  then have "(2::int) ^ (len * 8) = 2 * 2 ^ (len * 8 - 1)" and "(2::int) ^ (len * 8 - 1) = 128 * 256 ^ (len - 1)"
    by (metis power_Suc, simp add: power_add power_mult)
  moreover have "(2::int) ^ (len * 8) = 256 ^ len" by (simp add: power_mult mult.commute [of len])
  ultimately show "128 * 256 ^ (len - 1) \<le> 2 ^ (len * 8) + v" and "2 ^ (len * 8) + v < 256 ^ len"
    using m by linarith+
qed

lemma be_top_of_range:
  assumes "b = big_Bytes t" and "128 * 256 ^ k \<le> t" and "t < 256 ^ Suc k"
  shows "length b = Suc k" and "b \<noteq> []" and "top_set (hd b)" and "int (be_nat b) = t"
proof -
  have t: "0 < t" using assms(2) by (rule less_le_trans [rotated]) simp
  have n: "int (nat t) = t" using t by simp
  have "(256::int) ^ k \<le> t" using assms(2) by (rule order_trans [rotated]) simp
  then have "256 ^ k \<le> nat t" and "nat t < 256 ^ Suc k"
    using assms(3) t by (simp_all add: le_nat_iff nat_less_iff)
  then show len: "length b = Suc k"
    unfolding assms(1) big_Bytes_def using t length_nat_bytes_eq by simp
  then show "b \<noteq> []" by auto
  show v: "int (be_nat b) = t" using t by (simp add: assms(1) big_Bytes_def be_nat_nat_bytes)
  have "t < (uint (hd b) + 1) * 256 ^ k"
    using hd_be_nat_int(2) [OF \<open>b \<noteq> []\<close>] v len by simp
  then have "128 * (256::int) ^ k < (uint (hd b) + 1) * 256 ^ k" using assms(2) by linarith
  then have "128 < uint (hd b) + 1" by (simp only: mult_less_cancel_right) simp
  then show "top_set (hd b)" by (simp add: top_set_uint)
qed

lemma twosComplementBytes_spec:
  "signed_be (twosComplementBytes (Some v)) = v \<and> canonical (twosComplementBytes (Some v))"
proof (cases "0 \<le> v")
  case True
  then show ?thesis
    by (intro nonneg_bytes [OF True refl]) (simp add: twosComplementBytes_def Let_def)
next
  case False
  define len where "len = (big_BitLen v + 8) div 8"
  define b where "b = big_Bytes (2 ^ (len * 8) + v)"
  have w: "0 < len" "128 * 256 ^ (len - 1) \<le> 2 ^ (len * 8) + v" "2 ^ (len * 8) + v < 256 ^ Suc (len - 1)"
    using neg_bytes_width [OF _ len_def] False by simp_all
  note b = be_top_of_range [OF b_def w(2,3)]
  have "signed_be b = v"
    using b w(1) by (simp add: signed_be_alt) (simp add: power_mult mult.commute [of len])
  then have "signed_be (trim_ff b) = v" by (simp add: signed_be_trim_ff)
  moreover have "canonical (trim_ff b)" and "top_set (trim_ff b ! 0)" and "trim_ff b \<noteq> []"
    using b canonical_trim_ff trim_ff_top by (simp_all flip: hd_conv_nth)
  moreover from this have "twosComplementBytes (Some v) = trim_ff b"
    using False by (simp add: twosComplementBytes_def Let_def flip: len_def b_def)
  ultimately show ?thesis by simp
qed

lemma twosComplementBytes_value [codec_simps]: "signed_be (twosComplementBytes (Some v)) = v"
  using twosComplementBytes_spec by blast

lemma twosComplementBytes_canonical: "canonical (twosComplementBytes (Some v))"
  using twosComplementBytes_spec by blast

lemma twosComplementBytes_not_Nil [simp]: "twosComplementBytes (Some v) \<noteq> []"
  using twosComplementBytes_canonical [of v] by (simp add: canonical_def)

lemma canonical_is_twosComplementBytes:
  assumes "canonical bs" and "signed_be bs = v"
  shows "bs = twosComplementBytes (Some v)"
  using assms twosComplementBytes_spec [of v] by (intro canonical_unique) auto

subsection \<open>Where encodeDecimalUnscaled agrees\<close>

text \<open>The magnitudes whose complement loses leading zero bytes.\<close>

definition lossy_magnitude :: "int \<Rightarrow> bool" where
  "lossy_magnitude n \<longleftrightarrow> n < 0 \<and> 255 * 256 ^ (length (big_Bytes n) - 1) < - n"

lemma bit_len_bytes:
  assumes "0 < m"
  shows "(bit_len m + 7) div 8 = length (nat_bytes m)"
proof -
  define k where "k = (bit_len m + 7) div 8 - 1"
  define l where "l = bit_len m"
  have l: "0 < l" using assms bit_len.simps [of m] by (simp add: l_def)
  have up: "m < 2 ^ l" and lo: "2 ^ (l - 1) \<le> m"
    using bit_len_upper [of m] bit_len_lower [OF assms] by (simp_all add: l_def)
  have kl: "8 * k \<le> l - 1" "l \<le> 8 * Suc k" "(l + 7) div 8 = Suc k"
    using l unfolding k_def l_def [symmetric] by presburger+
  have "(256::nat) ^ k = 2 ^ (8 * k)" by (simp add: power_mult)
  also have "\<dots> \<le> 2 ^ (l - 1)" using kl by (intro power_increasing) auto
  finally have "256 ^ k \<le> m" using lo by simp
  moreover have "(2::nat) ^ l \<le> 2 ^ (8 * Suc k)" using kl by (intro power_increasing) auto
  then have "m < 256 ^ Suc k" using up unfolding power_mult by simp
  ultimately have "length (nat_bytes m) = Suc k" by (rule length_nat_bytes_eq)
  with kl show ?thesis by (simp add: l_def)
qed

lemma encodeDecimalUnscaled_neg:
  assumes "n < 0" and "L = length (big_Bytes n)" and "b = big_Bytes (256 ^ L + n)"
  shows "encodeDecimalUnscaled (Some n) = Ok (if top_set (b ! 0) then b else 0xff # b)"
    and "0 < L" and "256 ^ (L - 1) \<le> - n" and "- n < 256 ^ L"
proof -
  have m: "0 < nat (- n)" "int (nat (- n)) = - n" using assms(1) by simp_all
  have L: "L = length (nat_bytes (nat (- n)))" using assms(1,2) by (simp add: big_Bytes_def)
  show "0 < L" using m by (simp add: L)
  have bits: "(big_BitLen (- n) + 7) div 8 = L"
    using bit_len_bytes [OF m(1)] m(1) by (simp add: big_BitLen_def L)
  have "int (256 ^ (L - 1)) \<le> int (nat (- n))" and "int (nat (- n)) < int (256 ^ L)"
    using nat_bytes_lower [OF m(1)] nat_bytes_upper [of "nat (- n)"]
    by (simp_all only: of_nat_le_iff of_nat_less_iff flip: L)
  then show "256 ^ (L - 1) \<le> - n" and "- n < 256 ^ L" using m(2) by simp_all
  have "(2::int) ^ (8 * L) = 256 ^ L" by (simp add: power_mult)
  then show "encodeDecimalUnscaled (Some n) = Ok (if top_set (b ! 0) then b else 0xff # b)"
    using assms(1,3) \<open>0 < L\<close> bits by (simp add: encodeDecimalUnscaled_def Let_def)
qed

lemma encodeDecimalUnscaled_nonneg:
  assumes "0 \<le> n"
  shows "encodeDecimalUnscaled (Some n) = Ok (twosComplementBytes (Some n))"
proof (cases "n = 0")
  case True
  then show ?thesis
    by (simp add: encodeDecimalUnscaled_def twosComplementBytes_def big_Bytes_def)
next
  case False
  then have "big_Bytes n \<noteq> []" using assms by (simp add: big_Bytes_def)
  then show ?thesis using assms False
    by (simp add: encodeDecimalUnscaled_def twosComplementBytes_def Let_def)
qed

lemma encodeDecimalUnscaled_value:
  assumes "encodeDecimalUnscaled (Some n) = Ok r"
  shows "signed_be r = n \<longleftrightarrow> \<not> lossy_magnitude n"
    and "\<not> lossy_magnitude n \<Longrightarrow> r = twosComplementBytes (Some n)"
proof -
  have "(signed_be r = n \<longleftrightarrow> \<not> lossy_magnitude n) \<and>
    (\<not> lossy_magnitude n \<longrightarrow> r = twosComplementBytes (Some n))"
  proof (cases "0 \<le> n")
    case True
    then have "r = twosComplementBytes (Some n)"
      using assms by (simp add: encodeDecimalUnscaled_nonneg)
    with True show ?thesis by (simp add: lossy_magnitude_def codec_simps)
  next
    case False
    define L where "L = length (big_Bytes n)"
    define b where "b = big_Bytes (256 ^ L + n)"
    have neg: "n < 0" using False by simp
    note e = encodeDecimalUnscaled_neg [OF neg L_def b_def]
    define t where "t = 256 ^ L + n"
    have t: "0 < t" "t \<le> 256 ^ L - 256 ^ (L - 1)" using e(3,4) by (simp_all add: t_def)
    have bt: "b \<noteq> []" "int (be_nat b) = t" "hd b \<noteq> 0"
      using t hd_nat_bytes [of "nat t"]
      by (simp_all add: b_def big_Bytes_def be_nat_nat_bytes flip: t_def)
    have r: "r = (if top_set (hd b) then b else 0xff # b)"
      using assms e(1) bt(1) by (simp add: hd_conv_nth)
    have v: "signed_be r = t - 256 ^ length b"
      using bt by (simp add: r signed_be_alt be_nat_Cons)
    have PL: "(256::int) ^ L = 256 * 256 ^ (L - 1)" using e(2) by (cases L) auto
    have "length b = L \<longleftrightarrow> 256 ^ (L - 1) \<le> t"
    proof
      assume "length b = L"
      then show "256 ^ (L - 1) \<le> t"
        using nat_bytes_lower [of "nat t"] t(1)
        by (simp add: b_def big_Bytes_def le_nat_iff flip: t_def)
    next
      assume "256 ^ (L - 1) \<le> t"
      then have "256 ^ (L - 1) \<le> nat t" and "nat t < 256 ^ Suc (L - 1)"
        using t e(2) PL neg by (simp_all add: le_nat_iff nat_less_iff t_def)
      then have "length (nat_bytes (nat t)) = Suc (L - 1)" by (rule length_nat_bytes_eq)
      then show "length b = L" using e(2) t(1) by (simp add: b_def big_Bytes_def flip: t_def)
    qed
    moreover have "lossy_magnitude n \<longleftrightarrow> \<not> 256 ^ (L - 1) \<le> t"
      using neg PL unfolding lossy_magnitude_def t_def L_def [symmetric] by linarith
    moreover have "signed_be r = n \<longleftrightarrow> length b = L"
    proof -
      have "signed_be r = n \<longleftrightarrow> (256::int) ^ length b = 256 ^ L" using v unfolding t_def by linarith
      then show ?thesis by simp
    qed
    moreover have "canonical r" if "length b = L"
    proof (cases "top_set (hd b)")
      case True
      have "\<not> (hd b = 0xff \<and> top_set (hd (tl b)))" if "1 < length b"
      proof -
        obtain a c cs where b: "b = a # c # cs"
          using \<open>1 < length b\<close> bt(1) by (cases b; cases "tl b") auto
        have P: "t = uint a * 256 ^ (L - 1) + int (be_nat (c # cs))"
          using bt(2) \<open>length b = L\<close> unfolding b be_nat_Cons [of a] by auto
        have "be_nat (c # cs) = 0" if "a = 0xff" using P t(2) PL that by simp
        then have "c = 0" if "a = 0xff" using that by (simp add: be_nat_Cons unat_eq_0)
        then show ?thesis using b by auto
      qed
      then show ?thesis using True bt(1) by (auto simp: r canonical_def)
    next
      case False
      then show ?thesis using bt(1) by (simp add: r canonical_def)
    qed
    ultimately show ?thesis using canonical_is_twosComplementBytes by blast
  qed
  then show "signed_be r = n \<longleftrightarrow> \<not> lossy_magnitude n"
    and "\<not> lossy_magnitude n \<Longrightarrow> r = twosComplementBytes (Some n)" by blast+
qed

subsection \<open>Properties\<close>

text \<open>C22: \<^verbatim>\<open>twosComplementBytes\<close> writes every integer as a big-endian two's-complement number with
  that value, and no byte sequence with the same value is shorter (what
  \<^verbatim>\<open>java.math.BigInteger.toByteArray\<close> promises).\<close>

theorem twosComplementBytes_shortest:
  assumes "bs \<noteq> []" and "signed_be bs = v"
  shows "signed_be (twosComplementBytes (Some v)) = v \<and> length (twosComplementBytes (Some v)) \<le> length bs"
  using canonical_shortest [OF twosComplementBytes_canonical assms(1)] assms(2)
  by (simp add: twosComplementBytes_value)

theorem twosComplementBytes_shortest_witness:
  "signed_be (twosComplementBytes (Some (-129))) = -129 \<and>
   length (twosComplementBytes (Some (-129))) \<le> length [0xff :: byte, 0xff, 0x7f]"
  by (rule twosComplementBytes_shortest) (simp_all add: signed_be_alt top_set_uint be_nat_Cons)

text \<open>C38: \<^verbatim>\<open>encodeDecimalUnscaled\<close> returns for every integer; what it writes has that value, and is
  what \<^verbatim>\<open>twosComplementBytes\<close> writes, exactly when the number is not a negative one whose magnitude
  exceeds 255 times the weight of its leading byte.\<close>

theorem encodeDecimalUnscaled_exact:
  "\<exists>r. encodeDecimalUnscaled (Some n) = Ok r \<and> (signed_be r = n) = (\<not> lossy_magnitude n) \<and>
       (r = twosComplementBytes (Some n)) = (\<not> lossy_magnitude n)"
proof -
  obtain r where r: "encodeDecimalUnscaled (Some n) = Ok r"
    by (cases "0 \<le> n") (auto simp: encodeDecimalUnscaled_nonneg encodeDecimalUnscaled_neg)
  with encodeDecimalUnscaled_value [OF r] show ?thesis by (auto simp: twosComplementBytes_value)
qed

text \<open>The SQL argument path writes the unscaled value -65535 as the bytes of -255.\<close>

theorem encodeDecimalUnscaled_loses_bytes:
  "encodeDecimalUnscaled (Some (-65535)) = Ok [0xff, 0x01] \<and> signed_be [0xff, 0x01] = -255"
proof -
  have "bit_len 65535 = 16" by (simp add: bit_len_pos)
  moreover have "nat_bytes (Suc 0) = [1]" by (simp add: nat_bytes_pos)
  ultimately show ?thesis
    by (simp add: encodeDecimalUnscaled_def big_BitLen_def big_Bytes_def top_set_uint signed_be_alt be_nat_Cons Let_def)
qed

end
