(* ===== verification/GoFloat.thy ===== *)
theory GoFloat
  imports BigInt
begin

text \<open>
  Go's \<^verbatim>\<open>float32\<close> and \<^verbatim>\<open>float64\<close> as their IEEE 754 bit patterns (\<^verbatim>\<open>math.Float64bits\<close> is then the
  identity), with the conversions the client performs: \<^verbatim>\<open>float32(f)\<close> rounds to nearest even,
  \<^verbatim>\<open>float64(f)\<close> is exact, an integer is rounded, \<^verbatim>\<open>int64(f)\<close> truncates. Where Go leaves the result to
  the implementation (a float outside the integer's range, the payload of a NaN) the
  amd64 result is written.
\<close>

type_synonym float32 = "32 word"
type_synonym float64 = "64 word"

subsection \<open>Fields\<close>

definition f64_sign :: "float64 \<Rightarrow> nat" where "f64_sign w = unat w div 2 ^ 63"
definition f64_exp :: "float64 \<Rightarrow> nat" where "f64_exp w = unat w div 2 ^ 52 mod 2048"
definition f64_man :: "float64 \<Rightarrow> nat" where "f64_man w = unat w mod 2 ^ 52"
definition f64_make :: "nat \<Rightarrow> nat \<Rightarrow> nat \<Rightarrow> float64" where
  "f64_make s e m = word_of_nat (s * 2 ^ 63 + e * 2 ^ 52 + m)"

definition f32_sign :: "float32 \<Rightarrow> nat" where "f32_sign w = unat w div 2 ^ 31"
definition f32_exp :: "float32 \<Rightarrow> nat" where "f32_exp w = unat w div 2 ^ 23 mod 256"
definition f32_man :: "float32 \<Rightarrow> nat" where "f32_man w = unat w mod 2 ^ 23"

definition f64_nan :: "float64 \<Rightarrow> bool" where
  "f64_nan w \<longleftrightarrow> f64_exp w = 2047 \<and> f64_man w \<noteq> 0"

definition f32_nan :: "float32 \<Rightarrow> bool" where
  "f32_nan w \<longleftrightarrow> f32_exp w = 255 \<and> f32_man w \<noteq> 0"

definition f64_zero :: "float64 \<Rightarrow> bool" where
  "f64_zero w \<longleftrightarrow> f64_exp w = 0 \<and> f64_man w = 0"

text \<open>The comparison \<^verbatim>\<open>==\<close>: a NaN equals nothing, the two zeros are equal.\<close>

definition f64_eq :: "float64 \<Rightarrow> float64 \<Rightarrow> bool" where
  "f64_eq a b \<longleftrightarrow> \<not> f64_nan a \<and> \<not> f64_nan b \<and> (a = b \<or> f64_zero a \<and> f64_zero b)"

subsection \<open>Conversions\<close>

text \<open>Drop \<open>k\<close> low bits, rounding to nearest, ties to even.\<close>

definition round_even :: "nat \<Rightarrow> nat \<Rightarrow> nat" where
  "round_even x k =
     (let q = x div 2 ^ k; r = x mod 2 ^ k
      in if 2 ^ k < 2 * r \<or> (2 ^ k = 2 * r \<and> odd q) then q + 1 else q)"

definition f64_to_f32 :: "float64 \<Rightarrow> float32" where
  "f64_to_f32 w =
     (let s = f64_sign w; e = f64_exp w; m = f64_man w;
          bits =
            (if e = 2047 then (if m = 0 then 255 * 2 ^ 23
                               else 255 * 2 ^ 23 + 2 ^ 22 + m div 2 ^ 29 mod 2 ^ 22)
             else let sig = (if e = 0 then m else 2 ^ 52 + m); ex = (if e = 0 then 1 else e)
                  in if 896 < ex
                     then min (255 * 2 ^ 23) ((ex - 897) * 2 ^ 23 + round_even sig 29)
                     else round_even sig (29 + (897 - ex)))
      in word_of_nat (s * 2 ^ 31 + bits))"

definition f32_to_f64 :: "float32 \<Rightarrow> float64" where
  "f32_to_f64 w =
     (let s = f32_sign w; e = f32_exp w; m = f32_man w
      in if e = 255 then f64_make s 2047 (if m = 0 then 0 else 2 ^ 51 + m mod 2 ^ 22 * 2 ^ 29)
         else if e = 0 then (if m = 0 then f64_make s 0 0
                             else let p = bit_len m - 1 in f64_make s (p + 874) ((m - 2 ^ p) * 2 ^ (52 - p)))
         else f64_make s (e + 896) (m * 2 ^ 29))"

definition int_to_f64 :: "int \<Rightarrow> float64" where
  "int_to_f64 i =
     (if i = 0 then 0
      else let s = (if i < 0 then 1 else 0); n = nat \<bar>i\<bar>; p = bit_len n - 1;
               sig = (if p \<le> 52 then n * 2 ^ (52 - p) else round_even n (p - 52))
           in f64_make s (p + 1022) sig)"

definition f64_to_int64 :: "float64 \<Rightarrow> 64 word" where
  "f64_to_int64 w =
     (let e = f64_exp w; sig = 2 ^ 52 + f64_man w;
          n = (if e \<le> 1075 then sig div 2 ^ (1075 - e) else sig * 2 ^ (e - 1075))
      in if e < 1023 then 0
         else if 1086 \<le> e then 2 ^ 63
         else word_of_int (if f64_sign w = 1 then - int n else int n))"

subsection \<open>Facts\<close>

lemma round_even_exact: "round_even (q * 2 ^ k) k = q"
  by (simp add: round_even_def)

lemma f64_make_fields:
  assumes "s < 2" "e < 2048" "m < 2 ^ 52"
  shows "f64_sign (f64_make s e m) = s" and "f64_exp (f64_make s e m) = e" and "f64_man (f64_make s e m) = m"
proof -
  have "s * 2 ^ 63 \<le> 2 ^ 63" and "e * 2 ^ 52 \<le> 2047 * 2 ^ 52"
    using assms(1,2) by simp_all
  then have "s * 2 ^ 63 + e * 2 ^ 52 + m < 2 ^ 64" using assms(3) by simp
  then have u: "unat (f64_make s e m) = s * 2 ^ 63 + e * 2 ^ 52 + m"
    unfolding f64_make_def by (intro unat_word_of_nat_id) simp
  have em: "e * 2 ^ 52 + m < 2 ^ 63" using assms(2,3) \<open>e * 2 ^ 52 \<le> 2047 * 2 ^ 52\<close> by simp
  have "(s * 2 ^ 63 + (e * 2 ^ 52 + m)) div 2 ^ 63 = s"
    using em by (intro div_nat_eqI) simp_all
  then show "f64_sign (f64_make s e m) = s" by (simp add: f64_sign_def u add.assoc)
  have "(s * 2048 + e) * 2 ^ 52 + m = s * 2 ^ 63 + e * 2 ^ 52 + m" by simp
  moreover have "((s * 2048 + e) * 2 ^ 52 + m) div 2 ^ 52 = s * 2048 + e"
    and "((s * 2048 + e) * 2 ^ 52 + m) mod 2 ^ 52 = m"
    using assms(3) by (rule div_mod_split)+
  ultimately have "unat (f64_make s e m) div 2 ^ 52 = s * 2048 + e" and "unat (f64_make s e m) mod 2 ^ 52 = m"
    unfolding u by metis+
  then show "f64_exp (f64_make s e m) = e" and "f64_man (f64_make s e m) = m"
    using assms(2) unfolding f64_exp_def f64_man_def by simp_all
qed

lemma f64_make_not_nan: "s < 2 \<Longrightarrow> e < 2047 \<Longrightarrow> m < 2 ^ 52 \<Longrightarrow> \<not> f64_nan (f64_make s e m)"
  by (simp add: f64_nan_def f64_make_fields)

lemma f32_fields_bounds: "f32_sign w < 2" "f32_exp w < 256" "f32_man w < 2 ^ 23"
proof -
  have "unat w < 2 ^ 32" using unsigned_less [of w] by simp
  then have "unat w < 2 * 2 ^ 31" by simp
  then show "f32_sign w < 2" unfolding f32_sign_def by (rule less_mult_imp_div_less)
qed (simp_all add: f32_exp_def f32_man_def)

lemma f32_rebuild: "f32_sign w * 2 ^ 31 + (f32_exp w * 2 ^ 23 + f32_man w) = unat w"
proof -
  define u where "u = unat w"
  have 1: "8388608 * (u div 8388608) + u mod 8388608 = u" by (rule mult_div_mod_eq)
  have 2: "256 * (u div 8388608 div 256) + u div 8388608 mod 256 = u div 8388608" by (rule mult_div_mod_eq)
  have 3: "u div 8388608 div 256 = u div 2147483648" by (simp add: div_mult2_eq [symmetric])
  have "(u div 2147483648) * 2147483648 + ((u div 8388608 mod 256) * 8388608 + u mod 8388608) = u"
    using 1 2 unfolding 3 by linarith
  then show ?thesis by (simp add: f32_sign_def f32_exp_def f32_man_def u_def)
qed

text \<open>Widening and narrowing again is the identity, except on the NaN payloads.\<close>

lemma f64_to_f32_f32_to_f64:
  assumes "\<not> f32_nan w"
  shows "f64_to_f32 (f32_to_f64 w) = w"
proof -
  define s e m where "s = f32_sign w" and "e = f32_exp w" and "m = f32_man w"
  have b: "s < 2" "e < 256" "m < 2 ^ 23" using f32_fields_bounds [of w] by (simp_all add: s_def e_def m_def)
  have rb: "word_of_nat (s * 2 ^ 31 + (e * 2 ^ 23 + m)) = w"
    using f32_rebuild [of w] by (simp only: s_def e_def m_def) simp
  consider "e = 255" "m = 0" | "e = 0" "m = 0" | "e = 0" "0 < m" | "0 < e" "e < 255"
    using assms b(2) by (fastforce simp: f32_nan_def e_def m_def)
  then show ?thesis
  proof cases
    case 1
    then have "f32_to_f64 w = f64_make s 2047 0" by (simp add: f32_to_f64_def Let_def s_def e_def m_def)
    then show ?thesis using 1 b rb by (simp add: f64_to_f32_def f64_make_fields)
  next
    case 2
    then have "f32_to_f64 w = f64_make s 0 0" by (simp add: f32_to_f64_def Let_def s_def e_def m_def)
    then show ?thesis using 2 b rb by (simp add: f64_to_f32_def f64_make_fields round_even_def)
  next
    case 3
    define p where "p = bit_len m - 1"
    have p: "2 ^ p \<le> m" "m < 2 ^ Suc p"
      using bit_len_lower [OF 3(2)] bit_len_upper [of m] bit_len.simps [of m] 3 by (simp_all add: p_def)
    have "(2::nat) ^ p < 2 ^ 23" using p b(3) by linarith
    then have p23: "p < 23" by (simp only: power_strict_increasing_iff)
    have e52: "(2::nat) ^ 52 = 2 ^ p * 2 ^ (52 - p)" using p23 by (simp flip: power_add)
    have "(m - 2 ^ p) * 2 ^ (52 - p) < 2 ^ p * 2 ^ (52 - p)" using p by simp
    then have f: "(m - 2 ^ p) * 2 ^ (52 - p) < 2 ^ 52" unfolding e52 .
    have sig: "2 ^ 52 + (m - 2 ^ p) * 2 ^ (52 - p) = m * 2 ^ (52 - p)"
      using p(1) by (simp only: e52 diff_mult_distrib) simp
    have "f32_to_f64 w = f64_make s (p + 874) ((m - 2 ^ p) * 2 ^ (52 - p))"
      using 3 by (simp add: f32_to_f64_def Let_def s_def e_def m_def p_def)
    moreover have "29 + (897 - (p + 874)) = 52 - p" using p23 by simp
    ultimately have "f64_to_f32 (f32_to_f64 w) = word_of_nat (s * 2 ^ 31 + round_even (m * 2 ^ (52 - p)) (52 - p))"
      using b p23 f sig by (simp only: f64_to_f32_def f64_make_fields Let_def) simp
    then show ?thesis using rb 3 by (simp only: round_even_exact) simp
  next
    case 4
    have f: "m * 2 ^ 29 < 2 ^ 52" using b(3) by simp
    have sig: "2 ^ 52 + m * 2 ^ 29 = (2 ^ 23 + m) * 2 ^ 29" by simp
    have "f32_to_f64 w = f64_make s (e + 896) (m * 2 ^ 29)"
      using 4 by (simp add: f32_to_f64_def Let_def s_def e_def m_def)
    then have "f64_to_f32 (f32_to_f64 w) =
      word_of_nat (s * 2 ^ 31 + min (255 * 2 ^ 23) ((e - 1) * 2 ^ 23 + round_even ((2 ^ 23 + m) * 2 ^ 29) 29))"
      using b 4 f sig by (simp only: f64_to_f32_def f64_make_fields Let_def) simp
    moreover have "(e - 1) * 2 ^ 23 + (2 ^ 23 + m) = e * 2 ^ 23 + m" using 4 by (cases e) simp_all
    moreover have "e * 2 ^ 23 + m < 255 * 2 ^ 23"
    proof -
      have "e * 2 ^ 23 \<le> 254 * 2 ^ 23" using 4 by (intro mult_le_mono1) simp
      then show ?thesis using b(3) by simp
    qed
    then have "min (255 * 2 ^ 23) (e * 2 ^ 23 + m) = e * 2 ^ 23 + m" by linarith
    ultimately show ?thesis using rb by (simp only: round_even_exact)
  qed
qed

end
