(* ===== verification/GoTime.thy ===== *)
theory GoTime
  imports GoErrors
begin

text \<open>
  What the client uses of Go's \<^verbatim>\<open>time.Time\<close>: an instant (seconds since 1970 and nanoseconds) with
  the offset of its location, its calendar fields, and the constructors \<^verbatim>\<open>time.Date\<close>,
  \<^verbatim>\<open>time.Unix\<close> and \<^verbatim>\<open>Add\<close>. The calendar is the proleptic Gregorian one; \<open>days_from_civil\<close> and
  \<open>civil_from_days\<close> are inverse to each other.
\<close>

subsection \<open>Instants\<close>

record gotime =
  t_unix :: int
  t_nsec :: int
  t_off :: int

definition wf_time :: "gotime \<Rightarrow> bool" where
  "wf_time t \<longleftrightarrow> 0 \<le> t_nsec t \<and> t_nsec t < 1000000000"

subsection \<open>The calendar\<close>

text \<open>
  Days since 1970-01-01 of a date, with the month already in 1..12 (the day may be any number).
  Years are counted from March, so that the leap day is the last day of a year.
\<close>

definition days_from_civil :: "int \<Rightarrow> int \<Rightarrow> int \<Rightarrow> int" where
  "days_from_civil y m d =
     (let y' = (if m \<le> 2 then y - 1 else y);
          era = y' div 400; yoe = y' mod 400;
          mp = (if 2 < m then m - 3 else m + 9);
          doy = (153 * mp + 2) div 5 + d - 1;
          doe = yoe * 365 + yoe div 4 - yoe div 100 + doy
      in era * 146097 + doe - 719468)"

text \<open>The year of a 400-year cycle by centuries, four-year groups and years, as Go's \<^verbatim>\<open>absDate\<close> does.\<close>

definition civil_from_days :: "int \<Rightarrow> int \<times> int \<times> int" where
  "civil_from_days z0 =
     (let z = z0 + 719468;
          era = z div 146097; doe = z mod 146097;
          c = min 3 (doe div 36524); n = doe - 36524 * c;
          q = n div 1461; n = n - 1461 * q;
          r = min 3 (n div 365); doy = n - 365 * r;
          mp = (5 * doy + 2) div 153;
          d = doy - (153 * mp + 2) div 5 + 1;
          m = (if mp < 10 then mp + 3 else mp - 9);
          y = 100 * c + 4 * q + r + 400 * era
      in (if m \<le> 2 then y + 1 else y, m, d))"

definition leap :: "int \<Rightarrow> bool" where
  "leap y \<longleftrightarrow> (4 dvd y \<and> \<not> 100 dvd y) \<or> 400 dvd y"

definition days_in_month :: "int \<Rightarrow> int \<Rightarrow> int" where
  "days_in_month y m =
     (if m \<in> {4, 6, 9, 11} then 30 else if m = 2 then (if leap y then 29 else 28) else 31)"

definition valid_date :: "int \<Rightarrow> int \<Rightarrow> int \<Rightarrow> bool" where
  "valid_date y m d \<longleftrightarrow> 1 \<le> m \<and> m \<le> 12 \<and> 1 \<le> d \<and> d \<le> days_in_month y m"

text \<open>The position of a date in its March-based year, month by month.\<close>

lemma month_split:
  assumes "0 \<le> mp" "mp \<le> 11" "1 \<le> d" "d \<le> 31"
    and "mp \<in> {1, 3, 6, 8} \<longrightarrow> d \<le> 30" "mp = 11 \<longrightarrow> d \<le> 29"
    and "doy = (153 * mp + 2) div 5 + d - (1::int)"
  shows "(5 * doy + 2) div 153 = mp"
proof -
  define k where "k = (153 * mp + 2) div 5"
  have "mp = 0 \<or> mp = 1 \<or> mp = 2 \<or> mp = 3 \<or> mp = 4 \<or> mp = 5 \<or> mp = 6 \<or> mp = 7 \<or> mp = 8 \<or>
    mp = 9 \<or> mp = 10 \<or> mp = 11" using assms(1,2) by presburger
  then have "5 * k \<le> 153 * mp \<or> d \<le> 30" using assms(4-6) unfolding k_def by (elim disjE) simp_all
  moreover have "5 * k \<le> 153 * mp + 2" and "153 * mp + 2 < 5 * k + 5" unfolding k_def by linarith+
  moreover have "5 * doy + 2 = 5 * k + 5 * d - 3" using assms(7) by (simp add: k_def)
  ultimately have "0 \<le> 5 * doy + 2 - 153 * mp" and "5 * doy + 2 - 153 * mp < 153"
    using assms(3,4) by linarith+
  then show ?thesis by (intro int_div_pos_eq [where r = "5 * doy + 2 - 153 * mp"]) simp_all
qed

text \<open>The year of its 400-year cycle: centuries, four-year groups and years by division.\<close>

lemma cycle_split:
  assumes "0 \<le> c" "c \<le> 3" "0 \<le> q" "q \<le> 24" "0 \<le> r" "r \<le> (3::int)"
    and "0 \<le> doy" "doy \<le> 365" "doy = 365 \<longrightarrow> r = 3 \<and> (q = 24 \<longrightarrow> c = 3)"
    and "doe = 36524 * c + 1461 * q + 365 * r + doy"
  shows "min 3 (doe div 36524) = c" and "(doe - 36524 * c) div 1461 = q"
    and "min 3 ((doe - 36524 * c - 1461 * q) div 365) = r"
proof -
  have n: "1461 * q + 365 * r + doy \<le> 36524" "0 \<le> 1461 * q + 365 * r + doy"
    and lt: "c < 3 \<longrightarrow> 1461 * q + 365 * r + doy < 36524"
    using assms(3-9) by linarith+
  show "min 3 (doe div 36524) = c"
  proof (cases "1461 * q + 365 * r + doy < 36524")
    case True
    then have "doe div 36524 = c"
      using n assms(10) by (intro int_div_pos_eq [where r = "1461 * q + 365 * r + doy"]) simp_all
    then show ?thesis using assms(2) by simp
  next
    case False
    then have "1461 * q + 365 * r + doy = 36524" and "c = 3" using n lt assms(2) by linarith+
    then have "doe = 146096" using assms(10) by linarith
    then show ?thesis using \<open>c = 3\<close> by simp
  qed
  show "(doe - 36524 * c) div 1461 = q"
  proof (rule int_div_pos_eq [where r = "365 * r + doy"])
    show "doe - 36524 * c = 1461 * q + (365 * r + doy)" using assms(10) by simp
    show "0 \<le> 365 * r + doy" and "365 * r + doy < 1461" using assms(5-9) by linarith+
  qed
  show "min 3 ((doe - 36524 * c - 1461 * q) div 365) = r"
  proof (cases "doy = 365")
    case True
    then show ?thesis using assms(9,10) by simp
  next
    case False
    then have "(doe - 36524 * c - 1461 * q) div 365 = r"
      using assms(7,8,10) by (intro int_div_pos_eq [where r = doy]) simp_all
    then show ?thesis using assms(6) by simp
  qed
qed

lemma yoe_split:
  assumes "0 \<le> yoe" "yoe < (400::int)"
  obtains c q r where "yoe = 100 * c + 4 * q + r" "yoe div 100 = c" "yoe div 4 = 25 * c + q"
    "0 \<le> c" "c \<le> 3" "0 \<le> q" "q \<le> 24" "0 \<le> r" "r \<le> 3"
proof -
  define c where "c = yoe div 100"
  define q where "q = (yoe - 100 * c) div 4"
  define r where "r = yoe - 100 * c - 4 * q"
  have c: "0 \<le> yoe - 100 * c" "yoe - 100 * c < 100" unfolding c_def by linarith+
  have q: "0 \<le> r" "r \<le> 3" unfolding r_def q_def by linarith+
  have 1: "yoe = 100 * c + 4 * q + r" by (simp add: r_def)
  have 2: "yoe div 4 = 25 * c + q"
    using q by (intro int_div_pos_eq [where r = r]) (simp_all add: r_def)
  have 3: "0 \<le> c" "c \<le> 3" using assms unfolding c_def by linarith+
  have 4: "0 \<le> q" "q \<le> 24" using c unfolding q_def by linarith+
  show thesis by (rule that [OF 1 c_def [symmetric] 2 3 4 q])
qed

lemma leap_cycle:
  assumes "0 \<le> c" "c \<le> 3" "0 \<le> q" "q \<le> 24" "0 \<le> r" "r \<le> (3::int)"
    and "leap (400 * era + (100 * c + 4 * q + r) + 1)"
  shows "r = 3 \<and> (q = 24 \<longrightarrow> c = 3)"
proof -
  have "4 dvd 400 * era + (100 * c + 4 * q + r) + 1"
    using assms(7) dvd_trans [of 4 400 "400 * era + (100 * c + 4 * q + r) + 1"]
    unfolding leap_def by auto
  moreover have "400 * era + (100 * c + 4 * q + r) + 1 = 4 * (100 * era + 25 * c + q) + (r + 1)" by simp
  ultimately have "4 dvd r + 1" by (metis dvd_add_right_iff dvd_triv_left)
  then have r: "r = 3" using assms(5,6) zdvd_imp_le [of 4 "r + 1"] by linarith
  moreover have "c = 3" if "q = 24"
  proof -
    have "400 * era + (100 * c + 4 * q + r) + 1 = 100 * (4 * era + c + 1)" using r that by simp
    then have "400 dvd 100 * (4 * era + c + 1)" using assms(7) unfolding leap_def by (metis dvd_triv_left)
    then have "4 dvd 4 * era + (c + 1)"
      using dvd_mult_cancel_left [of 100 4 "4 * era + c + 1"] by (simp add: add.assoc)
    then have "4 dvd c + 1" by (metis dvd_add_right_iff dvd_triv_left)
    then show ?thesis using assms(1,2) zdvd_imp_le [of 4 "c + 1"] by linarith
  qed
  ultimately show ?thesis by blast
qed

text \<open>\<^verbatim>\<open>t.Date()\<close> of a date built from a valid year, month and day gives them back.\<close>

lemma civil_from_days_from_civil:
  assumes "valid_date y m d"
  shows "civil_from_days (days_from_civil y m d) = (y, m, d)"
proof -
  define y' where "y' = (if m \<le> 2 then y - 1 else y)"
  define era yoe where "era = y' div 400" and "yoe = y' mod 400"
  define mp where "mp = (if 2 < m then m - 3 else m + 9)"
  define doy where "doy = (153 * mp + 2) div 5 + d - 1"
  obtain c q r where yoe: "yoe = 100 * c + 4 * q + r" "yoe div 100 = c" "yoe div 4 = 25 * c + q"
    and cqr: "0 \<le> c" "c \<le> 3" "0 \<le> q" "q \<le> 24" "0 \<le> r" "r \<le> 3"
    using yoe_split [of yoe] unfolding yoe_def by (metis pos_mod_bound pos_mod_sign zero_less_numeral)
  have y': "y' = 400 * era + yoe" by (simp add: era_def yoe_def)
  have m: "1 \<le> m" "m \<le> 12" "1 \<le> d" "d \<le> 31" "m \<in> {4, 6, 9, 11} \<longrightarrow> d \<le> 30" "m = 2 \<longrightarrow> d \<le> 29"
    "m = 2 \<and> d = 29 \<longrightarrow> leap y"
    using assms by (auto simp: valid_date_def days_in_month_def split: if_splits)
  have mp: "0 \<le> mp" "mp \<le> 11" "mp \<in> {1, 3, 6, 8} \<longrightarrow> d \<le> 30" "mp = 11 \<longrightarrow> d \<le> 29"
    using m by (auto simp: mp_def split: if_splits)
  have ms: "(5 * doy + 2) div 153 = mp"
    using mp m by (intro month_split [OF _ _ _ _ _ _ doy_def]) auto
  have "0 \<le> doy \<and> (if mp = 11 then doy = 336 + d else doy < 365)"
  proof (cases "mp = 11")
    case True
    then show ?thesis using m(3) by (simp add: doy_def)
  next
    case False
    then have "mp \<le> 10" using mp(2) by linarith
    then have "(153 * mp + 2) div 5 \<le> 306" and "0 \<le> (153 * mp + 2) div 5" using mp(1) by linarith+
    with False m(3,4) show ?thesis by (simp add: doy_def)
  qed
  then have doy: "0 \<le> doy" "doy \<le> 365" and "doy = 365 \<longrightarrow> mp = 11 \<and> d = 29"
    using mp(4) by (auto split: if_splits)
  moreover have "m = 2" if "mp = 11" using that m by (auto simp: mp_def split: if_splits)
  moreover have "y = 400 * era + (100 * c + 4 * q + r) + 1" if "m = 2" using that y' yoe(1) by (simp add: y'_def)
  ultimately have lp: "doy = 365 \<longrightarrow> r = 3 \<and> (q = 24 \<longrightarrow> c = 3)" using m(7) leap_cycle [OF cqr] by metis
  define doe where "doe = yoe * 365 + yoe div 4 - yoe div 100 + doy"
  have doe: "doe = 36524 * c + 1461 * q + 365 * r + doy" using yoe unfolding doe_def by linarith
  have doe_r: "0 \<le> doe" "doe < 146097" using doe cqr doy lp by linarith+
  have days: "days_from_civil y m d + 719468 = era * 146097 + doe"
    by (simp add: days_from_civil_def Let_def era_def yoe_def y'_def mp_def doy_def doe_def)
  have z: "(era * 146097 + doe) div 146097 = era" "(era * 146097 + doe) mod 146097 = doe" using doe_r by simp_all
  note cyc = cycle_split [OF cqr doy lp doe]
  have ry: "doe - 36524 * c - 1461 * q - 365 * r = doy" using doe by simp
  have yy: "100 * c + 4 * q + r + 400 * era = y'" using y' yoe by simp
  have mm: "(if mp < 10 then mp + 3 else mp - 9) = m" using m by (simp add: mp_def)
  have dd: "doy - (153 * mp + 2) div 5 + 1 = d" by (simp add: doy_def)
  show ?thesis
    unfolding civil_from_days_def days Let_def z cyc ry ms yy mm dd by (simp add: y'_def)
qed

lemma civil_bounds:
  assumes "civil_from_days z = (y, m, d)"
  shows "days_from_civil y m d = z" and "1 \<le> m" and "m \<le> 12" and "1 \<le> d" and "d \<le> 31"
proof -
  define era doe where "era = (z + 719468) div 146097" and "doe = (z + 719468) mod 146097"
  define c where "c = min 3 (doe div 36524)"
  define n where "n = doe - 36524 * c"
  define q where "q = n div 1461"
  define n' where "n' = n - 1461 * q"
  define r where "r = min 3 (n' div 365)"
  define doy where "doy = n' - 365 * r"
  define mp where "mp = (5 * doy + 2) div 153"
  define y' where "y' = 100 * c + 4 * q + r + 400 * era"
  have doe: "0 \<le> doe" "doe < 146097" by (simp_all add: doe_def)
  have c: "0 \<le> c" "c \<le> 3" "0 \<le> n" "n \<le> 36524"
    using doe unfolding c_def n_def min_def by (auto; linarith)+
  have q: "0 \<le> q" "q \<le> 24" "0 \<le> n'" "n' \<le> 1460" using c unfolding q_def n'_def by linarith+
  have r: "0 \<le> r" "r \<le> 3" "0 \<le> doy" "doy \<le> 365"
    using q unfolding r_def doy_def min_def by (auto; linarith)+
  have mp: "0 \<le> mp" "mp \<le> 11" using r unfolding mp_def by linarith+
  have dd: "0 \<le> doy - (153 * mp + 2) div 5" "doy - (153 * mp + 2) div 5 \<le> 30"
    using r unfolding mp_def by linarith+
  have ymd: "m = (if mp < 10 then mp + 3 else mp - 9)" "d = doy - (153 * mp + 2) div 5 + 1"
    "y = (if m \<le> 2 then y' + 1 else y')"
  proof -
    have "civil_from_days z =
      (if (if mp < 10 then mp + 3 else mp - 9) \<le> 2 then y' + 1 else y',
       if mp < 10 then mp + 3 else mp - 9, doy - (153 * mp + 2) div 5 + 1)"
      unfolding civil_from_days_def Let_def era_def [symmetric] doe_def [symmetric] c_def [symmetric]
        n_def [symmetric] q_def [symmetric] n'_def [symmetric] r_def [symmetric] doy_def [symmetric]
        mp_def [symmetric] y'_def [symmetric] by (rule refl)
    then have e: "(y, m, d) =
      (if (if mp < 10 then mp + 3 else mp - 9) \<le> 2 then y' + 1 else y',
       if mp < 10 then mp + 3 else mp - 9, doy - (153 * mp + 2) div 5 + 1)"
      unfolding assms .
    then show m: "m = (if mp < 10 then mp + 3 else mp - 9)" and "d = doy - (153 * mp + 2) div 5 + 1"
      by (simp_all only: prod.inject)
    from e show "y = (if m \<le> 2 then y' + 1 else y')" unfolding m by (simp only: prod.inject)
  qed
  show "1 \<le> m" "m \<le> 12" "1 \<le> d" "d \<le> 31" using ymd(1,2) mp dd by auto
  have y'd: "y' div 400 = era" "y' mod 400 = 100 * c + 4 * q + r"
    using c q r by (simp_all add: y'_def)
  have yd: "(100 * c + 4 * q + r) div 4 = 25 * c + q"
    using c q r by (intro int_div_pos_eq [where r = r]) simp_all
  have yc: "(100 * c + 4 * q + r) div 100 = c"
    using c q r by (intro int_div_pos_eq [where r = "4 * q + r"]) simp_all
  have mpm: "(if 2 < m then m - 3 else m + 9) = mp" using ymd(1) mp by auto
  have yy: "(if m \<le> 2 then y - 1 else y) = y'" using ymd(3) by simp
  have "doe = 36524 * c + 1461 * q + 365 * r + doy" by (simp add: doy_def n'_def n_def)
  moreover have "z + 719468 = era * 146097 + doe" by (simp add: era_def doe_def)
  ultimately have "era * 146097 + ((100 * c + 4 * q + r) * 365 + (25 * c + q) - c + (k + (doy - k + 1) - 1)) - 719468 = z"
    for k by (simp add: algebra_simps)
  then show "days_from_civil y m d = z"
    unfolding days_from_civil_def Let_def yy y'd yd yc mpm ymd(2) .
qed

subsection \<open>Calendar and clock fields\<close>

definition time_local :: "gotime \<Rightarrow> int" where
  "time_local t = t_unix t + t_off t"

definition time_ymd :: "gotime \<Rightarrow> int \<times> int \<times> int" where
  "time_ymd t = civil_from_days (time_local t div 86400)"

definition time_Year :: "gotime \<Rightarrow> int" where "time_Year t = fst (time_ymd t)"
definition time_Month :: "gotime \<Rightarrow> int" where "time_Month t = fst (snd (time_ymd t))"
definition time_Day :: "gotime \<Rightarrow> int" where "time_Day t = snd (snd (time_ymd t))"
definition time_Hour :: "gotime \<Rightarrow> int" where "time_Hour t = time_local t mod 86400 div 3600"
definition time_Minute :: "gotime \<Rightarrow> int" where "time_Minute t = time_local t mod 3600 div 60"
definition time_Second :: "gotime \<Rightarrow> int" where "time_Second t = time_local t mod 60"

text \<open>
  \<^verbatim>\<open>time.Date(..., time.UTC)\<close>: out-of-range months carry into the year, every other field carries
  linearly.
\<close>

definition time_Date :: "int \<Rightarrow> int \<Rightarrow> int \<Rightarrow> int \<Rightarrow> int \<Rightarrow> int \<Rightarrow> int \<Rightarrow> gotime" where
  "time_Date y mo d h mi s ns =
     (let days = days_from_civil (y + (mo - 1) div 12) ((mo - 1) mod 12 + 1) d
      in \<lparr>t_unix = days * 86400 + h * 3600 + mi * 60 + s + ns div 1000000000,
          t_nsec = ns mod 1000000000, t_off = 0\<rparr>)"

text \<open>\<^verbatim>\<open>time.Unix\<close>; \<open>loc\<close> is the offset of the local zone at an instant.\<close>

definition time_Unix :: "(int \<Rightarrow> int) \<Rightarrow> int \<Rightarrow> int \<Rightarrow> gotime" where
  "time_Unix loc sec ns =
     (let u = sec + ns div 1000000000 in \<lparr>t_unix = u, t_nsec = ns mod 1000000000, t_off = loc u\<rparr>)"

definition time_UTC :: "gotime \<Rightarrow> gotime" where
  "time_UTC t = t\<lparr>t_off := 0\<rparr>"

text \<open>\<^verbatim>\<open>t.Add(d)\<close> for a duration in nanoseconds; the zero time is year 1 in UTC.\<close>

definition time_Add :: "gotime \<Rightarrow> int \<Rightarrow> gotime" where
  "time_Add t d = t\<lparr>t_unix := t_unix t + (t_nsec t + d) div 1000000000,
                     t_nsec := (t_nsec t + d) mod 1000000000\<rparr>"

definition zero_time :: gotime where
  "zero_time = \<lparr>t_unix = -62135596800, t_nsec = 0, t_off = 0\<rparr>"

lemma time_Date_fields:
  assumes "valid_date y mo d" and "0 \<le> h" "h \<le> 23" "0 \<le> mi" "mi \<le> 59" "0 \<le> s" "s \<le> 59"
    and "0 \<le> ns" "ns \<le> 999999999"
  shows "time_ymd (time_Date y mo d h mi s ns) = (y, mo, d)"
    and "time_Hour (time_Date y mo d h mi s ns) = h"
    and "time_Minute (time_Date y mo d h mi s ns) = mi"
    and "time_Second (time_Date y mo d h mi s ns) = s"
    and "t_nsec (time_Date y mo d h mi s ns) = ns"
proof -
  define D where "D = days_from_civil y mo d"
  have mo: "(mo - 1) div 12 = 0" "(mo - 1) mod 12 + 1 = mo"
    using assms(1) by (auto simp: valid_date_def div_pos_pos_trivial mod_pos_pos_trivial)
  have ns: "ns div 1000000000 = 0" "ns mod 1000000000 = ns"
    using assms(8,9) by (simp_all add: div_pos_pos_trivial mod_pos_pos_trivial)
  have l: "time_local (time_Date y mo d h mi s ns) = D * 86400 + (h * 3600 + mi * 60 + s)"
    by (simp add: time_local_def time_Date_def Let_def mo ns D_def)
  have "(D * 86400 + (h * 3600 + mi * 60 + s)) div 86400 = D"
    using assms(2-7) by (intro int_div_pos_eq [where r = "h * 3600 + mi * 60 + s"]) linarith+
  then show "time_ymd (time_Date y mo d h mi s ns) = (y, mo, d)"
    by (simp only: time_ymd_def l) (simp add: D_def civil_from_days_from_civil [OF assms(1)])
  have "(D * 86400 + (h * 3600 + mi * 60 + s)) mod 86400 = h * 3600 + mi * 60 + s"
    using assms(2-7) by (intro int_mod_pos_eq [where q = D]) linarith+
  moreover have "(h * 3600 + mi * 60 + s) div 3600 = h"
    using assms(2-7) by (intro int_div_pos_eq [where r = "mi * 60 + s"]) linarith+
  ultimately show "time_Hour (time_Date y mo d h mi s ns) = h" by (simp only: time_Hour_def l)
  have "(D * 86400 + (h * 3600 + mi * 60 + s)) mod 3600 = mi * 60 + s"
    using assms(2-7) by (intro int_mod_pos_eq [where q = "D * 24 + h"]) (simp_all add: algebra_simps)
  moreover have "(mi * 60 + s) div 60 = mi"
    using assms(2-7) by (intro int_div_pos_eq [where r = s]) linarith+
  ultimately show "time_Minute (time_Date y mo d h mi s ns) = mi" by (simp only: time_Minute_def l)
  have "(D * 86400 + (h * 3600 + mi * 60 + s)) mod 60 = s"
    using assms(2-7) by (intro int_mod_pos_eq [where q = "D * 1440 + h * 60 + mi"]) (simp_all add: algebra_simps)
  then show "time_Second (time_Date y mo d h mi s ns) = s" by (simp only: time_Second_def l)
  show "t_nsec (time_Date y mo d h mi s ns) = ns" by (simp add: time_Date_def Let_def ns)
qed

text \<open>The fields of an instant are in range.\<close>

lemma time_field_bounds:
  shows "1 \<le> time_Month t" and "time_Month t \<le> 12" and "1 \<le> time_Day t" and "time_Day t \<le> 31"
    and "0 \<le> time_Hour t" and "time_Hour t \<le> 23" and "0 \<le> time_Minute t" and "time_Minute t \<le> 59"
    and "0 \<le> time_Second t" and "time_Second t \<le> 59"
proof -
  obtain y m d where c: "civil_from_days (time_local t div 86400) = (y, m, d)"
    by (cases "civil_from_days (time_local t div 86400)") auto
  note b = civil_bounds [OF c]
  show "1 \<le> time_Month t" "time_Month t \<le> 12" "1 \<le> time_Day t" "time_Day t \<le> 31"
    using b by (simp_all add: time_Month_def time_Day_def time_ymd_def c)
  show "0 \<le> time_Hour t" "time_Hour t \<le> 23" "0 \<le> time_Minute t" "time_Minute t \<le> 59"
    "0 \<le> time_Second t" "time_Second t \<le> 59"
    unfolding time_Hour_def time_Minute_def time_Second_def by linarith+
qed

text \<open>The clock fields determine the time of day, and date and clock the instant.\<close>

lemma time_rebuild:
  assumes "wf_time t" and "t_off t = 0"
  shows "time_Date (time_Year t) (time_Month t) (time_Day t)
           (time_Hour t) (time_Minute t) (time_Second t) (t_nsec t) = t"
proof -
  define u where "u = t_unix t"
  obtain y m d where c: "civil_from_days (u div 86400) = (y, m, d)"
    by (cases "civil_from_days (u div 86400)") auto
  note b = civil_bounds [OF c]
  have l: "time_local t = u" using assms(2) by (simp add: time_local_def u_def)
  have f: "time_Year t = y" "time_Month t = m" "time_Day t = d"
    by (simp_all add: time_Year_def time_Month_def time_Day_def time_ymd_def l c)
  have mo: "(m - 1) div 12 = 0" "(m - 1) mod 12 + 1 = m"
    using b(2,3) by (auto simp: div_pos_pos_trivial mod_pos_pos_trivial)
  have "u div 86400 * 86400 + u mod 86400 div 3600 * 3600 + u mod 3600 div 60 * 60 + u mod 60 = u"
  proof -
    have "u mod 86400 mod 3600 = u mod 3600" and "u mod 3600 mod 60 = u mod 60"
      by (simp_all add: mod_mod_cancel)
    moreover have "u mod 86400 div 3600 * 3600 + u mod 86400 mod 3600 = u mod 86400"
      and "u mod 3600 div 60 * 60 + u mod 3600 mod 60 = u mod 3600"
      and "u div 86400 * 86400 + u mod 86400 = u" by (rule div_mult_mod_eq)+
    ultimately show ?thesis by linarith
  qed
  then show ?thesis
    using assms b(1)
    by (simp add: time_Date_def Let_def f mo time_Hour_def time_Minute_def time_Second_def l wf_time_def
        div_pos_pos_trivial mod_pos_pos_trivial u_def)
qed

end
