(* ===== verification/Values.thy ===== *)
theory Values
  imports GoFloat GoTime
begin

text \<open>
  The values that cross the client's interfaces: the protocol's type ids and binary tuple element
  kinds, UUIDs and decimals (types.go), and a Go \<^verbatim>\<open>interface{}\<close> as the datatype \<open>goval\<close> with one
  constructor per dynamic type the client's type switches name. The record \<open>host\<close> collects the
  text conversions of Go's standard library that the model takes as given functions.
\<close>

subsection \<open>Type ids and element kinds\<close>

text \<open>The \<^verbatim>\<open>type<X>\<close> constants of types.go.\<close>

abbreviation (input) typeNULL :: int where "typeNULL \<equiv> 0"
abbreviation (input) typeBOOLEAN :: int where "typeBOOLEAN \<equiv> 1"
abbreviation (input) typeTINYINT :: int where "typeTINYINT \<equiv> 2"
abbreviation (input) typeSMALLINT :: int where "typeSMALLINT \<equiv> 3"
abbreviation (input) typeINT :: int where "typeINT \<equiv> 4"
abbreviation (input) typeBIGINT :: int where "typeBIGINT \<equiv> 5"
abbreviation (input) typeREAL :: int where "typeREAL \<equiv> 6"
abbreviation (input) typeDOUBLE :: int where "typeDOUBLE \<equiv> 7"
abbreviation (input) typeDECIMAL :: int where "typeDECIMAL \<equiv> 8"
abbreviation (input) typeDATE :: int where "typeDATE \<equiv> 9"
abbreviation (input) typeTIME :: int where "typeTIME \<equiv> 10"
abbreviation (input) typeDATETIME :: int where "typeDATETIME \<equiv> 11"
abbreviation (input) typeTIMESTAMP :: int where "typeTIMESTAMP \<equiv> 12"
abbreviation (input) typeUUID :: int where "typeUUID \<equiv> 13"
abbreviation (input) typeVARCHAR :: int where "typeVARCHAR \<equiv> 15"
abbreviation (input) typeVARBINARY :: int where "typeVARBINARY \<equiv> 16"

text \<open>The \<^verbatim>\<open>Bt*\<close> constants; \<open>BtOther n\<close> is any other number.\<close>

datatype bt_kind =
  BtNull | BtBoolean | BtInt8 | BtInt16 | BtInt32 | BtInt64 | BtFloat | BtDouble | BtDecimal
| BtDate | BtTime | BtDateTime | BtTimestamp | BtUuid | BtString | BtBytes | BtOther int

fun bt_kind_number :: "bt_kind \<Rightarrow> int" where
  "bt_kind_number BtNull = 0"
| "bt_kind_number BtBoolean = 1"
| "bt_kind_number BtInt8 = 2"
| "bt_kind_number BtInt16 = 3"
| "bt_kind_number BtInt32 = 4"
| "bt_kind_number BtInt64 = 5"
| "bt_kind_number BtFloat = 6"
| "bt_kind_number BtDouble = 7"
| "bt_kind_number BtDecimal = 8"
| "bt_kind_number BtDate = 9"
| "bt_kind_number BtTime = 10"
| "bt_kind_number BtDateTime = 11"
| "bt_kind_number BtTimestamp = 12"
| "bt_kind_number BtUuid = 13"
| "bt_kind_number BtString = 14"
| "bt_kind_number BtBytes = 15"
| "bt_kind_number (BtOther n) = n"

subsection \<open>UUIDs\<close>

text \<open>A \<^verbatim>\<open>uuid.UUID\<close> is an array of 16 bytes.\<close>

type_synonym uuid = "byte list"

definition wf_uuid :: "uuid \<Rightarrow> bool" where
  "wf_uuid u \<longleftrightarrow> length u = 16"

definition swap :: "'a list \<Rightarrow> nat \<Rightarrow> nat \<Rightarrow> 'a list" where
  "swap xs i j = xs[i := xs ! j, j := xs ! i]"

text \<open>\<^verbatim>\<open>Flip\<close>: the two loops that swap the bytes of each eight-byte half, counting down.\<close>

definition uuid_Flip :: "uuid \<Rightarrow> uuid" where
  "uuid_Flip u =
     (let u = foldl (\<lambda>u i. swap u i (7 - i)) u [3, 2, 1, 0]
      in foldl (\<lambda>u i. swap u (i + 8) (15 - i)) u [3, 2, 1, 0])"

text \<open>
  \<^verbatim>\<open>MarshalMsgpack\<close> flips its receiver and writes the 16 bytes; it returns the receiver's new value
  and the bytes. \<^verbatim>\<open>UnmarshalMsgpack\<close> reads 16 bytes (an error if there are fewer) and flips them.
\<close>

definition uuid_MarshalMsgpack :: "uuid \<Rightarrow> uuid \<times> byte list" where
  "uuid_MarshalMsgpack u = (uuid_Flip u, uuid_Flip u)"

definition EOF :: gerror where "EOF = GoError ''EOF''"
definition ErrUnexpectedEOF :: gerror where "ErrUnexpectedEOF = GoError ''unexpected EOF''"

text \<open>\<^verbatim>\<open>io.ReadFull\<close> of \<open>n\<close> bytes.\<close>

definition read_full :: "nat \<Rightarrow> byte list \<Rightarrow> (byte list \<times> byte list) res" where
  "read_full n r =
     (if n \<le> length r then Ok (take n r, drop n r)
      else if r = [] then Err EOF else Err ErrUnexpectedEOF)"

definition uuid_UnmarshalMsgpack :: "byte list \<Rightarrow> uuid res" where
  "uuid_UnmarshalMsgpack b =
     rbind (read_full 8 b) (\<lambda>(lo, r). rbind (read_full 8 r) (\<lambda>(hi, r). Ok (uuid_Flip (lo @ hi))))"

lemma list16:
  assumes "length u = 16"
  obtains a0 a1 a2 a3 a4 a5 a6 a7 a8 a9 a10 a11 a12 a13 a14 a15
  where "u = [a0, a1, a2, a3, a4, a5, a6, a7, a8, a9, a10, a11, a12, a13, a14, a15]"
  using assms by (auto simp: numeral_eq_Suc length_Suc_conv)

lemma uuid_Flip_halves: "wf_uuid u \<Longrightarrow> uuid_Flip u = rev (take 8 u) @ rev (drop 8 u)"
  unfolding wf_uuid_def by (erule list16) (simp add: uuid_Flip_def swap_def Let_def)

lemma wf_uuid_Flip [simp]: "wf_uuid (uuid_Flip u) = wf_uuid u"
  by (simp add: wf_uuid_def uuid_Flip_def swap_def Let_def)

lemma uuid_Flip_Flip: "wf_uuid u \<Longrightarrow> uuid_Flip (uuid_Flip u) = u"
  unfolding wf_uuid_def by (erule list16) (simp add: uuid_Flip_def swap_def Let_def)

subsection \<open>Decimals and dynamic values\<close>

record decimal =
  Unscaled :: "int option"
  Scale :: int

datatype goval =
  VNil
| VBool bool
| VInt "64 word" | VInt8 "8 word" | VInt16 "16 word" | VInt32 "32 word" | VInt64 "64 word"
| VUint8 "8 word" | VUint16 "16 word" | VUint32 "32 word" | VUint64 "64 word"
| VFloat32 float32 | VFloat64 float64
| VString string | VBytes "byte list"
| VDecimal decimal | VDecimalPtr "decimal option"
| VStdTime gotime | VTimestamp gotime | VDateTime gotime | VDate gotime | VTime gotime
| VUuid uuid | VUuidPtr "uuid option"
| VOther string

text \<open>The text of the verb \%T; \<open>VOther\<close> carries the name of its type.\<close>

fun type_text :: "goval \<Rightarrow> string" where
  "type_text VNil = ''<nil>''"
| "type_text (VBool _) = ''bool''"
| "type_text (VInt _) = ''int''"
| "type_text (VInt8 _) = ''int8''"
| "type_text (VInt16 _) = ''int16''"
| "type_text (VInt32 _) = ''int32''"
| "type_text (VInt64 _) = ''int64''"
| "type_text (VUint8 _) = ''uint8''"
| "type_text (VUint16 _) = ''uint16''"
| "type_text (VUint32 _) = ''uint32''"
| "type_text (VUint64 _) = ''uint64''"
| "type_text (VFloat32 _) = ''float32''"
| "type_text (VFloat64 _) = ''float64''"
| "type_text (VString _) = ''string''"
| "type_text (VBytes _) = ''[]uint8''"
| "type_text (VDecimal _) = ''ignite3.Decimal''"
| "type_text (VDecimalPtr _) = ''*ignite3.Decimal''"
| "type_text (VStdTime _) = ''time.Time''"
| "type_text (VTimestamp _) = ''ignite3.Timestamp''"
| "type_text (VDateTime _) = ''ignite3.DateTime''"
| "type_text (VDate _) = ''ignite3.Date''"
| "type_text (VTime _) = ''ignite3.Time''"
| "type_text (VUuid _) = ''ignite3.Uuid''"
| "type_text (VUuidPtr _) = ''*ignite3.Uuid''"
| "type_text (VOther t) = t"

subsection \<open>Given functions\<close>

text \<open>
  \<open>sprint_v\<close> is \<^verbatim>\<open>fmt.Sprintf("%v", v)\<close>, \<open>format_float\<close> is
  \<^verbatim>\<open>strconv.FormatFloat(v, 'f', -1, 64)\<close>, \<open>rat_set_string\<close> is \<^verbatim>\<open>(*big.Rat).SetString\<close> (numerator and
  denominator), \<open>time_parse\<close> is \<^verbatim>\<open>time.Parse(layout, value)\<close>, \<open>to_upper\<close> and \<open>to_lower\<close> are those of
  \<^verbatim>\<open>strings\<close>, \<open>local_offset\<close> is the local zone's offset at an instant, \<open>equal_fold\<close> is \<^verbatim>\<open>strings.EqualFold\<close>,
  \<open>time_text\<close> is \<^verbatim>\<open>time.Time.String\<close>.
\<close>

record host =
  sprint_v :: "goval \<Rightarrow> string"
  format_float :: "float64 \<Rightarrow> string"
  rat_set_string :: "string \<Rightarrow> (int \<times> int) option"
  time_parse :: "string \<Rightarrow> string \<Rightarrow> gotime option"
  to_upper :: "string \<Rightarrow> string"
  to_lower :: "string \<Rightarrow> string"
  local_offset :: "int \<Rightarrow> int"
  equal_fold :: "string \<Rightarrow> string \<Rightarrow> bool"
  time_text :: "gotime \<Rightarrow> string"

text \<open>A concrete instance, used by the examples; it folds the case of ASCII letters.\<close>

definition fold_char :: "char \<Rightarrow> char" where
  "fold_char c = (let n = of_char c :: nat in if 65 \<le> n \<and> n \<le> 90 then char_of (n + 32) else c)"

definition ascii_fold :: "string \<Rightarrow> string \<Rightarrow> bool" where
  "ascii_fold s t \<longleftrightarrow> map fold_char s = map fold_char t"

lemma ascii_fold_refl [simp]: "ascii_fold s s"
  by (simp add: ascii_fold_def)

definition exact_host :: host where
  "exact_host = \<lparr>sprint_v = \<lambda>_. [], format_float = \<lambda>_. [], rat_set_string = \<lambda>_. None, time_parse = \<lambda>_ _. None,
                 to_upper = id, to_lower = id, local_offset = \<lambda>_. 0, equal_fold = ascii_fold, time_text = \<lambda>_. []\<rparr>"

subsection \<open>Properties\<close>

text \<open>A UUID marshalled to MessagePack and unmarshalled again is the same UUID, and on the wire
  each of its two halves is reversed.\<close>

theorem uuid_msgpack_roundtrip:
  assumes "wf_uuid u"
  shows "uuid_UnmarshalMsgpack (snd (uuid_MarshalMsgpack u)) = Ok u \<and>
    snd (uuid_MarshalMsgpack u) = rev (take 8 u) @ rev (drop 8 u)"
proof -
  have "length (uuid_Flip u) = 16" using assms wf_uuid_Flip [of u] by (simp add: wf_uuid_def)
  then show ?thesis using assms
    by (simp add: uuid_UnmarshalMsgpack_def uuid_MarshalMsgpack_def read_full_def uuid_Flip_Flip
        flip: uuid_Flip_halves)
qed

theorem uuid_msgpack_roundtrip_witness:
  "uuid_UnmarshalMsgpack (snd (uuid_MarshalMsgpack (map word_of_nat [0..<16]))) = Ok (map word_of_nat [0..<16]) \<and>
   snd (uuid_MarshalMsgpack (map word_of_nat [0..<16])) =
     rev (take 8 (map word_of_nat [0..<16])) @ rev (drop 8 (map word_of_nat [0..<16]))"
  by (rule uuid_msgpack_roundtrip) (simp add: wf_uuid_def)

end
