(* ===== verification/IntCodec.thy ===== *)
theory IntCodec
  imports DecimalBytes Values
begin

text \<open>
  Integers in binary tuples: the writers \<^verbatim>\<open>putBinaryTupleInt\<close> (binary-tuple.go) and \<^verbatim>\<open>encodeIntLe\<close>
  (tuple.go), little-endian at a width that fits, and the reader
  \<^verbatim>\<open>decodeBigEndianTwosComplement\<close>, which gets the bytes already reversed. The value of a
  little-endian element is \<open>signed_be\<close> of its reversal.
\<close>

subsection \<open>The writers\<close>

definition int_in :: "nat \<Rightarrow> int \<Rightarrow> bool" where
  "int_in bits i \<longleftrightarrow> - (2 ^ (bits - 1)) \<le> i \<and> i \<le> 2 ^ (bits - 1) - 1"

definition encodeIntLe :: "64 word \<Rightarrow> byte list" where
  "encodeIntLe v =
     (if int_in 8 (sint v) then [ucast v]
      else if int_in 16 (sint v) then [ucast v, ucast (signed_drop_bit 8 v)]
      else if int_in 32 (sint v)
      then [ucast v, ucast (signed_drop_bit 8 v), ucast (signed_drop_bit 16 v), ucast (signed_drop_bit 24 v)]
      else [ucast v, ucast (signed_drop_bit 8 v), ucast (signed_drop_bit 16 v), ucast (signed_drop_bit 24 v),
            ucast (signed_drop_bit 32 v), ucast (signed_drop_bit 40 v), ucast (signed_drop_bit 48 v),
            ucast (signed_drop_bit 56 v)])"

definition putBinaryTupleInt :: "byte list \<Rightarrow> bt_kind \<Rightarrow> 64 word \<Rightarrow> byte list res" where
  "putBinaryTupleInt buf kind n =
     (let i8 = [ucast n :: byte];
          i16 = word_le (ucast n :: 16 word);
          i32 = word_le (ucast n :: 32 word);
          i64 = word_le n
      in case kind of
           BtInt8 \<Rightarrow>
             if \<not> int_in 8 (sint n) then Err (Errorf (int_text (sint n) @ '' does not fit into TINYINT''))
             else Ok (buf @ i8)
         | BtInt16 \<Rightarrow>
             if int_in 8 (sint n) then Ok (buf @ i8)
             else if \<not> int_in 16 (sint n) then Err (Errorf (int_text (sint n) @ '' does not fit into SMALLINT''))
             else Ok (buf @ i16)
         | BtInt32 \<Rightarrow>
             if int_in 8 (sint n) then Ok (buf @ i8)
             else if int_in 16 (sint n) then Ok (buf @ i16)
             else if \<not> int_in 32 (sint n) then Err (Errorf (int_text (sint n) @ '' does not fit into INT''))
             else Ok (buf @ i32)
         | BtInt64 \<Rightarrow>
             if int_in 16 (sint n) then Ok (buf @ i16)
             else if int_in 32 (sint n) then Ok (buf @ i32)
             else Ok (buf @ i64)
         | _ \<Rightarrow> Err (Errorf (''unsupported integer kind: '' @ int_text (bt_kind_number kind))))"

subsection \<open>The reader\<close>

definition decodeBigEndianTwosComplement :: "byte list \<Rightarrow> (64 word) res" where
  "decodeBigEndianTwosComplement raw =
     (if length raw = 0 then Ok 0
      else if 8 < length raw then Err (Errorf (''invalid integer length: '' @ int_text (int (length raw))))
      else let v = foldl (\<lambda>v b. push_bit 8 v OR ucast b) (0 :: 64 word) raw;
               v = (if raw ! 0 AND 0x80 \<noteq> 0 then v - push_bit (8 * length raw) 1 else v)
           in Ok v)"

subsection \<open>Values of little-endian elements\<close>

definition signed_le :: "byte list \<Rightarrow> int" where
  "signed_le bs = signed_be (rev bs)"

lemma fits_int_in: "0 < n \<Longrightarrow> fits n i \<longleftrightarrow> int_in (8 * n) i"
proof -
  assume "0 < n"
  then have "8 * n - 1 = 7 + 8 * (n - 1)" by simp
  then have "(2::int) ^ (8 * n - 1) = 128 * 256 ^ (n - 1)" by (simp add: power_add power_mult)
  then show ?thesis unfolding fits_def int_in_def by linarith
qed

lemma fits_mod_inj:
  assumes "0 < n" "fits n a" "fits n b" "a mod 256 ^ n = b mod 256 ^ n"
  shows "a = b"
proof -
  define P :: int where "P = 256 ^ (n - 1)"
  have N: "(256::int) ^ n = 256 * P" using assms(1) by (cases n) (auto simp: P_def)
  have "(a + 128 * P) mod (256 * P) = (b + 128 * P) mod (256 * P)"
    using assms(4) unfolding N by (rule mod_add_cong) simp
  moreover have "0 \<le> a + 128 * P" "a + 128 * P < 256 * P" "0 \<le> b + 128 * P" "b + 128 * P < 256 * P"
    using assms(2,3) unfolding fits_def P_def [symmetric] by linarith+
  ultimately show ?thesis by simp
qed

lemma signed_le_le_bytes:
  assumes "0 < n" "fits n i" "int v mod 256 ^ n = i mod 256 ^ n"
  shows "signed_le (le_bytes n v) = i"
proof (rule fits_mod_inj [OF assms(1) _ assms(2)])
  have ne: "rev (le_bytes n v) \<noteq> []" using assms(1) by (metis length_le_bytes length_rev list.size(3) less_irrefl)
  show "fits n (signed_le (le_bytes n v))" using signed_be_fits [OF ne] by (simp add: signed_le_def)
  have "signed_le (le_bytes n v) mod 256 ^ n = int (le_nat (le_bytes n v))"
    using signed_be_mod [of "rev (le_bytes n v)"] by (simp add: signed_le_def be_nat_def)
  then show "signed_le (le_bytes n v) mod 256 ^ n = i mod 256 ^ n"
    using assms(3) by (simp add: le_nat_le_bytes zmod_int)
qed

lemma signed_le_sint:
  assumes "0 < n" "n \<le> 8" "fits n (sint (v :: 64 word))"
  shows "signed_le (le_bytes n (unat v)) = sint v"
proof (rule signed_le_le_bytes [OF assms(1,3)])
  have "int (unat v) = sint v mod 2 ^ 64" by (simp add: uint_sint take_bit_eq_mod)
  moreover have "(256::int) ^ n dvd 2 ^ 64"
    using assms(2) le_imp_power_dvd [of "8 * n" 64 "2::int"] by (simp add: power_mult)
  ultimately show "int (unat v) mod 256 ^ n = sint v mod 256 ^ n" by (simp only: mod_mod_cancel)
qed

lemma int_in_mono: "m \<le> n \<Longrightarrow> int_in m i \<Longrightarrow> int_in n i"
proof -
  assume "m \<le> n" "int_in m i"
  moreover from this(1) have "(2::int) ^ (m - 1) \<le> 2 ^ (n - 1)" by (intro power_increasing) auto
  ultimately show ?thesis unfolding int_in_def by linarith
qed

lemma int_in_sint64: "int_in 64 (sint (v :: 64 word))"
  using sint_range_size [of v] by (simp add: int_in_def size_word.rep_eq)

subsection \<open>The bytes of each writer\<close>

lemma unat_256_mod: "(n::nat) mod 256 ^ k = n mod 2 ^ (8 * k)"
  by (simp add: power_mult)

lemma le_bytes_mod: "le_bytes n (v mod 256 ^ n) = le_bytes n v"
proof -
  have "le_nat (le_bytes n (v mod 256 ^ n)) = le_nat (le_bytes n v)" by (simp add: le_nat_le_bytes)
  then show ?thesis using le_bytes_le_nat_len by (metis length_le_bytes)
qed

lemma word_le_ucast:
  assumes "LENGTH('a::len) \<le> LENGTH('b::len)" and "8 dvd LENGTH('a)"
  shows "word_le (ucast (n :: 'b word) :: 'a word) = le_bytes (LENGTH('a) div 8) (unat n)"
proof -
  have "unat (ucast n :: 'a word) = unat n mod 256 ^ (LENGTH('a) div 8)"
    using assms(2) by (simp add: unat_256_mod unsigned_ucast_eq take_bit_eq_mod)
  then show ?thesis by (simp add: word_le_def le_bytes_mod)
qed

lemma ucast_byte: "[ucast (n :: 64 word) :: byte] = le_bytes 1 (unat n)"
  by (simp add: word_unat_eq_iff unsigned_ucast_eq take_bit_eq_mod)

lemma byte_of_shift:
  assumes "m \<le> 56"
  shows "(ucast (signed_drop_bit m (v :: 64 word)) :: byte) = word_of_nat (unat v div 2 ^ m)"
proof -
  have "(ucast (signed_drop_bit m v) :: byte) = ucast (drop_bit m v)"
    by (rule bit_word_eqI) (use assms in \<open>auto simp: bit_simps\<close>)
  also have "\<dots> = word_of_nat (unat (drop_bit m v))"
    by (simp add: word_unat_eq_iff unsigned_ucast_eq take_bit_eq_mod)
  also have "unat (drop_bit m v) = unat v div 2 ^ m"
    unfolding unat_drop_bit_eq by (rule drop_bit_eq_div)
  finally show ?thesis .
qed

text \<open>The width the SQL path picks: 1, 2, 4 or 8 bytes, the first that fits.\<close>

definition int_width :: "int \<Rightarrow> nat" where
  "int_width i = (if int_in 8 i then 1 else if int_in 16 i then 2 else if int_in 32 i then 4 else 8)"

lemma encodeIntLe_bytes: "encodeIntLe v = le_bytes (int_width (sint v)) (unat v)"
proof -
  have "(ucast v :: byte) = word_of_nat (unat v)" using byte_of_shift [of 0 v] by simp
  then show ?thesis
    by (simp add: encodeIntLe_def int_width_def byte_of_shift le_bytes_widths del: One_nat_def)
qed

text \<open>The widths the key-value path picks; \<open>None\<close> when the kind cannot hold the number.\<close>

fun bt_width :: "bt_kind \<Rightarrow> int \<Rightarrow> nat option" where
  "bt_width BtInt8 i = (if int_in 8 i then Some 1 else None)"
| "bt_width BtInt16 i = (if int_in 8 i then Some 1 else if int_in 16 i then Some 2 else None)"
| "bt_width BtInt32 i =
     (if int_in 8 i then Some 1 else if int_in 16 i then Some 2 else if int_in 32 i then Some 4 else None)"
| "bt_width BtInt64 i = (if int_in 16 i then Some 2 else if int_in 32 i then Some 4 else Some 8)"
| "bt_width _ i = None"

lemma putBinaryTupleInt_bytes:
  assumes "kind \<in> {BtInt8, BtInt16, BtInt32, BtInt64}"
  shows "putBinaryTupleInt buf kind n =
    (case bt_width kind (sint n) of
       Some k \<Rightarrow> Ok (buf @ le_bytes k (unat n))
     | None \<Rightarrow> Err (Errorf (int_text (sint n) @ '' does not fit into '' @
                 (if kind = BtInt8 then ''TINYINT'' else if kind = BtInt16 then ''SMALLINT'' else ''INT''))))"
proof -
  have w: "word_le (ucast n :: 16 word) = le_bytes 2 (unat n)" "word_le (ucast n :: 32 word) = le_bytes 4 (unat n)"
    "word_le n = le_bytes 8 (unat n)"
    by (simp_all add: word_le_ucast) (simp add: word_le_def)
  have b: "[ucast n :: byte] = le_bytes 1 (unat n)" by (rule ucast_byte)
  show ?thesis using assms
    by (elim insertE emptyE) (simp_all add: putBinaryTupleInt_def Let_def w b del: One_nat_def le_bytes.simps)
qed

lemma bt_width_fits:
  assumes "bt_width kind (sint (n :: 64 word)) = Some k"
  shows "0 < k" and "k \<le> 8" and "fits k (sint n)"
proof -
  have "(k = 1 \<and> int_in 8 (sint n)) \<or> (k = 2 \<and> int_in 16 (sint n)) \<or> (k = 4 \<and> int_in 32 (sint n)) \<or>
    (k = 8 \<and> int_in 64 (sint n))"
    using assms int_in_sint64 [of n] by (cases kind) (auto split: if_splits)
  then show "0 < k" and "k \<le> 8" and "fits k (sint n)" by (auto simp: fits_int_in)
qed

lemma int_width_fits: "0 < int_width (sint (v :: 64 word))" "int_width (sint v) \<le> 8" "fits (int_width (sint v)) (sint v)"
  using int_in_sint64 [of v] by (auto simp: int_width_def fits_int_in)

lemma signed_le_encodeIntLe [codec_simps]: "signed_le (encodeIntLe v) = sint v"
  by (simp add: encodeIntLe_bytes signed_le_sint int_width_fits)

lemma signed_le_bt_width [codec_simps]:
  "bt_width kind (sint n) = Some k \<Longrightarrow> signed_le (le_bytes k (unat n)) = sint (n :: 64 word)"
  by (intro signed_le_sint) (auto dest: bt_width_fits)

subsection \<open>The reader computes the value\<close>

lemma shift_or_byte: "push_bit 8 v OR ucast (b :: byte) = v * 256 + (ucast b :: 64 word)"
proof -
  have "push_bit 8 v AND ucast b = 0"
    by (rule bit_word_eqI) (auto simp: bit_simps dest: bit_imp_le_length)
  then have "push_bit 8 v OR ucast b = push_bit 8 v + ucast b" by (simp add: disjunctive_add_eq_or)
  then show ?thesis by (simp add: push_bit_eq_mult)
qed

lemma foldl_be_word:
  "foldl (\<lambda>v b. push_bit 8 v OR ucast b) (v :: 64 word) raw = v * 256 ^ length raw + word_of_nat (be_nat raw)"
proof -
  have "foldl (\<lambda>v b. v * 256 + ucast b) (v :: 64 word) raw = v * 256 ^ length raw + word_of_nat (be_nat raw)"
  proof (induction raw arbitrary: v)
    case Nil
    then show ?case by simp
  next
    case (Cons b raw)
    have "(ucast b :: 64 word) = word_of_nat (unat b)" by simp
    then have "(v * 256 + ucast b) * 256 ^ length raw + word_of_nat (be_nat raw) =
      v * 256 ^ length (b # raw) + word_of_nat (be_nat (b # raw))"
      by (simp add: be_nat_Cons algebra_simps)
    then show ?case by (simp only: foldl_Cons Cons)
  qed
  then show ?thesis by (simp only: shift_or_byte)
qed

lemma decodeBigEndianTwosComplement_value:
  assumes "raw \<noteq> []" and "length raw \<le> 8"
  shows "decodeBigEndianTwosComplement raw = Ok (word_of_int (signed_be raw))"
    and "sint (word_of_int (signed_be raw) :: 64 word) = signed_be raw"
proof -
  have p: "(push_bit (8 * length raw) 1 :: 64 word) = 256 ^ length raw"
    by (simp add: push_bit_eq_mult power_mult)
  have "(word_of_int (signed_be raw) :: 64 word) =
    word_of_nat (be_nat raw) - (if top_set (raw ! 0) then 256 ^ length raw else 0)"
    using assms(1) by (simp add: signed_be_alt hd_conv_nth)
  then show "decodeBigEndianTwosComplement raw = Ok (word_of_int (signed_be raw))"
    using assms p by (simp add: decodeBigEndianTwosComplement_def foldl_be_word Let_def)
  have "fits 8 (signed_be raw)" using signed_be_fits [OF assms(1)] assms(2) fits_mono by blast
  then have "- (2 ^ 63) \<le> signed_be raw" "signed_be raw < 2 ^ 63" by (simp_all add: fits_def)
  then show "sint (word_of_int (signed_be raw) :: 64 word) = signed_be raw"
    by (simp add: signed_of_int signed_take_bit_int_eq_self)
qed

lemma le_bytes_decode:
  assumes "bt_width kind (sint n) = Some k"
  shows "decodeBigEndianTwosComplement (rev (le_bytes k (unat (n :: 64 word)))) = Ok n"
proof -
  have "rev (le_bytes k (unat n)) \<noteq> []" "length (rev (le_bytes k (unat n))) \<le> 8"
    using bt_width_fits [OF assms] by simp_all
  then show ?thesis using signed_le_bt_width [OF assms]
    by (simp add: decodeBigEndianTwosComplement_value flip: signed_le_def)
qed

lemma putBinaryTupleInt_cases:
  assumes "putBinaryTupleInt buf kind n = Ok buf'"
  shows "\<exists>k. bt_width kind (sint n) = Some k \<and> k \<in> {1, 2, 4, 8} \<and> buf' = buf @ le_bytes k (unat n)"
proof -
  have "kind \<in> {BtInt8, BtInt16, BtInt32, BtInt64}"
    using assms by (cases kind) (simp_all add: putBinaryTupleInt_def)
  then obtain k where k: "bt_width kind (sint n) = Some k" "buf' = buf @ le_bytes k (unat n)"
    using assms by (auto simp: putBinaryTupleInt_bytes split: option.splits)
  then have "k \<in> {1, 2, 4, 8}" by (cases kind) (auto split: if_splits)
  with k show ?thesis by blast
qed

text \<open>Narrowing a number in range and widening it again.\<close>

lemma scast_ucast_in_range:
  assumes "int_in LENGTH('a::len) (sint n)" and "LENGTH('a) < 64"
  shows "(scast (ucast (n :: 64 word) :: 'a word) :: 64 word) = n"
proof -
  have "sint (ucast n :: 'a word) = sint n"
  proof -
    have "(ucast n :: 'a word) = word_of_int (sint n)"
      by (rule bit_word_eqI) (use assms(2) in \<open>auto simp: bit_simps min_def\<close>)
    moreover have "- (2 ^ (LENGTH('a) - 1)) \<le> sint n" "sint n < 2 ^ (LENGTH('a) - 1)"
      using assms by (simp_all add: int_in_def)
    then have "signed_take_bit (LENGTH('a) - 1) (sint n) = sint n" by (simp add: signed_take_bit_int_eq_self)
    moreover have "sint (word_of_int (sint n) :: 'a word) = signed_take_bit (LENGTH('a) - 1) (sint n)"
      by (rule sint_sbintrunc')
    ultimately show ?thesis by (simp only:)
  qed
  then show ?thesis by (simp add: scast_eq)
qed

subsection \<open>Properties\<close>

text \<open>Whatever \<^verbatim>\<open>putBinaryTupleInt\<close> appends for an integer column, reversing it and reading it with
  \<^verbatim>\<open>decodeBigEndianTwosComplement\<close> gives the number back; the bytes already written are kept and the
  element has 1, 2, 4 or 8 bytes.\<close>

theorem putBinaryTupleInt_roundtrip:
  assumes "putBinaryTupleInt buf kind n = Ok buf'"
  shows "\<exists>bs. buf' = buf @ bs \<and> length bs \<in> {1, 2, 4, 8} \<and> decodeBigEndianTwosComplement (rev bs) = Ok n"
proof -
  obtain k where k: "bt_width kind (sint n) = Some k" "k \<in> {1, 2, 4, 8}" "buf' = buf @ le_bytes k (unat n)"
    using putBinaryTupleInt_cases [OF assms] by blast
  then show ?thesis using le_bytes_decode [OF k(1)] by (intro exI [of _ "le_bytes k (unat n)"]) simp
qed

theorem putBinaryTupleInt_roundtrip_witness:
  "\<exists>bs. [9, 0x2c, 0x01] = [9] @ bs \<and> length bs \<in> {1, 2, 4, 8} \<and> decodeBigEndianTwosComplement (rev bs) = Ok 300"
  by (rule putBinaryTupleInt_roundtrip [where kind = BtInt64])
    (simp add: putBinaryTupleInt_bytes int_in_def le_bytes_widths)

text \<open>\<^verbatim>\<open>putBinaryTupleInt\<close> uses the narrowest width the kind allows and rejects exactly the numbers
  outside the column's range.\<close>

theorem putBinaryTupleInt_widths:
  "putBinaryTupleInt buf BtInt8 n =
     (if int_in 8 (sint n) then Ok (buf @ le_bytes 1 (unat n))
      else Err (Errorf (int_text (sint n) @ '' does not fit into TINYINT''))) \<and>
   putBinaryTupleInt buf BtInt16 n =
     (if int_in 8 (sint n) then Ok (buf @ le_bytes 1 (unat n))
      else if int_in 16 (sint n) then Ok (buf @ le_bytes 2 (unat n))
      else Err (Errorf (int_text (sint n) @ '' does not fit into SMALLINT''))) \<and>
   putBinaryTupleInt buf BtInt32 n =
     (if int_in 8 (sint n) then Ok (buf @ le_bytes 1 (unat n))
      else if int_in 16 (sint n) then Ok (buf @ le_bytes 2 (unat n))
      else if int_in 32 (sint n) then Ok (buf @ le_bytes 4 (unat n))
      else Err (Errorf (int_text (sint n) @ '' does not fit into INT''))) \<and>
   putBinaryTupleInt buf BtInt64 n =
     (if int_in 16 (sint n) then Ok (buf @ le_bytes 2 (unat n))
      else if int_in 32 (sint n) then Ok (buf @ le_bytes 4 (unat n))
      else Ok (buf @ le_bytes 8 (unat n)))"
  by (simp add: putBinaryTupleInt_bytes)

text \<open>\<^verbatim>\<open>encodeIntLe\<close> writes every 64-bit number at the narrowest of the widths 1, 2, 4 and 8 that
  holds it, and reversing and reading the bytes gives it back.\<close>

theorem encodeIntLe_roundtrip:
  "decodeBigEndianTwosComplement (rev (encodeIntLe v)) = Ok v \<and>
   length (encodeIntLe v) =
     (if int_in 8 (sint v) then 1 else if int_in 16 (sint v) then 2 else if int_in 32 (sint v) then 4 else 8)"
proof -
  have l: "length (encodeIntLe v) = int_width (sint v)" by (simp add: encodeIntLe_bytes)
  then have "rev (encodeIntLe v) \<noteq> []" "length (rev (encodeIntLe v)) \<le> 8"
    using int_width_fits [of v] by (auto simp flip: length_0_conv)
  then have "decodeBigEndianTwosComplement (rev (encodeIntLe v)) = Ok v"
    using signed_le_encodeIntLe [of v]
    by (simp add: decodeBigEndianTwosComplement_value flip: signed_le_def)
  with l show ?thesis by (simp add: int_width_def)
qed

end
