(* ===== verification/Msgpack.thy ===== *)
theory Msgpack
  imports IntCodec
begin

text \<open>
  The MessagePack library the client calls (vmihailenco/msgpack), which is not part of the
  repository: the record \<open>msgpack\<close> has the encoders and decoders the client uses, the locale
  \<open>msgpack_codec\<close> the documented laws the client relies on. Decoders take the bytes that remain and
  return the value with what follows it. The codec \<open>ref_codec\<close>, written from the MessagePack
  specification for scalar values, satisfies the laws.
\<close>

datatype mp_value = MNil | MInt64 "64 word" | MExt byte "byte list" | MOther

record msgpack =
  enc_nil :: "byte list"
  enc_int :: "64 word \<Rightarrow> byte list"
  enc_string :: "string \<Rightarrow> byte list"
  enc_bytes :: "byte list \<Rightarrow> byte list"
  enc_ext :: "byte \<Rightarrow> byte list \<Rightarrow> byte list"
  dec_peek :: "byte list \<Rightarrow> byte res"
  dec_skip :: "byte list \<Rightarrow> byte list res"
  dec_bool :: "byte list \<Rightarrow> (bool \<times> byte list) res"
  dec_int64 :: "byte list \<Rightarrow> (64 word \<times> byte list) res"
  dec_int32 :: "byte list \<Rightarrow> (32 word \<times> byte list) res"
  dec_int16 :: "byte list \<Rightarrow> (16 word \<times> byte list) res"
  dec_int8 :: "byte list \<Rightarrow> (8 word \<times> byte list) res"
  dec_uint8 :: "byte list \<Rightarrow> (8 word \<times> byte list) res"
  dec_string :: "byte list \<Rightarrow> (string \<times> byte list) res"
  dec_bytes :: "byte list \<Rightarrow> (byte list \<times> byte list) res"
  dec_slice :: "byte list \<Rightarrow> (mp_value list \<times> byte list) res"
  dec_interface :: "byte list \<Rightarrow> (mp_value \<times> byte list) res"
  unmarshal_ext :: "byte \<Rightarrow> byte list \<Rightarrow> byte list res"

text \<open>Codes of the format: \<^verbatim>\<open>msgpcode.Nil\<close> and the integer codes the client tests for.\<close>

abbreviation (input) code_Nil :: byte where "code_Nil \<equiv> 0xc0"
abbreviation (input) code_Int8 :: byte where "code_Int8 \<equiv> 0xd0"
abbreviation (input) code_Int16 :: byte where "code_Int16 \<equiv> 0xd1"
abbreviation (input) code_Int32 :: byte where "code_Int32 \<equiv> 0xd2"
abbreviation (input) code_Int64 :: byte where "code_Int64 \<equiv> 0xd3"

text \<open>\<^verbatim>\<open>msgpcode.IsFixedNum\<close>: positive and negative fixnums.\<close>

definition IsFixedNum :: "byte \<Rightarrow> bool" where
  "IsFixedNum c \<longleftrightarrow> uint c \<le> 0x7f \<or> 0xe0 \<le> uint c"

subsection \<open>The laws the client relies on\<close>

text \<open>
  \<open>M\<close> ranges over codecs. An encoder follows the format: \<open>nil\<close> is the code c0, a number takes one to
  nine bytes and a fixnum one, a string starts with a code of its own, a 16-byte extension is the code d8,
  its type and its payload.
\<close>

locale msgpack_encoder =
  fixes M :: msgpack
  assumes nil_code: "enc_nil M = [0xc0]"
    and int_fixnum: "- 32 \<le> sint n \<Longrightarrow> sint n \<le> 127 \<Longrightarrow> enc_int M n = [ucast n]"
    and int_wide: "sint n < - 32 \<or> 127 < sint n \<Longrightarrow> 1 < length (enc_int M n)"
    and int_size: "enc_int M n \<noteq> [] \<and> length (enc_int M n) \<le> 9 \<and> hd (enc_int M n) \<noteq> 0xc0"
    and string_head: "enc_string M s \<noteq> [] \<and> \<not> IsFixedNum (hd (enc_string M s)) \<and>
           hd (enc_string M s) \<notin> {0xc0, 0xc2, 0xc3, 0xcc, 0xcd, 0xce, 0xcf, 0xd0, 0xd1, 0xd2, 0xd3, 0xd8}"
    and ext16: "length p = 16 \<Longrightarrow> enc_ext M i p = 0xd8 # i # p"
begin

lemma int_not_Nil [simp]: "enc_int M n \<noteq> []"
  using int_size by blast

lemma int_length: "1 \<le> length (enc_int M n)" "length (enc_int M n) \<le> 9"
  using int_size [of n] by (auto simp: Suc_le_eq)

end

text \<open>A codec also decodes what it encoded, whatever follows it; a value takes at least its code.\<close>

locale msgpack_codec = msgpack_encoder +
  assumes int64_law: "dec_int64 M (enc_int M n @ r) = Ok (n, r)"
    and int32_law: "int_in 32 (sint n) \<Longrightarrow> dec_int32 M (enc_int M n @ r) = Ok (ucast n, r)"
    and int8_law: "dec_int8 M (enc_int M n @ r) = Ok (ucast n, r)"
    and uint8_law: "dec_uint8 M (enc_int M n @ r) = Ok (ucast n, r)"
    and bool_law: "dec_bool M ((if v then 0xc3 else 0xc2) # r) = Ok (v, r)"
    and string_law: "length s < 2 ^ 32 \<Longrightarrow> dec_string M (enc_string M s @ r) = Ok (s, r)"
    and bytes_law: "length bs < 2 ^ 32 \<Longrightarrow> dec_bytes M (enc_bytes M bs @ r) = Ok (bs, r)"
    and ext_law: "length p = 16 \<Longrightarrow> unmarshal_ext M i (enc_ext M i p) = Ok p"
    and interface_nil: "dec_interface M (0xc0 # r) = Ok (MNil, r)"
    and interface_ext: "length p = 16 \<Longrightarrow> dec_interface M (enc_ext M 3 p @ r) = Ok (MExt 3 p, r)"
    and peek_law: "dec_peek M (c # r) = Ok c"
    and bytes_consume: "dec_bytes M bs = Ok (b, r) \<Longrightarrow> length r < length bs"
    and skip_nil: "dec_skip M (0xc0 # r) = Ok r"
    and skip_int: "dec_skip M (enc_int M n @ r) = Ok r"
    and skip_string: "length s < 2 ^ 32 \<Longrightarrow> dec_skip M (enc_string M s @ r) = Ok r"
begin

lemma peek_int: "dec_peek M (enc_int M n @ r) = Ok (hd (enc_int M n))"
  using int_size [of n] by (cases "enc_int M n") (simp_all add: peek_law)

lemma peek_string: "dec_peek M (enc_string M s @ r) = Ok (hd (enc_string M s))"
  using string_head [of s] by (cases "enc_string M s") (simp_all add: peek_law)

lemma peek_nil: "dec_peek M (enc_nil M @ r) = Ok 0xc0"
  by (simp add: nil_code peek_law)

end

subsection \<open>A codec from the specification\<close>

text \<open>Integers: fixnums, then the narrowest unsigned or signed code.\<close>

definition mp_enc_int :: "64 word \<Rightarrow> byte list" where
  "mp_enc_int v =
     (let i = sint v; n = unat v
      in if 0 \<le> i
         then (if i < 128 then [ucast v]
               else if i < 2 ^ 8 then 0xcc # be_bytes 1 n
               else if i < 2 ^ 16 then 0xcd # be_bytes 2 n
               else if i < 2 ^ 32 then 0xce # be_bytes 4 n
               else 0xcf # be_bytes 8 n)
         else if - 32 \<le> i then [ucast v]
         else if int_in 8 i then 0xd0 # be_bytes 1 n
         else if int_in 16 i then 0xd1 # be_bytes 2 n
         else if int_in 32 i then 0xd2 # be_bytes 4 n
         else 0xd3 # be_bytes 8 n)"

text \<open>Unsigned and signed readings of \<open>k\<close> big-endian bytes.\<close>

definition mp_unsigned :: "nat \<Rightarrow> byte list \<Rightarrow> (64 word \<times> byte list) res" where
  "mp_unsigned k r = rbind (read_full k r) (\<lambda>(b, r). Ok (word_of_nat (be_nat b), r))"

definition mp_signed :: "nat \<Rightarrow> byte list \<Rightarrow> (64 word \<times> byte list) res" where
  "mp_signed k r = rbind (read_full k r) (\<lambda>(b, r). Ok (word_of_int (signed_be b), r))"

definition mp_unexpected :: gerror where
  "mp_unexpected = GoError ''msgpack: unexpected code''"

definition mp_dec_int :: "byte list \<Rightarrow> (64 word \<times> byte list) res" where
  "mp_dec_int bs =
     (case bs of
        [] \<Rightarrow> Err EOF
      | c # r \<Rightarrow>
          if IsFixedNum c then Ok (scast c, r)
          else if c = 0xcc then mp_unsigned 1 r
          else if c = 0xcd then mp_unsigned 2 r
          else if c = 0xce then mp_unsigned 4 r
          else if c = 0xcf then mp_unsigned 8 r
          else if c = 0xd0 then mp_signed 1 r
          else if c = 0xd1 then mp_signed 2 r
          else if c = 0xd2 then mp_signed 4 r
          else if c = 0xd3 then mp_signed 8 r
          else if c = 0xc0 then Ok (0, r)
          else Err mp_unexpected)"

text \<open>Strings and byte arrays: a length prefix and the bytes.\<close>

definition mp_prefixed :: "nat \<Rightarrow> byte list \<Rightarrow> (byte list \<times> byte list) res" where
  "mp_prefixed k r = rbind (read_full k r) (\<lambda>(l, r). read_full (be_nat l) r)"

definition mp_enc_bytes :: "byte list \<Rightarrow> byte list" where
  "mp_enc_bytes b =
     (let n = length b
      in (if n < 2 ^ 8 then 0xc4 # be_bytes 1 n else if n < 2 ^ 16 then 0xc5 # be_bytes 2 n
          else 0xc6 # be_bytes 4 n) @ b)"

definition mp_enc_string :: "string \<Rightarrow> byte list" where
  "mp_enc_string s =
     (let b = str_bytes s; n = length b
      in (if n < 32 then [word_of_nat (0xa0 + n)] else if n < 2 ^ 8 then 0xd9 # be_bytes 1 n
          else if n < 2 ^ 16 then 0xda # be_bytes 2 n else 0xdb # be_bytes 4 n) @ b)"

definition mp_dec_bytes :: "byte list \<Rightarrow> (byte list \<times> byte list) res" where
  "mp_dec_bytes bs =
     (case bs of
        [] \<Rightarrow> Err EOF
      | c # r \<Rightarrow>
          if c = 0xc4 \<or> c = 0xd9 then mp_prefixed 1 r
          else if c = 0xc5 \<or> c = 0xda then mp_prefixed 2 r
          else if c = 0xc6 \<or> c = 0xdb then mp_prefixed 4 r
          else if 0xa0 \<le> uint c \<and> uint c \<le> 0xbf then read_full (unat c - 0xa0) r
          else if c = 0xc0 then Ok ([], r)
          else Err mp_unexpected)"

definition mp_dec_string :: "byte list \<Rightarrow> (string \<times> byte list) res" where
  "mp_dec_string bs = rmap (\<lambda>(b, r). (bytes_str b, r)) (mp_dec_bytes bs)"

definition mp_dec_bool :: "byte list \<Rightarrow> (bool \<times> byte list) res" where
  "mp_dec_bool bs =
     (case bs of
        [] \<Rightarrow> Err EOF
      | c # r \<Rightarrow> if c = 0xc3 then Ok (True, r) else if c = 0xc2 then Ok (False, r) else Err mp_unexpected)"

definition mp_skip :: "byte list \<Rightarrow> byte list res" where
  "mp_skip bs =
     (case bs of
        [] \<Rightarrow> Err EOF
      | c # r \<Rightarrow>
          if c \<in> {0xc2, 0xc3} then Ok r
          else if c = 0xd8 then rmap snd (read_full 17 r)
          else case mp_dec_int bs of
                 Ok (_, r) \<Rightarrow> Ok r
               | _ \<Rightarrow> rmap snd (mp_dec_bytes bs))"

text \<open>A value of unknown type, and an array of them.\<close>

definition mp_interface :: "byte list \<Rightarrow> (mp_value \<times> byte list) res" where
  "mp_interface bs =
     (case bs of
        [] \<Rightarrow> Err EOF
      | c # r \<Rightarrow>
          if c = 0xc0 then Ok (MNil, r)
          else if c = 0xd3 then rmap (\<lambda>(n, r). (MInt64 n, r)) (mp_signed 8 r)
          else if c = 0xd8
          then rbind (read_full 17 r) (\<lambda>(e, r). if hd e = 3 then Ok (MExt (hd e) (tl e), r) else Err mp_unexpected)
          else rmap (\<lambda>r. (MOther, r)) (mp_skip bs))"

fun mp_elements :: "nat \<Rightarrow> byte list \<Rightarrow> (mp_value list \<times> byte list) res" where
  "mp_elements 0 r = Ok ([], r)"
| "mp_elements (Suc n) r =
     rbind (mp_interface r) (\<lambda>(v, r). rmap (\<lambda>(vs, r). (v # vs, r)) (mp_elements n r))"

definition mp_slice :: "byte list \<Rightarrow> (mp_value list \<times> byte list) res" where
  "mp_slice bs =
     (case bs of
        [] \<Rightarrow> Err EOF
      | c # r \<Rightarrow>
          if 0x90 \<le> uint c \<and> uint c \<le> 0x9f then mp_elements (unat c - 0x90) r
          else if c = 0xdc then rbind (read_full 2 r) (\<lambda>(l, r). mp_elements (be_nat l) r)
          else if c = 0xdd then rbind (read_full 4 r) (\<lambda>(l, r). mp_elements (be_nat l) r)
          else if c = 0xc0 then Ok ([], r)
          else Err mp_unexpected)"

definition mp_unmarshal_ext :: "byte \<Rightarrow> byte list \<Rightarrow> byte list res" where
  "mp_unmarshal_ext i bs =
     (case bs of c # j # p \<Rightarrow> if c = 0xd8 \<and> j = i \<and> length p = 16 then Ok p else Err mp_unexpected
      | _ \<Rightarrow> Err mp_unexpected)"

definition ref_codec :: msgpack where
  "ref_codec =
     \<lparr>enc_nil = [0xc0], enc_int = mp_enc_int, enc_string = mp_enc_string, enc_bytes = mp_enc_bytes,
      enc_ext = (\<lambda>i p. 0xd8 # i # p),
      dec_peek = (\<lambda>bs. case bs of [] \<Rightarrow> Err EOF | c # r \<Rightarrow> Ok c), dec_skip = mp_skip, dec_bool = mp_dec_bool,
      dec_int64 = mp_dec_int, dec_int32 = (\<lambda>bs. rmap (\<lambda>(n, r). (ucast n, r)) (mp_dec_int bs)),
      dec_int16 = (\<lambda>bs. rmap (\<lambda>(n, r). (ucast n, r)) (mp_dec_int bs)),
      dec_int8 = (\<lambda>bs. rmap (\<lambda>(n, r). (ucast n, r)) (mp_dec_int bs)),
      dec_uint8 = (\<lambda>bs. rmap (\<lambda>(n, r). (ucast n, r)) (mp_dec_int bs)),
      dec_string = mp_dec_string, dec_bytes = mp_dec_bytes, dec_slice = mp_slice, dec_interface = mp_interface,
      unmarshal_ext = mp_unmarshal_ext\<rparr>"

subsection \<open>The reference codec satisfies the laws\<close>

lemma read_full_append [codec_simps]: "length b = n \<Longrightarrow> read_full n (b @ r) = Ok (b, r)"
  by (simp add: read_full_def)

lemma mp_unsigned_be: "unat v < 256 ^ k \<Longrightarrow> mp_unsigned k (be_bytes k (unat v) @ r) = Ok (v, r)"
  by (simp add: mp_unsigned_def codec_simps)

lemma mp_signed_be:
  assumes "0 < k" "k \<le> 8" "fits k (sint (v :: 64 word))"
  shows "mp_signed k (be_bytes k (unat v) @ r) = Ok (v, r)"
  using signed_le_sint [OF assms]
  by (simp add: mp_signed_def codec_simps) (simp add: be_bytes_def signed_le_def)

lemma sint_nonneg_unat: "0 \<le> sint (v :: 64 word) \<Longrightarrow> sint v = int (unat v)"
proof -
  assume "0 \<le> sint v"
  moreover have "sint v < 2 ^ 64" using int_in_sint64 [of v] by (simp add: int_in_def)
  ultimately show ?thesis by (simp add: uint_sint take_bit_eq_mod)
qed

lemma fixnum_cases:
  assumes "- 32 \<le> sint (v :: 64 word)" "sint v < 128"
  shows "IsFixedNum (ucast v)" "(scast (ucast v :: byte) :: 64 word) = v"
proof -
  have "uint v = sint v mod 2 ^ 64" by (simp add: uint_sint take_bit_eq_mod)
  then have "uint (ucast v :: byte) = sint v mod 256" by (simp add: uint_up_ucast unsigned_ucast_eq take_bit_eq_mod mod_mod_cancel)
  moreover have "sint v mod 256 = (if 0 \<le> sint v then sint v else sint v + 256)"
  proof (cases "0 \<le> sint v")
    case False
    then have "(sint v + 256) mod 256 = sint v + 256" using assms by (intro mod_pos_pos_trivial) auto
    then show ?thesis using False by simp
  qed (use assms in auto)
  ultimately show "IsFixedNum (ucast v)" using assms by (auto simp: IsFixedNum_def)
  have "int_in 8 (sint v)" using assms by (simp add: int_in_def)
  then show "(scast (ucast v :: byte) :: 64 word) = v" by (intro scast_ucast_in_range) simp_all
qed

lemma not_fixnum_code: "0xc0 \<le> uint (c :: byte) \<Longrightarrow> uint c < 0xe0 \<Longrightarrow> \<not> IsFixedNum c"
  by (simp add: IsFixedNum_def)

lemma mp_dec_codes:
  "mp_dec_int (0xcc # r) = mp_unsigned 1 r" "mp_dec_int (0xcd # r) = mp_unsigned 2 r"
  "mp_dec_int (0xce # r) = mp_unsigned 4 r" "mp_dec_int (0xcf # r) = mp_unsigned 8 r"
  "mp_dec_int (0xd0 # r) = mp_signed 1 r" "mp_dec_int (0xd1 # r) = mp_signed 2 r"
  "mp_dec_int (0xd2 # r) = mp_signed 4 r" "mp_dec_int (0xd3 # r) = mp_signed 8 r"
  by (simp_all add: mp_dec_int_def not_fixnum_code)

text \<open>The bytes of a number: a fixnum, or a code and \<open>k\<close> big-endian bytes.\<close>

lemma mp_enc_int_cases:
  obtains "- 32 \<le> sint v" "sint v < 128" "mp_enc_int v = [ucast v]"
  | k c where "(c, k) \<in> {(0xcc, 1), (0xcd, 2), (0xce, 4), (0xcf, 8)}" "unat v < 256 ^ k"
      "mp_enc_int v = c # be_bytes k (unat v)"
  | k c where "(c, k) \<in> {(0xd0, 1), (0xd1, 2), (0xd2, 4), (0xd3, 8)}" "fits k (sint v)"
      "mp_enc_int v = c # be_bytes k (unat v)"
proof (cases "- 32 \<le> sint v \<and> sint v < 128")
  case True
  then show ?thesis using that(1) by (auto simp: mp_enc_int_def Let_def)
next
  case False
  show ?thesis
  proof (cases "0 \<le> sint v")
    case True
    have u: "sint v = int (unat v)" using True by (rule sint_nonneg_unat)
    have b: "\<not> sint v < 128" using False True by linarith
    have w: "unat v < 2 ^ 64" using unsigned_less [of v] by simp
    have n: "unat v < k \<longleftrightarrow> sint v < int k" for k using u by linarith
    consider "sint v < 256" | "256 \<le> sint v" "sint v < 65536" | "65536 \<le> sint v" "sint v < 4294967296"
      | "4294967296 \<le> sint v" by linarith
    then show ?thesis
    proof cases
      case 1
      then have "mp_enc_int v = 0xcc # be_bytes 1 (unat v)" using True b by (simp add: mp_enc_int_def Let_def)
      moreover have "unat v < 256 ^ 1" using 1 w n by simp
      ultimately show ?thesis by (intro that(2)) simp_all
    next
      case 2
      then have "mp_enc_int v = 0xcd # be_bytes 2 (unat v)" using True b by (simp add: mp_enc_int_def Let_def)
      moreover have "unat v < 256 ^ 2" using 2 w n by simp
      ultimately show ?thesis by (intro that(2)) simp_all
    next
      case 3
      then have "mp_enc_int v = 0xce # be_bytes 4 (unat v)" using True b by (simp add: mp_enc_int_def Let_def)
      moreover have "unat v < 256 ^ 4" using 3 w n by simp
      ultimately show ?thesis by (intro that(2)) simp_all
    next
      case 4
      then have "mp_enc_int v = 0xcf # be_bytes 8 (unat v)" using True b by (simp add: mp_enc_int_def Let_def)
      moreover have "unat v < 256 ^ 8" using 4 w n by simp
      ultimately show ?thesis by (intro that(2)) simp_all
    qed
  next
    case neg: False
    have b: "\<not> - 32 \<le> sint v" using False neg by linarith
    note f = fits_int_in [of 1 "sint v"] fits_int_in [of 2 "sint v"] fits_int_in [of 4 "sint v"]
      fits_int_in [of 8 "sint v"] int_in_sint64 [of v]
    consider "int_in 8 (sint v)" | "\<not> int_in 8 (sint v)" "int_in 16 (sint v)"
      | "\<not> int_in 8 (sint v)" "\<not> int_in 16 (sint v)" "int_in 32 (sint v)"
      | "\<not> int_in 8 (sint v)" "\<not> int_in 16 (sint v)" "\<not> int_in 32 (sint v)" by blast
    then show ?thesis
    proof cases
      case 1
      then have "mp_enc_int v = 0xd0 # be_bytes 1 (unat v)" using neg b by (simp add: mp_enc_int_def Let_def)
      moreover have "fits 1 (sint v)" using 1 f by simp
      ultimately show ?thesis by (intro that(3)) simp_all
    next
      case 2
      then have "mp_enc_int v = 0xd1 # be_bytes 2 (unat v)" using neg b by (simp add: mp_enc_int_def Let_def)
      moreover have "fits 2 (sint v)" using 2 f by simp
      ultimately show ?thesis by (intro that(3)) simp_all
    next
      case 3
      then have "mp_enc_int v = 0xd2 # be_bytes 4 (unat v)" using neg b by (simp add: mp_enc_int_def Let_def)
      moreover have "fits 4 (sint v)" using 3 f by simp
      ultimately show ?thesis by (intro that(3)) simp_all
    next
      case 4
      then have "mp_enc_int v = 0xd3 # be_bytes 8 (unat v)" using neg b by (simp add: mp_enc_int_def Let_def)
      moreover have "fits 8 (sint v)" using 4 f by simp
      ultimately show ?thesis by (intro that(3)) simp_all
    qed
  qed
qed

lemma mp_int_roundtrip: "mp_dec_int (mp_enc_int v @ r) = Ok (v, r)"
proof (cases v rule: mp_enc_int_cases)
  case 1
  then show ?thesis using fixnum_cases [of v] by (simp add: mp_dec_int_def)
next
  case (2 k c)
  then show ?thesis using mp_unsigned_be [of v k r] by (auto simp: mp_dec_codes)
next
  case (3 k c)
  then have "0 < k" "k \<le> 8" by auto
  then show ?thesis using mp_signed_be [of k v r] 3 by (auto simp: mp_dec_codes)
qed

lemma mp_prefixed_be: "length b < 256 ^ k \<Longrightarrow> mp_prefixed k (be_bytes k (length b) @ b @ r) = Ok (b, r)"
  by (simp add: mp_prefixed_def codec_simps)

lemma mp_bytes_roundtrip: "length b < 2 ^ 32 \<Longrightarrow> mp_dec_bytes (mp_enc_bytes b @ r) = Ok (b, r)"
  by (simp add: mp_enc_bytes_def mp_dec_bytes_def Let_def mp_prefixed_be)

lemma uint_word_of_nat_byte: "n < 256 \<Longrightarrow> uint (word_of_nat n :: byte) = int n"
  by (simp add: unsigned_of_nat take_bit_eq_mod)

lemma fixstr_code:
  assumes "n < 32"
  shows "uint (word_of_nat (160 + n) :: byte) = 160 + int n" "unat (word_of_nat (160 + n) :: byte) = 160 + n"
    and "(word_of_nat (160 + n) :: byte) \<notin> {0xc4, 0xc5, 0xc6, 0xd9, 0xda, 0xdb, 0xc0, 0xc2, 0xc3, 0xd8}"
    and "\<not> IsFixedNum (word_of_nat (160 + n))"
proof -
  show u: "uint (word_of_nat (160 + n) :: byte) = 160 + int n"
    using assms uint_word_of_nat_byte [of "160 + n"] by simp
  show "unat (word_of_nat (160 + n) :: byte) = 160 + n" using assms unat_of_nat_byte [of "160 + n"] by simp
  have "uint (word_of_nat (160 + n) :: byte) < 192" using u assms by simp
  then show "(word_of_nat (160 + n) :: byte) \<notin> {0xc4, 0xc5, 0xc6, 0xd9, 0xda, 0xdb, 0xc0, 0xc2, 0xc3, 0xd8}"
    by auto
  show "\<not> IsFixedNum (word_of_nat (160 + n))" using u assms by (simp add: IsFixedNum_def)
qed

lemma mp_string_bytes:
  "length s < 2 ^ 32 \<Longrightarrow> mp_dec_bytes (mp_enc_string s @ r) = Ok (str_bytes s, r)"
proof (cases "length s < 32")
  case True
  then show ?thesis using fixstr_code [of "length s"]
    by (simp add: mp_enc_string_def mp_dec_bytes_def Let_def codec_simps)
next
  case False
  assume "length s < 2 ^ 32"
  with False show ?thesis using mp_prefixed_be [of "str_bytes s" 1 r] mp_prefixed_be [of "str_bytes s" 2 r]
      mp_prefixed_be [of "str_bytes s" 4 r]
    by (simp add: mp_enc_string_def mp_dec_bytes_def Let_def)
qed

lemma mp_skip_int: "mp_skip (mp_enc_int v @ r) = Ok r"
proof (cases "mp_enc_int v @ r")
  case Nil
  then show ?thesis by (cases v rule: mp_enc_int_cases) auto
next
  case (Cons c r')
  have "c \<notin> {0xc2, 0xc3, 0xd8}"
  proof (cases v rule: mp_enc_int_cases)
    case 1
    then have "IsFixedNum c" using fixnum_cases [of v] Cons by simp
    then show ?thesis by (auto simp: IsFixedNum_def)
  qed (use Cons in auto)
  then show ?thesis using mp_int_roundtrip [of v r] Cons by (simp add: mp_skip_def)
qed

lemma mp_string_head:
  "mp_enc_string s \<noteq> [] \<and> \<not> IsFixedNum (hd (mp_enc_string s)) \<and>
   hd (mp_enc_string s) \<notin> {0xc0, 0xc2, 0xc3, 0xcc, 0xcd, 0xce, 0xcf, 0xd0, 0xd1, 0xd2, 0xd3, 0xd8}"
proof (cases "length s < 32")
  case True
  then have c: "mp_enc_string s \<noteq> []" "hd (mp_enc_string s) = word_of_nat (160 + length s)"
    by (simp_all add: mp_enc_string_def Let_def)
  have "uint (hd (mp_enc_string s)) < 192" using fixstr_code(1) [OF True] True c by simp
  then show ?thesis using fixstr_code(4) [OF True] c by auto
next
  case False
  then have "mp_enc_string s \<noteq> []" "hd (mp_enc_string s) \<in> {0xd9, 0xda, 0xdb}"
    by (auto simp: mp_enc_string_def Let_def split: if_splits)
  then show ?thesis by (auto simp: IsFixedNum_def)
qed

lemma mp_skip_string: "length s < 2 ^ 32 \<Longrightarrow> mp_skip (mp_enc_string s @ r) = Ok r"
  using mp_string_bytes [of s r] mp_string_head [of s]
  by (cases "mp_enc_string s") (simp_all add: mp_skip_def mp_dec_int_def)

lemma mp_int_size: "mp_enc_int v \<noteq> [] \<and> length (mp_enc_int v) \<le> 9 \<and> hd (mp_enc_int v) \<noteq> 0xc0"
proof (cases v rule: mp_enc_int_cases)
  case 1
  then show ?thesis using fixnum_cases(1) [of v] by (auto simp: IsFixedNum_def)
qed auto

lemma mp_int_fixnum: "- 32 \<le> sint v \<Longrightarrow> sint v \<le> 127 \<Longrightarrow> mp_enc_int v = [ucast v]"
  by (simp add: mp_enc_int_def Let_def)

lemma mp_int_wide: "sint v < - 32 \<or> 127 < sint v \<Longrightarrow> Suc 0 < length (mp_enc_int v)"
  by (cases v rule: mp_enc_int_cases) auto

lemma mp_skip_nil: "mp_skip (0xc0 # r) = Ok r"
  by (simp add: mp_skip_def mp_dec_int_def not_fixnum_code)

lemma read_full_append_Cons: "length p = 16 \<Longrightarrow> read_full 17 (c # p @ r) = Ok (c # p, r)"
  using read_full_append [of "c # p" 17 r] by simp

lemma read_full_length: "read_full n bs = Ok (b, r) \<Longrightarrow> length r \<le> length bs"
  by (auto simp: read_full_def split: if_splits)

lemma mp_prefixed_length: "mp_prefixed k bs = Ok (b, r) \<Longrightarrow> length r \<le> length bs"
  by (auto simp: mp_prefixed_def dest!: read_full_length)

lemma mp_bytes_consume: "mp_dec_bytes bs = Ok (b, r) \<Longrightarrow> length r < length bs"
  by (cases bs) (auto simp: mp_dec_bytes_def dest!: mp_prefixed_length read_full_length split: if_splits)

interpretation ref: msgpack_codec ref_codec
proof unfold_locales
  show "dec_bytes ref_codec bs = Ok (b, r) \<Longrightarrow> length r < length bs" for bs b r
    using mp_bytes_consume by (simp add: ref_codec_def)
next
  show "length s < 2 ^ 32 \<Longrightarrow> dec_string ref_codec (enc_string ref_codec s @ r) = Ok (s, r)" for s r
    using mp_string_bytes [of s r] by (simp add: ref_codec_def mp_dec_string_def)
qed (simp_all add: ref_codec_def mp_int_size mp_string_head [simplified] mp_int_roundtrip mp_bytes_roundtrip mp_skip_int mp_skip_string
       mp_unmarshal_ext_def mp_interface_def mp_skip_nil mp_dec_bool_def mp_int_fixnum mp_int_wide read_full_append_Cons)

end
