(* ===== verification/PackedIO.thy ===== *)
theory PackedIO
  imports Msgpack "HOL-Library.Signed_Division"
begin

text \<open>
  The readers and writers of types.go over MessagePack. A writer returns the bytes it appends: the
  client only ever writes into a \<^verbatim>\<open>bytes.Buffer\<close>, whose writes do not fail. A reader takes the bytes that
  remain and returns the value with what follows it.
\<close>

subsection \<open>Writers\<close>

definition WriteRawByte :: "byte \<Rightarrow> byte list" where "WriteRawByte v = [v]"
definition WriteRawBytes :: "byte list \<Rightarrow> byte list" where "WriteRawBytes v = v"
definition WriteRawInt8 :: "8 word \<Rightarrow> byte list" where "WriteRawInt8 v = WriteRawByte v"
definition WriteRawInt32 :: "32 word \<Rightarrow> byte list" where "WriteRawInt32 v = word_be v"
definition WritePackedNull :: "msgpack \<Rightarrow> byte list" where "WritePackedNull M = enc_nil M"
definition WritePackedByte :: "byte \<Rightarrow> byte list" where "WritePackedByte v = WriteRawByte v"
definition WritePackedBytes :: "msgpack \<Rightarrow> byte list \<Rightarrow> byte list" where "WritePackedBytes M v = enc_bytes M v"
definition WritePackedInt64 :: "msgpack \<Rightarrow> 64 word \<Rightarrow> byte list" where "WritePackedInt64 M v = enc_int M v"
definition WritePackedString :: "msgpack \<Rightarrow> string \<Rightarrow> byte list" where "WritePackedString M v = enc_string M v"

definition WritePackedUUID :: "msgpack \<Rightarrow> uuid \<Rightarrow> byte list" where
  "WritePackedUUID M v = enc_ext M 3 (snd (uuid_MarshalMsgpack v))"

text \<open>\<^verbatim>\<open>time.Time.UnixMilli\<close>, and the product with 65536 wrapped to an int64.\<close>

definition time_UnixMilli :: "gotime \<Rightarrow> 64 word" where
  "time_UnixMilli t = word_of_int (t_unix t * 1000 + t_nsec t div 1000000)"

definition WritePackedTimestamp :: "msgpack \<Rightarrow> gotime \<Rightarrow> byte list" where
  "WritePackedTimestamp M ts = WritePackedInt64 M (time_UnixMilli ts * 256 * 256)"

text \<open>A Go map is given by its entries in the order the iteration visits them.\<close>

definition WritePackedMap :: "msgpack \<Rightarrow> (string \<times> string) list \<Rightarrow> byte list" where
  "WritePackedMap M code =
     WriteRawInt8 (word_of_nat (length code)) @
     concat (map (\<lambda>(k, v). WriteRawBytes (enc_string M k) @ WriteRawBytes (enc_string M v)) code)"

subsection \<open>Readers\<close>

text \<open>\<^verbatim>\<open>dec.Skip\<close>'s error is ignored; the code has been peeked, so there is a value to skip.\<close>

definition skip_quietly :: "msgpack \<Rightarrow> byte list \<Rightarrow> byte list" where
  "skip_quietly M r = (case dec_skip M r of Ok r' \<Rightarrow> r' | _ \<Rightarrow> r)"

definition TryReadPackedNil :: "msgpack \<Rightarrow> byte list \<Rightarrow> (bool \<times> byte list) res" where
  "TryReadPackedNil M r =
     rbind (dec_peek M r) (\<lambda>code. if code = code_Nil then Ok (True, skip_quietly M r) else Ok (False, r))"

definition TryReadPackedIntWithDefault :: "msgpack \<Rightarrow> 64 word \<Rightarrow> byte list \<Rightarrow> (64 word \<times> byte list) res" where
  "TryReadPackedIntWithDefault M defaultValue r =
     rbind (dec_peek M r) (\<lambda>code.
       if IsFixedNum code then Ok (ucast code, skip_quietly M r)
       else if code = code_Int8 \<or> code = code_Int16 \<or> code = code_Int32 \<or> code = code_Int64 then dec_int64 M r
       else Ok (defaultValue, r))"

definition ReadRawByteArray :: "int \<Rightarrow> byte list \<Rightarrow> (byte list \<times> byte list) res" where
  "ReadRawByteArray n r =
     (if n < 0 then Panic MakeSliceLen else if n = 0 then Ok ([], r) else read_full (nat n) r)"

definition ReadPackedBool :: "msgpack \<Rightarrow> byte list \<Rightarrow> (bool \<times> byte list) res" where "ReadPackedBool M r = dec_bool M r"
definition ReadPackedInt8 :: "msgpack \<Rightarrow> byte list \<Rightarrow> (8 word \<times> byte list) res" where "ReadPackedInt8 M r = dec_int8 M r"
definition ReadPackedUint8 :: "msgpack \<Rightarrow> byte list \<Rightarrow> (8 word \<times> byte list) res" where "ReadPackedUint8 M r = dec_uint8 M r"
definition ReadPackedByte :: "msgpack \<Rightarrow> byte list \<Rightarrow> (byte \<times> byte list) res" where "ReadPackedByte M r = dec_uint8 M r"
definition ReadPackedBytes :: "msgpack \<Rightarrow> byte list \<Rightarrow> (byte list \<times> byte list) res" where "ReadPackedBytes M r = dec_bytes M r"
definition ReadPackedInt16 :: "msgpack \<Rightarrow> byte list \<Rightarrow> (16 word \<times> byte list) res" where "ReadPackedInt16 M r = dec_int16 M r"
definition ReadPackedInt32 :: "msgpack \<Rightarrow> byte list \<Rightarrow> (32 word \<times> byte list) res" where "ReadPackedInt32 M r = dec_int32 M r"
definition ReadPackedInt64 :: "msgpack \<Rightarrow> byte list \<Rightarrow> (64 word \<times> byte list) res" where "ReadPackedInt64 M r = dec_int64 M r"
definition ReadPackedInt :: "msgpack \<Rightarrow> byte list \<Rightarrow> (64 word \<times> byte list) res" where "ReadPackedInt M r = ReadPackedInt64 M r"
definition ReadPackedString :: "msgpack \<Rightarrow> byte list \<Rightarrow> (string \<times> byte list) res" where "ReadPackedString M r = dec_string M r"
definition TryReadError :: "msgpack \<Rightarrow> byte list \<Rightarrow> (mp_value \<times> byte list) res" where "TryReadError M r = dec_interface M r"

text \<open>\<^verbatim>\<open>i.(int64)\<close>: the decoder gives an int64 only for the eight-byte integer code.\<close>

fun assert_int64 :: "mp_value \<Rightarrow> 64 word res" where
  "assert_int64 (MInt64 n) = Ok n"
| "assert_int64 _ = Panic BadTypeAssertion"

definition ReadPackedInt64Array :: "msgpack \<Rightarrow> byte list \<Rightarrow> (64 word list \<times> byte list) res" where
  "ReadPackedInt64Array M r =
     rbind (dec_slice M r) (\<lambda>(vs, r). rmap (\<lambda>ns. (ns, r)) (mapR assert_int64 vs))"

definition ReadPackedUUID :: "msgpack \<Rightarrow> byte list \<Rightarrow> (uuid \<times> byte list) res" where
  "ReadPackedUUID M r =
     rbind (read_full 18 r) (\<lambda>(buf, r).
     rbind (unmarshal_ext M 3 buf) (\<lambda>p.
     rbind (uuid_UnmarshalMsgpack p) (\<lambda>u. Ok (u, r))))"

definition ReadPackedInt64String :: "msgpack \<Rightarrow> byte list \<Rightarrow> ((64 word \<times> string) \<times> byte list) res" where
  "ReadPackedInt64String M r =
     rbind (dec_int64 M r) (\<lambda>(k, r). rbind (dec_string M r) (\<lambda>(v, r). Ok ((k, v), r)))"

text \<open>Go's operators here have one precedence and associate to the left.\<close>

definition timestamp_of_raw :: "64 word \<Rightarrow> gotime" where
  "timestamp_of_raw raw =
     (let low = sint (raw AND 0xFF) smod 1000 * 1000000;
          high = sint (signed_drop_bit 16 raw) sdiv 1000
      in time_UTC (time_Unix (\<lambda>_. 0) high low))"

definition ReadPackedTimestamp :: "msgpack \<Rightarrow> byte list \<Rightarrow> (gotime \<times> byte list) res" where
  "ReadPackedTimestamp M r = rbind (ReadPackedInt64 M r) (\<lambda>(raw, r). Ok (timestamp_of_raw raw, r))"

lemmas read_defs = ReadPackedBool_def ReadPackedInt8_def ReadPackedUint8_def ReadPackedByte_def ReadPackedBytes_def
  ReadPackedInt16_def ReadPackedInt32_def ReadPackedInt64_def ReadPackedInt_def ReadPackedString_def TryReadError_def

lemmas write_defs = WriteRawByte_def WriteRawBytes_def WriteRawInt8_def WriteRawInt32_def WritePackedNull_def
  WritePackedByte_def WritePackedBytes_def WritePackedInt64_def WritePackedString_def

subsection \<open>What is read back\<close>

lemma sint_mult_pow: "- (2 ^ 47) \<le> sint (w :: 64 word) \<Longrightarrow> sint w < 2 ^ 47 \<Longrightarrow> sint (w * 65536) = sint w * 65536"
proof -
  assume b: "- (2 ^ 47) \<le> sint w" "sint w < 2 ^ 47"
  have "w * 65536 = word_of_int (sint w * 65536)" by simp
  then have "sint (w * 65536) = signed_take_bit 63 (sint w * 65536)"
    using sint_sbintrunc' [of "sint w * 65536", where 'a = 64] by simp
  also have "\<dots> = sint w * 65536" using b by (intro signed_take_bit_int_eq_self) simp_all
  finally show ?thesis .
qed

lemma timestamp_of_raw_shifted:
  assumes "- (2 ^ 47) \<le> sint ms" "sint ms < 2 ^ 47"
  shows "timestamp_of_raw (ms * 256 * 256) = \<lparr>t_unix = sint ms sdiv 1000, t_nsec = 0, t_off = 0\<rparr>"
proof -
  have m: "ms * 256 * 256 = push_bit 16 ms" by (simp add: push_bit_eq_mult)
  have "(0xFF :: 64 word) = mask 8" by (simp add: mask_eq_exp_minus_1)
  moreover have "push_bit 16 ms AND mask 8 = 0" by (rule bit_word_eqI) (auto simp: bit_simps)
  ultimately have "push_bit 16 ms AND 0xFF = 0" by simp
  moreover have "signed_drop_bit 16 (push_bit 16 ms) = ms"
  proof (rule signed_word_eqI)
    have "sint (push_bit 16 ms) = sint ms * 65536"
      using sint_mult_pow [OF assms] by (simp add: push_bit_eq_mult)
    then show "sint (signed_drop_bit 16 (push_bit 16 ms)) = sint ms"
      by (simp add: sint_signed_drop_bit_eq drop_bit_eq_div)
  qed
  ultimately show ?thesis by (simp add: timestamp_of_raw_def m time_Unix_def time_UTC_def)
qed

context msgpack_codec
begin

lemma read_write_int64 [codec_simps]: "ReadPackedInt64 M (WritePackedInt64 M n @ r) = Ok (n, r)"
  by (simp add: read_defs write_defs int64_law)

lemma read_write_int32:
  "int_in 32 (sint n) \<Longrightarrow> ReadPackedInt32 M (WritePackedInt64 M n @ r) = Ok (ucast n, r)"
  by (simp add: read_defs write_defs int32_law)

lemma read_write_string [codec_simps]:
  "length s < 2 ^ 32 \<Longrightarrow> ReadPackedString M (WritePackedString M s @ r) = Ok (s, r)"
  by (simp add: read_defs write_defs string_law)

lemma read_write_bytes [codec_simps]:
  "length b < 2 ^ 32 \<Longrightarrow> ReadPackedBytes M (WritePackedBytes M b @ r) = Ok (b, r)"
  by (simp add: read_defs write_defs bytes_law)

lemma read_write_uuid [codec_simps]: "wf_uuid u \<Longrightarrow> ReadPackedUUID M (WritePackedUUID M u @ r) = Ok (u, r)"
proof -
  assume w: "wf_uuid u"
  define p where "p = snd (uuid_MarshalMsgpack u)"
  have l: "length p = 16" using w wf_uuid_Flip [of u] by (simp add: p_def uuid_MarshalMsgpack_def wf_uuid_def)
  have "read_full 18 (enc_ext M 3 p @ r) = Ok (enc_ext M 3 p, r)"
    using l by (intro read_full_append) (simp add: ext16)
  moreover have "uuid_UnmarshalMsgpack p = Ok u"
    using w uuid_Flip_Flip [OF w] l by (simp add: p_def uuid_UnmarshalMsgpack_def uuid_MarshalMsgpack_def read_full_def)
  ultimately show ?thesis using l by (simp add: ReadPackedUUID_def WritePackedUUID_def ext_law flip: p_def)
qed

lemma try_nil: "TryReadPackedNil M (WritePackedNull M @ r) = Ok (True, r)"
  by (simp add: TryReadPackedNil_def write_defs nil_code peek_law skip_nil skip_quietly_def)

lemma try_nil_int: "TryReadPackedNil M (WritePackedInt64 M n @ r) = Ok (False, WritePackedInt64 M n @ r)"
  using int_size [of n] by (simp add: TryReadPackedNil_def write_defs peek_int)

lemma try_nil_string: "TryReadPackedNil M (WritePackedString M s @ r) = Ok (False, WritePackedString M s @ r)"
  using string_head [of s] by (simp add: TryReadPackedNil_def write_defs peek_string)

lemma try_int_string:
  "TryReadPackedIntWithDefault M d (WritePackedString M s @ r) = Ok (d, WritePackedString M s @ r)"
  using string_head [of s] by (simp add: TryReadPackedIntWithDefault_def write_defs peek_string)

lemma try_int_fixnum:
  assumes "- 32 \<le> sint n" "sint n \<le> 127"
  shows "TryReadPackedIntWithDefault M d (WritePackedInt64 M n @ r) = Ok (if 0 \<le> sint n then n else n + 256, r)"
proof -
  have e: "enc_int M n = [ucast n]" using assms by (rule int_fixnum)
  have "(ucast (ucast n :: byte) :: 64 word) = (if 0 \<le> sint n then n else n + 256)"
  proof (rule word_uint_eq_iff [THEN iffD2])
    have "uint n = sint n mod 2 ^ 64" by (simp add: uint_sint take_bit_eq_mod)
    then have "uint (ucast n :: byte) = sint n mod 256"
      by (simp add: uint_up_ucast unsigned_ucast_eq take_bit_eq_mod mod_mod_cancel)
    moreover have "uint (ucast (b :: byte) :: 64 word) = uint b" for b by (rule uint_up_ucast) (simp add: is_up)
    ultimately have u: "uint (ucast (ucast n :: byte) :: 64 word) = sint n mod 256" by (simp only:)
    have w: "n + 256 = word_of_int (sint n + 256)" by simp
    show "uint (ucast (ucast n :: byte) :: 64 word) = uint (if 0 \<le> sint n then n else n + 256)"
    proof (cases "0 \<le> sint n")
      case True
      then show ?thesis using u assms by (simp add: uint_sint take_bit_eq_mod)
    next
      case False
      then have "uint (n + 256) = sint n + 256"
        using assms by (simp only: w) (simp add: unsigned_of_int take_bit_int_eq_self del: of_int_add)
      moreover have "(sint n + 256) mod 256 = sint n + 256"
        using False assms by (intro mod_pos_pos_trivial) auto
      ultimately show ?thesis using u False by simp
    qed
  qed
  moreover have "IsFixedNum (ucast n)" using assms by (intro fixnum_cases) auto
  moreover have "dec_skip M ([ucast n] @ r) = Ok r" using skip_int [of n r] by (simp only: e)
  ultimately show ?thesis using e by (simp add: TryReadPackedIntWithDefault_def write_defs peek_law skip_quietly_def)
qed

lemma read_write_timestamp:
  assumes "- (2 ^ 47) \<le> sint (time_UnixMilli t)" "sint (time_UnixMilli t) < 2 ^ 47"
  shows "ReadPackedTimestamp M (WritePackedTimestamp M t @ r) =
    Ok (\<lparr>t_unix = sint (time_UnixMilli t) sdiv 1000, t_nsec = 0, t_off = 0\<rparr>, r)"
  using timestamp_of_raw_shifted [OF assms] by (simp add: ReadPackedTimestamp_def WritePackedTimestamp_def codec_simps)

end

lemma millis_sdiv:
  assumes "0 \<le> m" "m < (1000 :: int)"
  shows "(s * 1000 + m) sdiv 1000 = (if 0 \<le> s \<or> m = 0 then s else s + 1)"
proof (cases "0 \<le> s")
  case True
  then have "\<bar>s * 1000 + m\<bar> = s * 1000 + m" using assms by simp
  then show ?thesis using True assms by (simp add: signed_divide_int_def sgn_if)
next
  case False
  then have neg: "s * 1000 + m < 0" using assms by linarith
  then have "\<bar>s * 1000 + m\<bar> div 1000 = (- m + (- s) * 1000) div 1000" by simp
  also have "\<dots> = - s + - m div 1000" by (rule div_mult_self1) simp
  also have "- m div 1000 = (if m = 0 then 0 else - 1)"
    using assms zdiv_zminus1_eq_if [of 1000 m] by simp
  finally show ?thesis using False neg by (simp add: signed_divide_int_def)
qed

subsection \<open>Properties\<close>

text \<open>Every value the client writes as MessagePack (numbers, strings, byte arrays, UUIDs) is read back by
  the matching reader, which leaves exactly what follows it.\<close>

theorem packed_values_roundtrip:
  assumes "msgpack_codec M" and "wf_uuid u" and "length s < 2 ^ 32" and "length b < 2 ^ 32"
  shows "ReadPackedInt64 M (WritePackedInt64 M n @ r) = Ok (n, r) \<and>
    ReadPackedString M (WritePackedString M s @ r) = Ok (s, r) \<and>
    ReadPackedBytes M (WritePackedBytes M b @ r) = Ok (b, r) \<and>
    ReadPackedUUID M (WritePackedUUID M u @ r) = Ok (u, r) \<and>
    ReadPackedInt64String M (WritePackedInt64 M n @ WritePackedString M s @ r) = Ok ((n, s), r) \<and>
    TryReadPackedNil M (WritePackedNull M @ r) = Ok (True, r)"
  using msgpack_codec.read_write_int64 [OF assms(1)] msgpack_codec.read_write_string [OF assms(1,3)]
    msgpack_codec.read_write_bytes [OF assms(1,4)] msgpack_codec.read_write_uuid [OF assms(1,2)]
    msgpack_codec.try_nil [OF assms(1)] msgpack_codec.int64_law [OF assms(1)] msgpack_codec.string_law [OF assms(1,3)]
  by (simp add: ReadPackedInt64String_def) (simp add: write_defs)

theorem packed_values_roundtrip_witness:
  "ReadPackedInt64 ref_codec (WritePackedInt64 ref_codec 7 @ [1]) = Ok (7, [1]) \<and>
    ReadPackedString ref_codec (WritePackedString ref_codec ''a'' @ [1]) = Ok (''a'', [1]) \<and>
    ReadPackedBytes ref_codec (WritePackedBytes ref_codec [2] @ [1]) = Ok ([2], [1]) \<and>
    ReadPackedUUID ref_codec (WritePackedUUID ref_codec (replicate 16 3) @ [1]) = Ok (replicate 16 3, [1]) \<and>
    ReadPackedInt64String ref_codec (WritePackedInt64 ref_codec 7 @ WritePackedString ref_codec ''a'' @ [1]) = Ok ((7, ''a''), [1]) \<and>
    TryReadPackedNil ref_codec (WritePackedNull ref_codec @ [1]) = Ok (True, [1])"
  by (rule packed_values_roundtrip [OF ref.msgpack_codec_axioms]) (simp_all add: wf_uuid_def)

text \<open>A timestamp loses its fraction on the way through the protocol: what is read back has no
  nanoseconds, and its second is the written one, or the next one for an instant before 1970 that has
  milliseconds.\<close>

theorem timestamp_loses_fraction:
  assumes "msgpack_codec M" and "wf_time t" and "- (2 ^ 37) \<le> t_unix t" and "t_unix t < 2 ^ 37"
  shows "ReadPackedTimestamp M (WritePackedTimestamp M t @ r) =
    Ok (\<lparr>t_unix = (if 0 \<le> t_unix t \<or> t_nsec t < 1000000 then t_unix t else t_unix t + 1), t_nsec = 0, t_off = 0\<rparr>, r)"
proof -
  define m where "m = t_nsec t div 1000000"
  have m: "0 \<le> m" "m < 1000" "m = 0 \<longleftrightarrow> t_nsec t < 1000000"
    using assms(2) by (auto simp: m_def wf_time_def)
  have "sint (time_UnixMilli t) = t_unix t * 1000 + m"
    using m assms(3,4) unfolding time_UnixMilli_def m_def [symmetric]
    by (simp add: signed_of_int signed_take_bit_int_eq_self del: of_int_add of_int_mult)
  then show ?thesis using msgpack_codec.read_write_timestamp [OF assms(1), of t r] m assms(3,4)
    by (simp add: millis_sdiv)
qed

theorem timestamp_loses_fraction_witness:
  "ReadPackedTimestamp ref_codec (WritePackedTimestamp ref_codec \<lparr>t_unix = -5, t_nsec = 250000000, t_off = 0\<rparr> @ []) =
    Ok (\<lparr>t_unix = (if 0 \<le> t_unix \<lparr>t_unix = -5, t_nsec = 250000000, t_off = 0\<rparr> \<or>
                      t_nsec \<lparr>t_unix = -5, t_nsec = 250000000, t_off = 0\<rparr> < 1000000
                   then t_unix \<lparr>t_unix = -5, t_nsec = 250000000, t_off = 0\<rparr>
                   else t_unix \<lparr>t_unix = -5, t_nsec = 250000000, t_off = 0\<rparr> + 1), t_nsec = 0, t_off = 0\<rparr>, [])"
  by (rule timestamp_loses_fraction [OF ref.msgpack_codec_axioms]) (simp_all add: wf_time_def)

end
