(* ===== verification/Protocol.thy ===== *)
theory Protocol
  imports PackedIO
begin

text \<open>
  The frames of the protocol (request*.go, response*.go, operations.go). A request is the bytes its
  \<^verbatim>\<open>WriteTo\<close> writes on the connection; a response's \<^verbatim>\<open>ReadFrom\<close> takes the bytes that arrive.
\<close>

subsection \<open>Operation codes\<close>

abbreviation (input) OpHeartbeat :: "8 word" where "OpHeartbeat \<equiv> 1"
abbreviation (input) OpTablesGet :: "16 word" where "OpTablesGet \<equiv> 3"
abbreviation (input) OpTableGet :: "16 word" where "OpTableGet \<equiv> 4"
abbreviation (input) OpSchemaGet :: "16 word" where "OpSchemaGet \<equiv> 5"
abbreviation (input) OpTupleUpsertAll :: "16 word" where "OpTupleUpsertAll \<equiv> 13"
abbreviation (input) OpTupleDeleteAll :: "16 word" where "OpTupleDeleteAll \<equiv> 29"
abbreviation (input) OpSqlExecute :: "16 word" where "OpSqlExecute \<equiv> 50"
abbreviation (input) OpSqlCursorNextPage :: "16 word" where "OpSqlCursorNextPage \<equiv> 51"
abbreviation (input) OpSqlCursorClose :: "16 word" where "OpSqlCursorClose \<equiv> 52"

subsection \<open>Requests\<close>

definition RequestOperation_WriteTo :: "msgpack \<Rightarrow> 16 word \<Rightarrow> 64 word \<Rightarrow> byte list \<Rightarrow> byte list" where
  "RequestOperation_WriteTo M Code RequestId SpecificData =
     (let buf = WritePackedInt64 M (scast Code) @ WritePackedInt64 M RequestId
      in WriteRawInt32 (word_of_nat (length buf + length SpecificData)) @ (buf @ SpecificData))"

definition RequestHeartbeat_WriteTo :: "msgpack \<Rightarrow> 64 word \<Rightarrow> byte list" where
  "RequestHeartbeat_WriteTo M UID =
     WriteRawInt32 2 @ WritePackedInt64 M (scast OpHeartbeat) @ WritePackedInt64 M UID"

definition MAGIC_BYTES :: "byte list" where
  "MAGIC_BYTES = [0x49, 0x47, 0x4E, 0x49]"

text \<open>The authentication map, and the handshake; \<open>iter\<close> is the order in which the map is visited.\<close>

definition authInfo :: "string \<Rightarrow> string \<Rightarrow> (string \<times> string) list" where
  "authInfo username password =
     [(''authn-identity'', username), (''authn-secret'', password), (''authn-type'', ''basic'')]"

definition RequestHandshake_WriteTo ::
  "msgpack \<Rightarrow> ((string \<times> string) list \<Rightarrow> (string \<times> string) list) \<Rightarrow>
   int \<Rightarrow> int \<Rightarrow> int \<Rightarrow> string \<Rightarrow> string \<Rightarrow> byte list" where
  "RequestHandshake_WriteTo M iter major minor patch username password =
     (let features = [0x04];
          buffer = WritePackedByte (word_of_int major) @ WritePackedByte (word_of_int minor) @
                   WritePackedByte (word_of_int patch) @ WritePackedByte 2 @
                   WritePackedBytes M features @ WritePackedMap M (iter (authInfo username password))
      in WriteRawBytes MAGIC_BYTES @ WriteRawInt32 (word_of_nat (length buffer)) @ WriteRawBytes buffer)"

subsection \<open>Responses\<close>

text \<open>One step of a reader: read, wrap an error in its context, go on with the value and the rest.\<close>

definition readf :: "string \<Rightarrow> (byte list \<Rightarrow> ('a \<times> byte list) res) \<Rightarrow> byte list \<Rightarrow>
    ('a \<Rightarrow> byte list \<Rightarrow> 'c res) \<Rightarrow> 'c res" where
  "readf ctxt rd r k = rbind (wrap_err ctxt (rd r)) (\<lambda>(x, r). k x r)"

lemma readf_Ok: "rd r = Ok (x, r') \<Longrightarrow> readf ctxt rd r k = k x r'"
  by (simp add: readf_def)

lemma readf_Ok_iff: "readf ctxt rd r k = Ok y \<longleftrightarrow> (\<exists>x r'. rd r = Ok (x, r') \<and> k x r' = Ok y)"
  by (auto simp: readf_def split: prod.splits)

lemma readf_cong [fundef_cong]:
  "rd r = rd' r' \<Longrightarrow> (\<And>x s. rd' r' = Ok (x, s) \<Longrightarrow> k x s = k' x s) \<Longrightarrow> readf c rd r k = readf c rd' r' k'"
  by (cases "rd' r'") (auto simp: readf_def)

text \<open>The frame: a signed length, then that many bytes. The value is the payload and the count returned.\<close>

definition response_ReadFrom :: "byte list \<Rightarrow> ((byte list \<times> int) \<times> byte list) res" where
  "response_ReadFrom rr =
     readf ''failed to read response length'' (read_full 4) rr (\<lambda>b rr.
       let l = sint (word_of_nat (be_nat b) :: 32 word)
       in if l < 0 then Panic MakeSliceLen
          else readf ''failed to read response data'' (read_full (nat l)) rr (\<lambda>b rr. Ok ((b, 4 + l), rr)))"

record response_operation =
  ro_RequestId :: "64 word"
  Flags :: "32 word"
  ObsTs :: gotime
  Code :: "64 word"
  ErrUuid :: uuid
  Message :: string
  Details :: string
  ro_message :: "byte list"

definition FlagPartitionAssignmentChanged :: "'a::len word" where "FlagPartitionAssignmentChanged = 1"
definition FlagError :: "'a::len word" where "FlagError = 4"

definition NewResponseOperation :: "64 word \<Rightarrow> response_operation" where
  "NewResponseOperation uid =
     \<lparr>ro_RequestId = uid, Flags = 0, ObsTs = zero_time, Code = 0, ErrUuid = replicate 16 0,
      Message = [], Details = [], ro_message = []\<rparr>"

definition wrong_id :: "int \<Rightarrow> int \<Rightarrow> gerror" where
  "wrong_id got expected =
     Errorf (''invalid request ID: got '' @ int_text got @ '', but expected '' @ int_text expected)"

definition ResponseOperation_ReadFrom ::
  "msgpack \<Rightarrow> response_operation \<Rightarrow> byte list \<Rightarrow> response_operation res" where
  "ResponseOperation_ReadFrom M ro rr =
     readf ''failed to read operation response'' response_ReadFrom rr (\<lambda>(msg, n) rr.
     readf ''failed to read operation response id'' (ReadPackedInt64 M) msg (\<lambda>rid msg.
     readf ''failed to read flags'' (ReadPackedInt64 M) msg (\<lambda>flags msg.
     let ro = ro\<lparr>Flags := ucast flags\<rparr>;
         rest = (\<lambda>msg.
           readf ''failed to read observable timestamp'' (ReadPackedTimestamp M) msg (\<lambda>ts msg.
           let ro = ro\<lparr>ObsTs := ts\<rparr>
           in if rid \<noteq> ro_RequestId ro then Err (wrong_id (sint rid) (sint (ro_RequestId ro)))
              else if flags AND FlagError = FlagError
              then readf ''failed to read error uuid'' (ReadPackedUUID M) msg (\<lambda>u msg.
                   readf ''failed to read error code'' (ReadPackedInt64 M) msg (\<lambda>c msg.
                   readf ''failed to read error message'' (ReadPackedString M) msg (\<lambda>m msg.
                   readf ''failed to read error details'' (ReadPackedString M) msg (\<lambda>d msg.
                     Ok (ro\<lparr>ErrUuid := u, Code := c, Message := m, Details := d, ro_message := msg\<rparr>)))))
              else Ok (ro\<lparr>ro_message := msg\<rparr>)))
     in if flags AND FlagPartitionAssignmentChanged = FlagPartitionAssignmentChanged
        then readf ''failed to read partition changed timestamp'' (ReadPackedTimestamp M) msg (\<lambda>_ msg. rest msg)
        else rest msg)))"

definition CheckStatus :: "response_operation \<Rightarrow> gerror option" where
  "CheckStatus ro =
     (if Flags ro AND FlagError = FlagError
      then Some (NewError (ucast (Code ro)) (Message ro @ '' : '' @ Details ro)) else None)"

record response_heartbeat =
  rh_UID :: "64 word"
  Status :: "32 word"
  UnknownData :: "64 word"

definition NewResponseHeartbeat :: "64 word \<Rightarrow> response_heartbeat" where
  "NewResponseHeartbeat uid = \<lparr>rh_UID = uid, Status = 0, UnknownData = 0\<rparr>"

definition ResponseHeartbeat_ReadFrom ::
  "msgpack \<Rightarrow> response_heartbeat \<Rightarrow> byte list \<Rightarrow> response_heartbeat res" where
  "ResponseHeartbeat_ReadFrom M rh rr =
     readf ''failed to read operation response'' response_ReadFrom rr (\<lambda>(msg, n) rr.
     readf ''failed to read operation response id'' (ReadPackedInt8 M) msg (\<lambda>uid msg.
     readf ''failed to read status code'' (ReadPackedInt8 M) msg (\<lambda>status msg.
     readf ''failed to read unkown data'' (ReadPackedInt64 M) msg (\<lambda>unknown msg.
     let rh = rh\<lparr>Status := scast status, UnknownData := unknown\<rparr>
     in if Status rh \<noteq> 0 then Err (Errorf ''failed to read error message'')
        else if scast uid \<noteq> rh_UID rh then Err (wrong_id (sint uid) (sint (rh_UID rh)))
        else Ok rh))))"

definition Heartbeat_CheckStatus :: "response_heartbeat \<Rightarrow> gerror option" where
  "Heartbeat_CheckStatus rh = (if Status rh \<noteq> 0 then Some (NewError (Status rh) []) else None)"

text \<open>A small integer that went through an int64 and a narrower signed type.\<close>

lemma sint_of_int64: "int_in 64 i \<Longrightarrow> sint (word_of_int i :: 64 word) = i"
  by (simp add: int_in_def signed_of_int signed_take_bit_int_eq_self)

lemma sint_ucast_of_int:
  assumes "int_in LENGTH('a::len) i" and "LENGTH('a) < 64"
  shows "sint (ucast (word_of_int i :: 64 word) :: 'a word) = i"
proof -
  have s: "sint (word_of_int i :: 64 word) = i"
    using int_in_mono [OF _ assms(1), of 64] assms(2) by (intro sint_of_int64) simp
  have "(scast (ucast (word_of_int i :: 64 word) :: 'a word) :: 64 word) = word_of_int i"
    using assms s by (intro scast_ucast_in_range) simp_all
  moreover have "sint (scast (b :: 'a word) :: 64 word) = sint b" for b
    using assms(2) by (intro sint_up_scast) (simp add: is_up)
  ultimately show ?thesis using s by metis
qed

subsection \<open>Framing\<close>

lemma sint_length_word: "n < 2 ^ 31 \<Longrightarrow> sint (word_of_nat n :: 32 word) = int n"
  by (simp add: signed_of_nat signed_take_bit_int_eq_self)

lemma read_length: "read_full 4 (word_be (w :: 32 word) @ r) = Ok (word_be w, r)"
  by (simp add: read_full_append)

lemma word_of_word_be: "(word_of_nat (be_nat (word_be (w :: 32 word))) :: 32 word) = w"
  by (simp add: codec_simps)

lemma frame_roundtrip:
  assumes "length p < 2 ^ 31"
  shows "response_ReadFrom (WriteRawInt32 (word_of_nat (length p)) @ p @ rest) = Ok ((p, 4 + int (length p)), rest)"
  using sint_length_word [OF assms]
  by (simp add: response_ReadFrom_def readf_def write_defs read_length word_of_word_be read_full_append)

lemma frame_negative:
  assumes "sint (w :: 32 word) < 0"
  shows "response_ReadFrom (word_be w @ rest) = Panic MakeSliceLen"
  using assms by (simp add: response_ReadFrom_def readf_def read_length word_of_word_be)

lemma frame_truncated:
  assumes "length p < 2 ^ 31" "length q < length p"
  shows "\<exists>e. response_ReadFrom (word_be (word_of_nat (length p) :: 32 word) @ q) = Err e"
  using assms sint_length_word [OF assms(1)]
  by (auto simp: response_ReadFrom_def readf_def read_length word_of_word_be read_full_def)

text \<open>What an operation request frames: the code, the request id and the operation's data.\<close>

definition request_payload :: "msgpack \<Rightarrow> 16 word \<Rightarrow> 64 word \<Rightarrow> byte list \<Rightarrow> byte list" where
  "request_payload M code rid data = WritePackedInt64 M (scast code) @ WritePackedInt64 M rid @ data"

lemma RequestOperation_frame:
  "RequestOperation_WriteTo M code rid data =
     WriteRawInt32 (word_of_nat (length (request_payload M code rid data))) @ request_payload M code rid data"
  by (simp add: RequestOperation_WriteTo_def request_payload_def Let_def add.assoc)

text \<open>A server's reply to an operation, as the client expects it.\<close>

definition reply_payload :: "msgpack \<Rightarrow> 64 word \<Rightarrow> 64 word \<Rightarrow> gotime \<Rightarrow> gotime \<Rightarrow> byte list \<Rightarrow> byte list" where
  "reply_payload M rid flags pcts ts body =
     WritePackedInt64 M rid @ WritePackedInt64 M flags @
     (if flags AND FlagPartitionAssignmentChanged = FlagPartitionAssignmentChanged
      then WritePackedTimestamp M pcts else []) @ WritePackedTimestamp M ts @ body"

definition error_body :: "msgpack \<Rightarrow> uuid \<Rightarrow> 64 word \<Rightarrow> string \<Rightarrow> string \<Rightarrow> byte list" where
  "error_body M u c m d =
     WritePackedUUID M u @ WritePackedInt64 M c @ WritePackedString M m @ WritePackedString M d"

definition frame :: "byte list \<Rightarrow> byte list" where
  "frame p = WriteRawInt32 (word_of_nat (length p)) @ p"

definition short_time :: "gotime \<Rightarrow> bool" where
  "short_time t \<longleftrightarrow> - (2 ^ 47) \<le> sint (time_UnixMilli t) \<and> sint (time_UnixMilli t) < 2 ^ 47"

definition read_time :: "gotime \<Rightarrow> gotime" where
  "read_time t = \<lparr>t_unix = sint (time_UnixMilli t) sdiv 1000, t_nsec = 0, t_off = 0\<rparr>"

lemma frame_read:
  "length p < 2 ^ 31 \<Longrightarrow> response_ReadFrom (frame p) = Ok ((p, 4 + int (length p)), [])"
  using frame_roundtrip [of p "[]"] by (simp add: frame_def)

lemma readf_frame:
  "length p < 2 ^ 31 \<Longrightarrow> readf c response_ReadFrom (frame p) k = k (p, 4 + int (length p)) []"
  by (simp add: readf_Ok frame_read)

context msgpack_codec
begin

lemma readf_int64 [simp]: "readf c (ReadPackedInt64 M) (WritePackedInt64 M n @ r) k = k n r"
  by (simp add: readf_Ok read_write_int64)

lemma readf_time [simp]:
  "short_time t \<Longrightarrow> readf c (ReadPackedTimestamp M) (WritePackedTimestamp M t @ r) k = k (read_time t) r"
  by (simp add: readf_Ok read_write_timestamp short_time_def read_time_def)

lemma readf_uuid [simp]: "wf_uuid u \<Longrightarrow> readf c (ReadPackedUUID M) (WritePackedUUID M u @ r) k = k u r"
  by (simp add: readf_Ok read_write_uuid)

lemma readf_string [simp]:
  "length s < 2 ^ 32 \<Longrightarrow> readf c (ReadPackedString M) (WritePackedString M s @ r) k = k s r"
  by (simp add: readf_Ok read_write_string)

lemma readf_bytes [simp]:
  "length b < 2 ^ 32 \<Longrightarrow> readf c (ReadPackedBytes M) (WritePackedBytes M b @ r) k = k b r"
  by (simp add: readf_Ok read_write_bytes)

lemma readf_int32 [simp]:
  "int_in 32 (sint n) \<Longrightarrow> readf c (ReadPackedInt32 M) (WritePackedInt64 M n @ r) k = k (ucast n) r"
  by (simp add: readf_Ok read_write_int32)

lemma readf_int8 [simp]: "readf c (ReadPackedInt8 M) (WritePackedInt64 M n @ r) k = k (ucast n) r"
  by (simp add: readf_Ok read_defs write_defs int8_law)

lemma readf_uint8 [simp]: "readf c (ReadPackedUint8 M) (WritePackedInt64 M n @ r) k = k (ucast n) r"
  by (simp add: readf_Ok read_defs write_defs uint8_law)

lemma readf_bool [simp]: "readf c (ReadPackedBool M) ((if v then 0xc3 else 0xc2) # r) k = k v r"
  by (rule readf_Ok) (simp add: read_defs bool_law)

lemma reply_wrong_id:
  assumes "short_time pcts" "short_time ts" "length (reply_payload M rid flags pcts ts body) < 2 ^ 31"
    "rid \<noteq> ro_RequestId ro"
  shows "ResponseOperation_ReadFrom M ro (frame (reply_payload M rid flags pcts ts body)) =
    Err (wrong_id (sint rid) (sint (ro_RequestId ro)))"
  using assms unfolding ResponseOperation_ReadFrom_def
  by (subst readf_frame) (simp_all add: reply_payload_def Let_def)

lemma reply_success:
  assumes "short_time pcts" "short_time ts" "length (reply_payload M rid flags pcts ts body) < 2 ^ 31"
    "rid = ro_RequestId ro" "flags AND FlagError \<noteq> FlagError"
  shows "ResponseOperation_ReadFrom M ro (frame (reply_payload M rid flags pcts ts body)) =
    Ok (ro\<lparr>Flags := ucast flags, ObsTs := read_time ts, ro_message := body\<rparr>)"
  using assms unfolding ResponseOperation_ReadFrom_def
  by (subst readf_frame) (simp_all add: reply_payload_def Let_def)

lemma reply_error:
  assumes "short_time pcts" "short_time ts"
    "length (reply_payload M rid flags pcts ts (error_body M u c m d)) < 2 ^ 31"
    "rid = ro_RequestId ro" "flags AND FlagError = FlagError"
    "wf_uuid u" "length m < 2 ^ 32" "length d < 2 ^ 32"
  shows "ResponseOperation_ReadFrom M ro (frame (reply_payload M rid flags pcts ts (error_body M u c m d))) =
    Ok (ro\<lparr>Flags := ucast flags, ObsTs := read_time ts, ErrUuid := u, Code := c, Message := m, Details := d,
           ro_message := []\<rparr>)"
proof -
  have s: "readf c' (ReadPackedString M) (WritePackedString M d) k = k d []" for c' and k :: "string \<Rightarrow> byte list \<Rightarrow> 'z res"
    using readf_string [OF assms(8), of c' "[]" k] by simp
  show ?thesis using assms(1-7) unfolding ResponseOperation_ReadFrom_def
    by (subst readf_frame) (simp_all add: reply_payload_def error_body_def Let_def s)
qed

end

lemma bit_4_iff: "bit (4 :: 'a::len word) n \<longleftrightarrow> n = 2 \<and> 2 < LENGTH('a)"
proof -
  have e: "(4 :: 'a word) = push_bit 2 1" by (simp add: push_bit_eq_mult)
  show ?thesis unfolding e bit_push_bit_iff by (cases "n = 2") (auto simp: bit_1_iff)
qed

lemma and_4_iff: "2 < LENGTH('a) \<Longrightarrow> (w AND 4 = 4) = bit (w :: 'a::len word) 2"
proof
  assume l: "2 < LENGTH('a)" and "w AND 4 = 4"
  then have "bit (w AND 4) 2" by (simp add: bit_4_iff)
  then show "bit w 2" by (simp add: bit_and_iff)
next
  assume w: "bit w 2"
  show "w AND 4 = 4"
  proof (rule bit_word_eqI)
    fix n
    show "bit (w AND 4) n = bit (4 :: 'a word) n"
      using w bit_4_iff [where 'a = 'a and n = n] by (cases "n = 2") (simp_all only: bit_and_iff simp_thms)
  qed
qed

lemma error_flag_ucast:
  "((ucast (flags :: 64 word) :: 32 word) AND FlagError = FlagError) = (flags AND FlagError = FlagError)"
  using and_4_iff [of "ucast flags :: 32 word"] and_4_iff [of flags] by (simp add: FlagError_def bit_simps)

subsection \<open>Properties\<close>

text \<open>The frame reader returns a payload exactly when the announced length is not negative and has
  arrived, reports a short stream as an error, and panics exactly on a negative length.\<close>

theorem response_ReadFrom_outcome:
  "(case response_ReadFrom rr of
      Panic p \<Rightarrow> 4 \<le> length rr \<and> 2 ^ 31 \<le> be_nat (take 4 rr)
    | Err e \<Rightarrow> length rr < 4 \<or> be_nat (take 4 rr) < 2 ^ 31 \<and> length rr < 4 + be_nat (take 4 rr)
    | Ok ((p, n), rest) \<Rightarrow> rr = take 4 rr @ p @ rest \<and> length (take 4 rr) = 4 \<and> length p = be_nat (take 4 rr) \<and>
        n = 4 + int (length p))"
proof (cases "length rr < 4")
  case True
  then show ?thesis by (auto simp: response_ReadFrom_def readf_def read_full_def)
next
  case False
  define n where "n = be_nat (take 4 rr)"
  have l: "n < 2 ^ 32" using be_nat_bound [of "take 4 rr"] False by (simp add: n_def)
  have r: "read_full 4 rr = Ok (take 4 rr, drop 4 rr)" using False by (simp add: read_full_def)
  show ?thesis
  proof (cases "n < 2 ^ 31")
    case True
    then have "sint (word_of_nat n :: 32 word) = int n" by (rule sint_length_word)
    moreover have "rr = take 4 rr @ take n (drop 4 rr) @ drop (n + 4) rr"
      by (metis append_take_drop_id drop_drop)
    moreover have "length rr = 4 \<Longrightarrow> be_nat rr = n" by (simp add: n_def)
    ultimately show ?thesis using True False
      by (auto simp: response_ReadFrom_def readf_def r Let_def read_full_def simp flip: n_def)
  next
    case big: False
    have "sint (word_of_nat n :: 32 word) < 0"
    proof -
      have "(word_of_int (int n) :: 32 word) = word_of_int (int n - 2 ^ 32)"
        by (simp only: word_of_int_eq_iff take_bit_eq_mod) simp
      then have "sint (word_of_nat n :: 32 word) = sint (word_of_int (int n - 2 ^ 32) :: 32 word)"
        by (simp del: of_int_diff)
      also have "\<dots> = int n - 2 ^ 32"
        using l big by (simp add: signed_of_int signed_take_bit_int_eq_self del: of_int_diff)
      finally show ?thesis using l by simp
    qed
    then show ?thesis using False big by (simp add: response_ReadFrom_def readf_def r Let_def flip: n_def)
  qed
qed

text \<open>An operation request is one frame, whatever follows it on the wire: a reader of frames gets its payload
  back, and the payload is the operation code, the request id and the operation's data.\<close>

theorem request_frame_roundtrip:
  assumes "msgpack_codec M" and "length data < 2 ^ 31 - 18"
  shows "\<exists>p n. response_ReadFrom (RequestOperation_WriteTo M code rid data @ rest) = Ok ((p, n), rest) \<and>
    readf c1 (ReadPackedInt64 M) p (\<lambda>code' p. readf c2 (ReadPackedInt64 M) p (\<lambda>rid' p. Ok (code', rid', p))) =
      Ok (scast code, rid, data)"
proof -
  let ?p = "request_payload M code rid data"
  have "msgpack_encoder M" using assms(1) by (simp add: msgpack_codec_def)
  then have "length (enc_int M (scast code)) \<le> 9" "length (enc_int M rid) \<le> 9"
    by (simp_all add: msgpack_encoder.int_length)
  then have "length ?p < 2 ^ 31" using assms(2) by (simp add: request_payload_def write_defs)
  then have "response_ReadFrom (RequestOperation_WriteTo M code rid data @ rest) = Ok ((?p, 4 + int (length ?p)), rest)"
    using frame_roundtrip by (simp add: RequestOperation_frame)
  then show ?thesis
    by (intro exI conjI) (assumption, simp add: request_payload_def msgpack_codec.readf_int64 [OF assms(1)])
qed

theorem request_frame_roundtrip_witness:
  "\<exists>p n. response_ReadFrom (RequestOperation_WriteTo ref_codec 13 5 [1, 2] @ [9]) = Ok ((p, n), [9]) \<and>
    readf [] (ReadPackedInt64 ref_codec) p (\<lambda>code' p. readf [] (ReadPackedInt64 ref_codec) p (\<lambda>rid' p. Ok (code', rid', p))) =
      Ok (scast (13 :: 16 word), 5, [1, 2])"
  by (rule request_frame_roundtrip [OF ref.msgpack_codec_axioms]) simp

text \<open>C32: what the client makes of a well-formed reply to an operation. A reply with another request id is an
  error that names both ids; otherwise the error flag decides: an error reply is reported with the server's
  code, message and details, any other reply is a success whose body is left to be read. A notice of changed
  partitions is skipped either way.\<close>

theorem operation_reply_outcome:
  assumes "msgpack_codec M" and "short_time pcts" and "short_time ts" and "wf_uuid u"
    and "length m < 2 ^ 32" and "length d < 2 ^ 32"
    and "body = (if flags AND 4 = 4 then error_body M u c m d else extra)"
    and "length (reply_payload M rid flags pcts ts body) < 2 ^ 31"
  shows "(case ResponseOperation_ReadFrom M (NewResponseOperation expected) (frame (reply_payload M rid flags pcts ts body)) of
      Ok ro \<Rightarrow> rid = expected \<and>
        CheckStatus ro = (if flags AND 4 = 4 then Some (NewError (ucast c) (m @ '' : '' @ d)) else None) \<and>
        (flags AND 4 \<noteq> 4 \<longrightarrow> ro_message ro = extra)
    | Err e \<Rightarrow> rid \<noteq> expected \<and> e = wrong_id (sint rid) (sint expected)
    | Panic p \<Rightarrow> False)"
proof (cases "rid = expected")
  case False
  then show ?thesis using msgpack_codec.reply_wrong_id [OF assms(1-3,8)] by (simp add: NewResponseOperation_def)
next
  case True
  have ro_id: "ro_RequestId (NewResponseOperation expected) = expected" by (simp add: NewResponseOperation_def)
  note fl = error_flag_ucast [of flags]
  show ?thesis
  proof (cases "flags AND 4 = 4")
    case e: True
    then have b: "body = error_body M u c m d" using assms(7) by simp
    show ?thesis using msgpack_codec.reply_error [OF assms(1-3) assms(8) [unfolded b] _ _ assms(4-6),
          where ro = "NewResponseOperation expected"] True e fl
      by (simp add: b CheckStatus_def ro_id FlagError_def)
  next
    case e: False
    then have b: "body = extra" using assms(7) by simp
    show ?thesis using msgpack_codec.reply_success [OF assms(1-3,8), where ro = "NewResponseOperation expected"] True e fl
      by (simp add: b CheckStatus_def ro_id FlagError_def)
  qed
qed

theorem operation_reply_outcome_witness:
  "(case ResponseOperation_ReadFrom ref_codec (NewResponseOperation 5)
      (frame (reply_payload ref_codec 5 4 zero_time zero_time (error_body ref_codec (replicate 16 1) 9 ''m'' ''d''))) of
      Ok ro \<Rightarrow> 5 = (5 :: 64 word) \<and>
        CheckStatus ro = (if (4 :: 64 word) AND 4 = 4 then Some (NewError (ucast (9 :: 64 word)) (''m'' @ '' : '' @ ''d'')) else None) \<and>
        ((4 :: 64 word) AND 4 \<noteq> 4 \<longrightarrow> ro_message ro = [])
    | Err e \<Rightarrow> 5 \<noteq> (5 :: 64 word) \<and> e = wrong_id (sint (5 :: 64 word)) (sint (5 :: 64 word))
    | Panic p \<Rightarrow> False)"
proof -
  have z: "short_time zero_time"
    by (simp add: short_time_def time_UnixMilli_def zero_time_def)
  show ?thesis
  proof (rule operation_reply_outcome [OF ref.msgpack_codec_axioms z z])
    show "length (reply_payload ref_codec 5 4 zero_time zero_time (error_body ref_codec (replicate 16 1) 9 ''m'' ''d'')) < 2 ^ 31"
      using ref.int_length(2) [of 5] ref.int_length(2) [of 4] ref.int_length(2) [of 9] ref.int_length(2) [of "time_UnixMilli zero_time * 256 * 256"]
      by (simp add: reply_payload_def error_body_def write_defs WritePackedTimestamp_def WritePackedUUID_def
          ref.ext16 FlagPartitionAssignmentChanged_def uuid_MarshalMsgpack_def uuid_Flip_def Let_def swap_def)
        (simp add: ref_codec_def mp_enc_string_def Let_def)
  qed (simp_all add: wf_uuid_def)
qed

text \<open>The heartbeat request announces two bytes whatever its id: a reader of frames is left with nothing
  exactly for ids that are MessagePack fixnums (-32 to 127); for every other id the tail of the id stays on the
  wire as the start of the next frame.\<close>

theorem heartbeat_frame_length:
  assumes "msgpack_codec M"
  shows "\<exists>p n rest. response_ReadFrom (RequestHeartbeat_WriteTo M uid) = Ok ((p, n), rest) \<and>
    (rest = [] \<longleftrightarrow> - 32 \<le> sint uid \<and> sint uid \<le> 127) \<and> rest = tl (WritePackedInt64 M uid)"
proof -
  have M: "msgpack_encoder M" using assms by (simp add: msgpack_codec_def)
  have one: "enc_int M 1 = [1]" using msgpack_encoder.int_fixnum [OF M, of 1] by simp
  obtain b t where e: "enc_int M uid = b # t" using msgpack_encoder.int_not_Nil [OF M, of uid] by (cases "enc_int M uid") auto
  have "t = [] \<longleftrightarrow> - 32 \<le> sint uid \<and> sint uid \<le> 127"
    using msgpack_encoder.int_fixnum [OF M, of uid] msgpack_encoder.int_wide [OF M, of uid] e by fastforce
  moreover have "response_ReadFrom (WriteRawInt32 (word_of_nat (length [1, b])) @ [1, b] @ t) = Ok (([1, b], 4 + int (length [1, b])), t)"
    by (rule frame_roundtrip) simp
  ultimately show ?thesis by (simp add: RequestHeartbeat_WriteTo_def WritePackedInt64_def one e)
qed

theorem heartbeat_frame_length_witness:
  "\<exists>p n rest. response_ReadFrom (RequestHeartbeat_WriteTo ref_codec 200) = Ok ((p, n), rest) \<and>
    (rest = [] \<longleftrightarrow> - 32 \<le> sint (200 :: 64 word) \<and> sint (200 :: 64 word) \<le> 127) \<and> rest = tl (WritePackedInt64 ref_codec 200)"
  by (rule heartbeat_frame_length [OF ref.msgpack_codec_axioms])

text \<open>The client's view of a heartbeat answer: the echo of the id is read as an \<^verbatim>\<open>int8\<close>.\<close>

lemma heartbeat_reply:
  assumes "msgpack_codec M" and "reply = WritePackedInt64 M uid @ WritePackedInt64 M 0 @ WritePackedInt64 M x"
  shows "ResponseHeartbeat_ReadFrom M (NewResponseHeartbeat uid) (frame reply) =
    (if - 128 \<le> sint uid \<and> sint uid \<le> 127 then Ok \<lparr>rh_UID = uid, Status = 0, UnknownData = x\<rparr>
     else Err (wrong_id (sint (ucast uid :: 8 word)) (sint uid)))"
proof -
  have M: "msgpack_encoder M" using assms(1) by (simp add: msgpack_codec_def)
  have "length (enc_int M uid) \<le> 9" "length (enc_int M 0) \<le> 9" "length (enc_int M x) \<le> 9"
    by (simp_all add: msgpack_encoder.int_length [OF M])
  then have l: "length reply < 2 ^ 31" by (simp add: assms(2) write_defs)
  have k: "readf c (ReadPackedInt64 M) (WritePackedInt64 M x) f = f x []" for c and f :: "64 word \<Rightarrow> byte list \<Rightarrow> 'z res"
    using msgpack_codec.readf_int64 [OF assms(1), of c x "[]" f] by simp
  have "((scast (ucast uid :: 8 word) :: 64 word) = uid) = (- 128 \<le> sint uid \<and> sint uid \<le> 127)"
  proof
    assume e: "(scast (ucast uid :: 8 word) :: 64 word) = uid"
    have "sint (scast (ucast uid :: 8 word) :: 64 word) = sint (ucast uid :: 8 word)"
      by (rule sint_up_scast) (simp add: is_up)
    moreover have "- 128 \<le> sint (ucast uid :: 8 word) \<and> sint (ucast uid :: 8 word) \<le> 127"
      using sint_range_size [of "ucast uid :: 8 word"] by (simp add: size_word.rep_eq)
    ultimately show "- 128 \<le> sint uid \<and> sint uid \<le> 127" using e by simp
  next
    assume "- 128 \<le> sint uid \<and> sint uid \<le> 127"
    then show "(scast (ucast uid :: 8 word) :: 64 word) = uid" by (intro scast_ucast_in_range) (simp_all add: int_in_def)
  qed
  then show ?thesis unfolding ResponseHeartbeat_ReadFrom_def readf_frame [OF l] prod.case unfolding assms(2)
    by (simp add: msgpack_codec.readf_int8 [OF assms(1)] k NewResponseHeartbeat_def)
qed

end
