(* ===== verification/DateTimeCodec.thy ===== *)
theory DateTimeCodec
  imports Values
begin

text \<open>
  Dates, times of day and timestamps as bit fields (tuple.go): \<^verbatim>\<open>encodeDate\<close> and \<^verbatim>\<open>encodeTime\<close>, shared
  by both write paths, and the readers \<^verbatim>\<open>decodeDate\<close>, \<^verbatim>\<open>decodeTime\<close> and \<^verbatim>\<open>decodeTimestamp\<close>. The lemmas
  give every field of what is written and of what is read back.
\<close>

subsection \<open>The writers\<close>

definition encodeDate :: "int \<Rightarrow> int \<Rightarrow> int \<Rightarrow> byte list res" where
  "encodeDate year month day =
     (if month < 1 \<or> 12 < month then Err (Errorf ''Month out of range'')
      else if day < 1 \<or> 31 < day then Err (Errorf ''Day out of range'')
      else if year < -16384 \<or> 16383 < year then Err (Errorf ''Year out of 15-bit signed range'')
      else let y = (if year < 0 then word_of_int (2 ^ 15 + year) else word_of_int year) :: 32 word;
               v = ((word_of_int day AND 0x1F) OR push_bit 5 (word_of_int month AND 0x0F))
                   OR push_bit 9 (y AND 0x7FFF)
           in Ok [ucast (v AND 0xFF), ucast (drop_bit 8 v AND 0xFF), ucast (drop_bit 16 v AND 0xFF)])"

definition encodeTime :: "int \<Rightarrow> int \<Rightarrow> int \<Rightarrow> int \<Rightarrow> byte list res" where
  "encodeTime hour minute second nsec =
     (if hour < 0 \<or> 23 < hour then Err (Errorf ''Hour out of range'')
      else if minute < 0 \<or> 59 < minute then Err (Errorf ''Minute out of range'')
      else if second < 0 \<or> 59 < second then Err (Errorf ''Second out of range'')
      else if nsec < 0 \<or> 999999999 < nsec then Err (Errorf ''Nanosec out of range'')
      else let v = 0 :: 64 word;
               shift = 0;
               v = v OR push_bit shift (word_of_int nsec);
               shift = shift + 30;
               v = v OR push_bit shift (word_of_int second AND 0x3F);
               shift = shift + 6;
               v = v OR push_bit shift (word_of_int minute AND 0x3F);
               shift = shift + 6;
               v = v OR push_bit shift (word_of_int hour AND 0x1F)
           in Ok (map (\<lambda>i. ucast (drop_bit (8 * i) v AND 0xFF)) [0..<6]))"

subsection \<open>The readers\<close>

text \<open>
  \<^verbatim>\<open>binary.LittleEndian.Uint32\<close> and \<^verbatim>\<open>Uint64\<close> read a prefix and panic when it is too short;
  \<open>last_bytes k raw\<close> is the copying loop of \<^verbatim>\<open>decodeTime\<close>, from the last byte down.
\<close>

definition le_uint :: "nat \<Rightarrow> byte list \<Rightarrow> 'a::len word res" where
  "le_uint k raw = (if length raw < k then Panic IndexOutOfRange else Ok (word_of_nat (le_nat (take k raw))))"

definition last_bytes :: "nat \<Rightarrow> byte list \<Rightarrow> byte list res" where
  "last_bytes k raw = rmap rev (mapR (\<lambda>j. index_at raw (int (length raw) - 1 - int j)) [0..<k])"

definition decodeDate :: "byte list \<Rightarrow> gotime res" where
  "decodeDate raw =
     rbind (mapR (\<lambda>i. index_at raw (int i)) [0..<3]) (\<lambda>raw3.
       let u = word_of_nat (le_nat (raw3 @ [0])) :: 32 word;
           day = u AND 0x1F;
           mon = drop_bit 5 u AND 0xF;
           year = drop_bit 9 u AND 0x7FFF
       in Ok (time_Date (uint year) (uint mon) (uint day) 0 0 0 0))"

abbreviation (input) Microsecond :: int where "Microsecond \<equiv> 1000"
abbreviation (input) Millisecond :: int where "Millisecond \<equiv> 1000000"
abbreviation (input) Second :: int where "Second \<equiv> 1000000000"
abbreviation (input) Minute :: int where "Minute \<equiv> 60000000000"
abbreviation (input) Hour :: int where "Hour \<equiv> 3600000000000"

definition decodeTime :: "byte list \<Rightarrow> int \<Rightarrow> gotime res" where
  "decodeTime raw precision =
     (if precision = 6 \<or> precision = 0
      then rbind (last_bytes 4 raw) (\<lambda>b.
        let u = word_of_nat (le_nat b) :: 32 word;
            tm = time_Add zero_time (uint (u AND 0x3FF) * Millisecond);
            tm = time_Add tm (uint (drop_bit 10 u AND 0x3F) * Second);
            tm = time_Add tm (uint (drop_bit 16 u AND 0x3F) * Minute);
            tm = time_Add tm (uint (drop_bit 22 u AND 0x1F) * Hour)
        in Ok tm)
      else if precision = 9
      then rbind (last_bytes 5 raw) (\<lambda>b.
        let u = word_of_nat (le_nat (b @ [0, 0, 0])) :: 64 word;
            tm = time_Add zero_time (uint (u AND 0xFFFFF) * Microsecond);
            tm = time_Add tm (uint (drop_bit 20 u AND 0x3F) * Second);
            tm = time_Add tm (uint (drop_bit 26 u AND 0x3F) * Minute);
            tm = time_Add tm (uint (drop_bit 32 u AND 0x1F) * Hour)
        in Ok tm)
      else if precision = 12
      then rbind (last_bytes 6 raw) (\<lambda>b.
        let u = word_of_nat (le_nat (b @ [0, 0])) :: 64 word;
            tm = time_Add zero_time (uint (u AND 0x3FFFFFFF) * Microsecond);
            tm = time_Add tm (uint (drop_bit 30 u AND 0x3F) * Second);
            tm = time_Add tm (uint (drop_bit 36 u AND 0x3F) * Minute);
            tm = time_Add tm (uint (drop_bit 42 u AND 0x1F) * Hour)
        in Ok tm)
      else Err (Errorf (''Precision not supported: '' @ int_text precision)))"

definition decodeTimestamp :: "(int \<Rightarrow> int) \<Rightarrow> byte list \<Rightarrow> gotime res" where
  "decodeTimestamp loc raw =
     rbind (le_uint 8 raw) (\<lambda>ts :: 64 word.
     rbind (le_uint 4 (drop 8 raw)) (\<lambda>nsec :: 32 word.
       Ok (time_Unix loc (sint ts) (uint nsec))))"

subsection \<open>Fields of a word\<close>

lemma and_mask_unat:
  "unat ((w :: 'a::len word) AND 0x1F) = unat w mod 2 ^ 5" "unat (w AND 0xF) = unat w mod 2 ^ 4"
  "unat (w AND 0x3F) = unat w mod 2 ^ 6" "unat (w AND 0xFF) = unat w mod 2 ^ 8"
  "unat (w AND 0x3FF) = unat w mod 2 ^ 10" "unat (w AND 0x7FFF) = unat w mod 2 ^ 15"
  "unat (w AND 0xFFFFF) = unat w mod 2 ^ 20" "unat (w AND 0x3FFFFFFF) = unat w mod 2 ^ 30"
proof -
  have m: "unat (w AND mask n) = unat w mod 2 ^ n" for n
    unfolding take_bit_eq_mask [symmetric] unsigned_take_bit_eq take_bit_eq_mod [where 'a = nat] by (rule refl)
  have n: "(0x1F :: 'a word) = mask 5" "(0xF :: 'a word) = mask 4" "(0x3F :: 'a word) = mask 6"
    "(0xFF :: 'a word) = mask 8" "(0x3FF :: 'a word) = mask 10" "(0x7FFF :: 'a word) = mask 15"
    "(0xFFFFF :: 'a word) = mask 20" "(0x3FFFFFFF :: 'a word) = mask 30"
    by (simp_all add: mask_eq_exp_minus_1)
  show "unat (w AND 0x1F) = unat w mod 2 ^ 5" "unat (w AND 0xF) = unat w mod 2 ^ 4"
    "unat (w AND 0x3F) = unat w mod 2 ^ 6" "unat (w AND 0xFF) = unat w mod 2 ^ 8"
    "unat (w AND 0x3FF) = unat w mod 2 ^ 10" "unat (w AND 0x7FFF) = unat w mod 2 ^ 15"
    "unat (w AND 0xFFFFF) = unat w mod 2 ^ 20" "unat (w AND 0x3FFFFFFF) = unat w mod 2 ^ 30"
    unfolding n by (rule m)+
qed

lemma unat_drop_bit: "unat (drop_bit n (w :: 'a::len word)) = unat w div 2 ^ n"
  unfolding unat_drop_bit_eq drop_bit_eq_div [where 'a = nat] by (rule refl)

lemma or_push_bit:
  assumes "x < 2 ^ n" "n \<le> LENGTH('a)"
  shows "(word_of_nat x :: 'a::len word) OR push_bit n (word_of_nat y) = word_of_nat (x + 2 ^ n * y)"
proof -
  have t: "take_bit n (word_of_nat x :: 'a word) = word_of_nat x"
    using assms by (simp add: take_bit_of_nat take_bit_nat_eq_self)
  have "(word_of_nat x :: 'a word) AND push_bit n (word_of_nat y) = 0"
    by (subst t [symmetric]) (rule bit_word_eqI, auto simp: bit_simps)
  then show ?thesis by (simp add: disjunctive_add_eq_or [symmetric] push_bit_eq_mult mult.commute)
qed

lemma word_of_int_mask:
  assumes "0 \<le> i" "i < 2 ^ k" "k \<le> LENGTH('a)"
  shows "(word_of_int i :: 'a::len word) AND mask k = word_of_nat (nat i)"
proof -
  have "take_bit k (word_of_int i :: 'a word) = word_of_int i"
    using assms by (simp add: take_bit_of_int take_bit_int_eq_self)
  then show ?thesis using assms(1) by (simp add: take_bit_eq_mask)
qed

subsection \<open>What the writers produce\<close>

lemma byte_and_ff: "(ucast ((w :: 'a::len word) AND 0xFF) :: byte) = word_of_nat (unat w)"
  by (simp add: word_unat_eq_iff unsigned_ucast_eq take_bit_eq_mod and_mask_unat)

text \<open>The number whose little-endian bytes are the date, and the one for the time of day.\<close>

definition date_bits :: "int \<Rightarrow> int \<Rightarrow> int \<Rightarrow> nat" where
  "date_bits year month day = nat day + 2 ^ 5 * (nat month + 2 ^ 4 * nat (year mod 2 ^ 15))"

definition time_bits :: "nat \<Rightarrow> int \<Rightarrow> int \<Rightarrow> int \<Rightarrow> nat \<Rightarrow> nat" where
  "time_bits frac_width hour minute second frac =
     frac + 2 ^ frac_width * (nat second + 2 ^ 6 * (nat minute + 2 ^ 6 * nat hour))"

definition date_ok :: "int \<Rightarrow> int \<Rightarrow> int \<Rightarrow> bool" where
  "date_ok y m d \<longleftrightarrow> -16384 \<le> y \<and> y \<le> 16383 \<and> 1 \<le> m \<and> m \<le> 12 \<and> 1 \<le> d \<and> d \<le> 31"

definition clock_ok :: "int \<Rightarrow> int \<Rightarrow> int \<Rightarrow> int \<Rightarrow> bool" where
  "clock_ok h mi s ns \<longleftrightarrow>
     0 \<le> h \<and> h \<le> 23 \<and> 0 \<le> mi \<and> mi \<le> 59 \<and> 0 \<le> s \<and> s \<le> 59 \<and> 0 \<le> ns \<and> ns \<le> 999999999"

lemma encodeDate_bytes:
  "encodeDate y m d =
     (if date_ok y m d then Ok (le_bytes 3 (date_bits y m d))
      else Err (Errorf (if m < 1 \<or> 12 < m then ''Month out of range''
                        else if d < 1 \<or> 31 < d then ''Day out of range''
                        else ''Year out of 15-bit signed range'')))"
proof (cases "date_ok y m d")
  case False
  then show ?thesis by (auto simp: encodeDate_def date_ok_def)
next
  case True
  define y' :: int where "y' = (if y < 0 then 2 ^ 15 + y else y)"
  have y': "0 \<le> y'" "y' < 2 ^ 15" using True by (auto simp: y'_def date_ok_def)
  have ym: "y mod 2 ^ 15 = y'"
    using True by (intro int_mod_pos_eq [where q = "if y < 0 then -1 else 0"]) (auto simp: y'_def date_ok_def)
  have n: "(0x1F :: 32 word) = mask 5" "(0x0F :: 32 word) = mask 4" "(0x7FFF :: 32 word) = mask 15"
    by (simp_all add: mask_eq_exp_minus_1)
  have w: "(word_of_int d AND 0x1F :: 32 word) = word_of_nat (nat d)"
    "(word_of_int m AND 0x0F :: 32 word) = word_of_nat (nat m)"
    "(word_of_int y' AND 0x7FFF :: 32 word) = word_of_nat (nat y')"
    unfolding n using True y' by (intro word_of_int_mask; simp add: date_ok_def)+
  define v where "v = nat d + 2 ^ 5 * nat m + 2 ^ 9 * nat y'"
  have dm: "nat d \<le> 31" "nat m \<le> 12" "nat y' \<le> 2 ^ 15"
    using True y' by (simp_all add: date_ok_def nat_le_iff)
  then have "v < 2 ^ 32" unfolding v_def by simp
  moreover have "date_bits y m d = v" by (simp only: v_def date_bits_def ym) simp
  ultimately have vb: "v < 2 ^ 32" "date_bits y m d = v" .
  have "nat d < 2 ^ 5" "nat d + 2 ^ 5 * nat m < 2 ^ 9" "(5::nat) \<le> LENGTH(32)" "(9::nat) \<le> LENGTH(32)"
    using dm by simp_all
  then have "((word_of_nat (nat d) :: 32 word) OR push_bit 5 (word_of_nat (nat m))) OR push_bit 9 (word_of_nat (nat y'))
    = word_of_nat v"
    by (simp only: or_push_bit v_def)
  moreover have "(if y < 0 then word_of_int (2 ^ 15 + y) else word_of_int y) = (word_of_int y' :: 32 word)"
    by (simp add: y'_def)
  moreover have "unat (word_of_nat v :: 32 word) = v" using vb by (intro unat_word_of_nat_id) simp
  ultimately show ?thesis
    using True unfolding encodeDate_def date_ok_def Let_def
    by (simp add: w byte_and_ff unat_drop_bit vb(2) le_bytes_widths)
qed

lemma encodeTime_bytes:
  "encodeTime h mi s ns =
     (if clock_ok h mi s ns then Ok (le_bytes 6 (time_bits 30 h mi s (nat ns)))
      else Err (Errorf (if h < 0 \<or> 23 < h then ''Hour out of range''
                        else if mi < 0 \<or> 59 < mi then ''Minute out of range''
                        else if s < 0 \<or> 59 < s then ''Second out of range''
                        else ''Nanosec out of range'')))"
proof (cases "clock_ok h mi s ns")
  case False
  then show ?thesis by (auto simp: encodeTime_def clock_ok_def)
next
  case True
  have n: "(0x3F :: 64 word) = mask 6" "(0x1F :: 64 word) = mask 5" by (simp_all add: mask_eq_exp_minus_1)
  have w: "(word_of_int s AND 0x3F :: 64 word) = word_of_nat (nat s)"
    "(word_of_int mi AND 0x3F :: 64 word) = word_of_nat (nat mi)"
    "(word_of_int h AND 0x1F :: 64 word) = word_of_nat (nat h)"
    unfolding n using True by (intro word_of_int_mask; simp add: clock_ok_def)+
  have f: "(word_of_int ns :: 64 word) = word_of_nat (nat ns)" using True by (simp add: clock_ok_def)
  define v where "v = nat ns + 2 ^ 30 * nat s + 2 ^ 36 * nat mi + 2 ^ 42 * nat h"
  have b: "nat ns \<le> 999999999" "nat s \<le> 59" "nat mi \<le> 59" "nat h \<le> 23"
    using True by (simp_all add: clock_ok_def nat_le_iff)
  have "v < 2 ^ 64" using b unfolding v_def by simp
  moreover have "time_bits 30 h mi s (nat ns) = v" by (simp add: v_def time_bits_def)
  ultimately have vb: "v < 2 ^ 64" "time_bits 30 h mi s (nat ns) = v" .
  have "nat ns < 2 ^ 30" "nat ns + 2 ^ 30 * nat s < 2 ^ 36" "nat ns + 2 ^ 30 * nat s + 2 ^ 36 * nat mi < 2 ^ 42"
    "(30::nat) \<le> LENGTH(64)" "(36::nat) \<le> LENGTH(64)" "(42::nat) \<le> LENGTH(64)"
    using b by simp_all
  then have o: "(((word_of_nat (nat ns) :: 64 word) OR push_bit 30 (word_of_nat (nat s))) OR
    push_bit 36 (word_of_nat (nat mi))) OR push_bit 42 (word_of_nat (nat h)) = word_of_nat v"
    by (simp only: or_push_bit v_def)
  have "unat (word_of_nat v :: 64 word) = v" using vb by (intro unat_word_of_nat_id) simp
  moreover have "(2::nat) ^ (8 * i) = 256 ^ i" for i by (simp add: power_mult)
  ultimately have e: "map (\<lambda>i. ucast (drop_bit (8 * i) (word_of_nat v :: 64 word) AND 0xFF)) [0..<6] = le_bytes 6 v"
    by (simp only: byte_and_ff unat_drop_bit le_bytes_map)
  have c: "\<not> (h < 0 \<or> 23 < h)" "\<not> (mi < 0 \<or> 59 < mi)" "\<not> (s < 0 \<or> 59 < s)" "\<not> (ns < 0 \<or> 999999999 < ns)"
    using True by (auto simp: clock_ok_def)
  have sh: "(0::nat) + 30 = 30" "(30::nat) + 6 = 36" "(36::nat) + 6 = 42" by simp_all
  show ?thesis
    by (simp only: encodeTime_def c True if_False if_True Let_def or.left_neutral push_bit_0_id id_apply sh w f o e vb(2))
qed

subsection \<open>What the readers compute\<close>

lemma mod_pow_fields:
  assumes "x < 2 ^ n"
  shows "(x + 2 ^ n * y) mod 2 ^ n = x" "(x + 2 ^ n * y) div 2 ^ n = (y::nat)"
  using assms by simp_all

lemma last_bytes_Ok:
  assumes "k \<le> length raw"
  shows "last_bytes k raw = Ok (drop (length raw - k) raw)"
proof -
  have "mapR (\<lambda>j. index_at raw (int (length raw) - 1 - int j)) [0..<k] =
    Ok (map (\<lambda>j. raw ! (length raw - 1 - j)) [0..<k])"
  proof (rule mapR_Ok)
    fix j assume "j \<in> set [0..<k]"
    then have j: "j < k" by simp
    then have e: "int (length raw) - 1 - int j = int (length raw - 1 - j)" using assms by linarith
    have "length raw - 1 - j < length raw" using j assms by linarith
    then show "index_at raw (int (length raw) - 1 - int j) = Ok (raw ! (length raw - 1 - j))"
      unfolding e by (rule index_at_Ok)
  qed
  moreover have "rev (map (\<lambda>j. raw ! (length raw - 1 - j)) [0..<k]) = drop (length raw - k) raw"
    using assms by (intro nth_equalityI) (auto simp: rev_nth)
  ultimately show ?thesis by (simp add: last_bytes_def)
qed

lemma decodeDate_bits:
  assumes "length raw \<ge> 3"
  shows "decodeDate raw =
    (let v = le_nat (take 3 raw)
     in Ok (time_Date (int (v div 2 ^ 9 mod 2 ^ 15)) (int (v div 2 ^ 5 mod 2 ^ 4)) (int (v mod 2 ^ 5)) 0 0 0 0))"
proof -
  define v where "v = le_nat (take 3 raw)"
  have m: "mapR (\<lambda>i. index_at raw (int i)) [0..<3] = Ok (take 3 raw)"
    using assms mapR_index_at [of 0 3 raw] by simp
  have "length (take 3 raw) = 3" using assms by simp
  then have "v < 256 ^ 3" unfolding v_def by (metis le_nat_bound)
  then have "unat (word_of_nat v :: 32 word) = v" by (intro unat_word_of_nat_id) simp
  then have "uint (word_of_nat v AND 0x1F :: 32 word) = int (v mod 2 ^ 5)"
    "uint (drop_bit 5 (word_of_nat v) AND 0xF :: 32 word) = int (v div 2 ^ 5 mod 2 ^ 4)"
    "uint (drop_bit 9 (word_of_nat v) AND 0x7FFF :: 32 word) = int (v div 2 ^ 9 mod 2 ^ 15)"
    by (simp_all only: and_mask_unat unat_drop_bit uint_nat)
  then show ?thesis
    by (simp add: decodeDate_def m Let_def le_nat_append flip: v_def)
qed

lemma decodeDate_encodeDate:
  assumes "encodeDate y m d = Ok bs"
  shows "decodeDate (bs @ rest) = Ok (time_Date (if y < 0 then y + 32768 else y) m d 0 0 0 0)"
proof -
  have ok: "date_ok y m d" and bs: "bs = le_bytes 3 (date_bits y m d)"
    using assms by (auto simp: encodeDate_bytes split: if_splits)
  define Y where "Y = nat (y mod 2 ^ 15)"
  have y: "y mod 2 ^ 15 = (if y < 0 then y + 32768 else y)"
    using ok by (intro int_mod_pos_eq [where q = "if y < 0 then -1 else 0"]) (auto simp: date_ok_def)
  have b: "nat d < 2 ^ 5" "nat m < 2 ^ 4" "Y < 2 ^ 15"
    using ok by (simp_all add: date_ok_def Y_def nat_less_iff)
  have v: "date_bits y m d = nat d + 2 ^ 5 * (nat m + 2 ^ 4 * Y)" by (simp add: date_bits_def Y_def)
  have "date_bits y m d < 256 ^ 3" using b unfolding v by simp
  then have l: "le_nat bs = date_bits y m d" by (simp add: bs le_nat_le_bytes)
  have "date_bits y m d mod 2 ^ 5 = nat d" "date_bits y m d div 2 ^ 5 = nat m + 2 ^ 4 * Y"
    unfolding v using b(1) by (rule mod_pow_fields)+
  moreover have "(nat m + 2 ^ 4 * Y) mod 2 ^ 4 = nat m" "(nat m + 2 ^ 4 * Y) div 2 ^ 4 = Y"
    using b(2) by (rule mod_pow_fields)+
  moreover have "x div 2 ^ 9 = x div 2 ^ 5 div 2 ^ 4" for x :: nat by (simp add: div_mult2_eq flip: power_add)
  moreover have "Y mod 2 ^ 15 = Y" using b(3) by simp
  moreover have "int (nat d) = d" "int (nat m) = m" "int Y = (if y < 0 then y + 32768 else y)"
    using ok y by (auto simp: date_ok_def Y_def)
  moreover have "length bs = 3" by (simp add: bs)
  then have "take 3 (bs @ rest) = bs" "3 \<le> length (bs @ rest)" by simp_all
  ultimately show ?thesis by (simp only: decodeDate_bits Let_def l)
qed

lemma div_carry:
  assumes "G \<noteq> (0::int)"
  shows "u + n div G + (n mod G + b) div G = u + (n + b) div G"
proof -
  have "(n mod G + b + n div G * G) div G = n div G + (n mod G + b) div G" using assms by (rule div_mult_self1)
  moreover have "n mod G + b + n div G * G = n + b" using div_mult_mod_eq [of n G] by linarith
  ultimately show ?thesis by simp
qed

lemma time_Add_fields:
  "t_unix (time_Add t d) = t_unix t + (t_nsec t + d) div 1000000000"
  "t_nsec (time_Add t d) = (t_nsec t + d) mod 1000000000" "t_off (time_Add t d) = t_off t"
  by (simp_all add: time_Add_def)

lemma time_Add_Add: "time_Add (time_Add t a) b = time_Add t (a + b)"
proof (rule gotime.equality)
  have nz: "(1000000000::int) \<noteq> 0" by simp
  show "t_unix (time_Add (time_Add t a) b) = t_unix (time_Add t (a + b))"
    unfolding time_Add_fields unfolding div_carry [OF nz] unfolding add.assoc by (rule refl)
  show "t_nsec (time_Add (time_Add t a) b) = t_nsec (time_Add t (a + b))"
    unfolding time_Add_fields by (simp only: mod_add_left_eq add.assoc)
qed (simp_all add: time_Add_fields)

lemma time_chain:
  "time_Add (time_Add (time_Add (time_Add zero_time ns) (s * Second)) (mi * Minute)) (h * Hour)
     = time_Date 1 1 1 h mi s ns"
proof -
  define x where "x = h * 3600 + mi * 60 + s"
  have *: "ns + s * Second + mi * Minute + h * Hour = ns + x * 1000000000" by (simp add: x_def)
  have "days_from_civil 1 1 1 = -719162" by (simp add: days_from_civil_def Let_def)
  then have "time_Add zero_time (ns + x * 1000000000) = time_Date 1 1 1 0 0 x ns"
    by (simp add: time_Add_def zero_time_def time_Date_def)
  also have "\<dots> = time_Date 1 1 1 h mi s ns" by (simp add: time_Date_def x_def)
  finally show ?thesis unfolding time_Add_Add * [symmetric] by (simp only: add.assoc)
qed

text \<open>
  The three wire formats: the number of bytes, the width of the fraction field and the duration
  one unit of it stands for in the reader.
\<close>

definition time_format :: "int \<Rightarrow> (nat \<times> nat \<times> int) option" where
  "time_format precision =
     (if precision = 6 \<or> precision = 0 then Some (4, 10, Millisecond)
      else if precision = 9 then Some (5, 20, Microsecond)
      else if precision = 12 then Some (6, 30, Microsecond)
      else None)"

lemma decodeTime_bits:
  assumes "time_format p = Some (k, fw, unit)" and "length raw \<ge> k"
  shows "decodeTime raw p =
    (let v = le_nat (drop (length raw - k) raw)
     in Ok (time_Date 1 1 1 (int (v div 2 ^ (fw + 12) mod 2 ^ 5)) (int (v div 2 ^ (fw + 6) mod 2 ^ 6))
              (int (v div 2 ^ fw mod 2 ^ 6)) (int (v mod 2 ^ fw) * unit)))"
proof -
  define v where "v = le_nat (drop (length raw - k) raw)"
  have "length (drop (length raw - k) raw) = k" using assms(2) by simp
  then have v: "v < 256 ^ k" unfolding v_def by (metis le_nat_bound)
  have l: "last_bytes k raw = Ok (drop (length raw - k) raw)" by (rule last_bytes_Ok [OF assms(2)])
  have pad: "le_nat (b @ [0, 0, 0]) = le_nat b" "le_nat (b @ [0, 0]) = le_nat b" for b
    by (simp_all add: le_nat_append)
  have k: "(p = 6 \<or> p = 0) \<and> k = 4 \<and> fw = 10 \<and> unit = Millisecond \<or>
    p = 9 \<and> k = 5 \<and> fw = 20 \<and> unit = Microsecond \<or> p = 12 \<and> k = 6 \<and> fw = 30 \<and> unit = Microsecond"
    using assms(1) by (auto simp: time_format_def split: if_splits)
  note fields = and_mask_unat unat_drop_bit uint_nat
  have w: "v < 2 ^ 32 \<Longrightarrow> unat (word_of_nat v :: 32 word) = v" "v < 2 ^ 64 \<Longrightarrow> unat (word_of_nat v :: 64 word) = v"
    by (rule unat_word_of_nat_id; simp)+
  from k consider (milli) "p = 6 \<or> p = 0" "k = 4" "fw = 10" "unit = Millisecond"
    | (micro) "p = 9" "k = 5" "fw = 20" "unit = Microsecond"
    | (nano) "p = 12" "k = 6" "fw = 30" "unit = Microsecond" by blast
  then show ?thesis
  proof cases
    case milli
    then have *: "v < 2 ^ 32" "le_nat (drop (length raw - 4) raw) = v" using v by (simp_all add: v_def)
    with l milli show ?thesis
      by (simp only: decodeTime_def Let_def fields w time_chain if_True rbind.simps) simp
  next
    case micro
    then have *: "v < 2 ^ 64" "le_nat (drop (length raw - 5) raw) = v" using v by (simp_all add: v_def)
    have "\<not> (p = 6 \<or> p = 0)" using micro by simp
    with l micro * show ?thesis
      by (simp only: decodeTime_def Let_def fields w time_chain if_True if_False rbind.simps pad) simp
  next
    case nano
    then have *: "v < 2 ^ 64" "le_nat (drop (length raw - 6) raw) = v" using v by (simp_all add: v_def)
    have "\<not> (p = 6 \<or> p = 0)" "p \<noteq> 9" using nano by simp_all
    with l nano * show ?thesis
      by (simp only: decodeTime_def Let_def fields w time_chain if_True if_False rbind.simps pad) simp
  qed
qed

lemma decodeTime_packed:
  assumes "time_format p = Some (k, fw, unit)" and "clock_ok h mi s 0" and "frac < 2 ^ fw"
  shows "decodeTime (pre @ le_bytes k (time_bits fw h mi s frac)) p = Ok (time_Date 1 1 1 h mi s (int frac * unit))"
proof -
  define v where "v = time_bits fw h mi s frac"
  have b: "nat h < 2 ^ 5" "nat mi < 2 ^ 6" "nat s < 2 ^ 6" "int (nat h) = h" "int (nat mi) = mi" "int (nat s) = s"
    using assms(2) by (simp_all add: clock_ok_def nat_less_iff)
  have fw: "fw + 17 \<le> 8 * k" using assms(1) by (auto simp: time_format_def split: if_splits)
  define w where "w = nat s + 2 ^ 6 * (nat mi + 2 ^ 6 * nat h)"
  have v: "v = frac + 2 ^ fw * w" by (simp add: v_def time_bits_def w_def)
  have "nat h \<le> 31" "nat mi \<le> 63" "nat s \<le> 63" using b by simp_all
  then have "Suc w \<le> 2 ^ 17" by (simp add: w_def)
  then have "2 ^ fw * Suc w \<le> 2 ^ fw * 2 ^ 17" by (rule mult_le_mono2)
  then have "v < 2 ^ fw * 2 ^ 17" using assms(3) unfolding v mult_Suc_right by linarith
  moreover have "(2::nat) ^ (fw + 17) \<le> 2 ^ (8 * k)" using fw by (intro power_increasing) auto
  ultimately have "v < 2 ^ (8 * k)" unfolding power_add by (rule less_le_trans)
  then have vk: "v < 256 ^ k" by (simp add: power_mult)
  have f: "v mod 2 ^ fw = frac" "v div 2 ^ fw = w" unfolding v using assms(3) by (rule mod_pow_fields)+
  have g: "w mod 2 ^ 6 = nat s" "w div 2 ^ 6 = nat mi + 2 ^ 6 * nat h" unfolding w_def using b(3) by (rule mod_pow_fields)+
  have "w div 2 ^ 12 = w div 2 ^ 6 div 2 ^ 6" by (simp add: div_mult2_eq)
  then have g': "w div 2 ^ 6 mod 2 ^ 6 = nat mi" "w div 2 ^ 12 mod 2 ^ 5 = nat h"
    using b(1,2) by (simp_all only: g mod_pow_fields) simp
  have m: "(nat mi + 2 ^ 6 * nat h) mod 2 ^ 6 = nat mi" using b(2) by (rule mod_pow_fields)
  have d: "v div 2 ^ (fw + n) = w div 2 ^ n" for n by (simp only: power_add div_mult2_eq f)
  have "le_nat (drop (length (pre @ le_bytes k v) - k) (pre @ le_bytes k v)) = v"
    using vk by (simp add: le_nat_le_bytes)
  then show ?thesis
    using b(4-6) by (simp only: decodeTime_bits [OF assms(1)] length_append length_le_bytes le_add2 Let_def d f g g' m
        flip: v_def)
qed

lemma encodeTime_Ok_iff:
  "encodeTime h mi s ns = Ok b \<longleftrightarrow> clock_ok h mi s ns \<and> b = le_bytes 6 (time_bits 30 h mi s (nat ns))"
  by (auto simp: encodeTime_bytes)

lemma encodeDate_Ok_iff:
  "encodeDate y m d = Ok b \<longleftrightarrow> date_ok y m d \<and> b = le_bytes 3 (date_bits y m d)"
  by (auto simp: encodeDate_bytes)

lemma decodeTime_encodeTime_12:
  assumes "encodeTime h mi s ns = Ok b"
  shows "decodeTime (pre @ b) 12 = Ok (time_Date 1 1 1 h mi s (ns * 1000))"
proof -
  have ok: "clock_ok h mi s ns" and b: "b = le_bytes 6 (time_bits 30 h mi s (nat ns))"
    using assms by (simp_all add: encodeTime_Ok_iff)
  have "nat ns < 2 ^ 30" "int (nat ns) = ns" "clock_ok h mi s 0"
    using ok by (simp_all add: clock_ok_def nat_less_iff)
  then show ?thesis
    using decodeTime_packed [of 12 6 30 Microsecond h mi s "nat ns" pre] by (simp add: b time_format_def)
qed

lemma date_ok_time: "date_ok (time_Year t) (time_Month t) (time_Day t) \<longleftrightarrow> -16384 \<le> time_Year t \<and> time_Year t \<le> 16383"
  using time_field_bounds [of t] by (auto simp: date_ok_def)

lemma clock_ok_time: "wf_time t \<Longrightarrow> clock_ok (time_Hour t) (time_Minute t) (time_Second t) (t_nsec t)"
  using time_field_bounds [of t] by (auto simp: clock_ok_def wf_time_def)

lemma decodeTimestamp_bytes:
  "decodeTimestamp loc (le_bytes 8 (unat (sec :: 64 word)) @ le_bytes 4 (unat (ns :: 32 word))) =
     Ok (time_Unix loc (sint sec) (uint ns))"
proof -
  have "unat sec < 256 ^ 8" "unat ns < 256 ^ 4" using unsigned_less [of sec] unsigned_less [of ns] by simp_all
  then show ?thesis by (simp add: decodeTimestamp_def le_uint_def le_nat_le_bytes)
qed

lemma decodeTimestamp_short: "length raw < 12 \<Longrightarrow> decodeTimestamp loc raw = Panic IndexOutOfRange"
  by (auto simp: decodeTimestamp_def le_uint_def)

subsection \<open>Properties\<close>

text \<open>A DATE written by \<^verbatim>\<open>encodeDate\<close> is read back by \<^verbatim>\<open>decodeDate\<close> as midnight of the same
  calendar day for every valid date of the years 0 to 16383.\<close>

theorem date_roundtrip:
  assumes "valid_date y m d" and "0 \<le> y" and "y \<le> 16383"
  shows "\<exists>b t. encodeDate y m d = Ok b \<and> length b = 3 \<and> decodeDate (b @ rest) = Ok t \<and>
           time_ymd t = (y, m, d) \<and> time_Hour t = 0 \<and> time_Minute t = 0 \<and> time_Second t = 0 \<and> t_nsec t = 0"
proof -
  have "date_ok y m d"
    using assms by (auto simp: date_ok_def valid_date_def days_in_month_def split: if_splits)
  then obtain b where b: "encodeDate y m d = Ok b" "length b = 3" by (simp add: encodeDate_Ok_iff)
  then have "decodeDate (b @ rest) = Ok (time_Date y m d 0 0 0 0)"
    using decodeDate_encodeDate [OF b(1)] assms(2) by simp
  then show ?thesis using b time_Date_fields [OF assms(1), of 0 0 0 0] by simp
qed

theorem date_roundtrip_witness:
  "\<exists>b t. encodeDate 2024 2 29 = Ok b \<and> length b = 3 \<and> decodeDate (b @ [7]) = Ok t \<and>
     time_ymd t = (2024, 2, 29) \<and> time_Hour t = 0 \<and> time_Minute t = 0 \<and> time_Second t = 0 \<and> t_nsec t = 0"
  by (rule date_roundtrip) (simp_all add: valid_date_def days_in_month_def leap_def)

text \<open>A year before 0 that \<^verbatim>\<open>encodeDate\<close> accepts is read back 32768 years later, because
  \<^verbatim>\<open>decodeDate\<close> takes the 15-bit field as unsigned.\<close>

theorem negative_year_misread:
  assumes "encodeDate y m d = Ok b" and "y < 0"
  shows "decodeDate (b @ rest) = Ok (time_Date (y + 32768) m d 0 0 0 0)"
  using decodeDate_encodeDate [OF assms(1)] assms(2) by simp

theorem negative_year_misread_witness:
  "decodeDate ([0x2f, 0xfe, 0xff] @ []) = Ok (time_Date (-1 + 32768) 1 15 0 0 0 0)"
  using negative_year_misread [of "-1" 1 15 "[0x2f, 0xfe, 0xff]" "[]"]
  by (simp add: encodeDate_def)

text \<open>C40: \<^verbatim>\<open>encodeDate\<close> and \<^verbatim>\<open>encodeTime\<close> accept exactly the fields in range, and what they write are
  the documented bit fields: day in 5 bits, month in 4, year in 15; nanoseconds in 30 bits,
  seconds and minutes in 6, hours in 5.\<close>

theorem date_time_layout:
  "(\<exists>b. encodeDate y m d = Ok b) = date_ok y m d \<and> (\<exists>b. encodeTime h mi s ns = Ok b) = clock_ok h mi s ns \<and>
   (case encodeDate y m d of Ok b \<Rightarrow> b = le_bytes 3 (nat d + 2 ^ 5 * nat m + 2 ^ 9 * nat (y mod 2 ^ 15)) | _ \<Rightarrow> True) \<and>
   (case encodeTime h mi s ns of
      Ok b \<Rightarrow> b = le_bytes 6 (nat ns + 2 ^ 30 * nat s + 2 ^ 36 * nat mi + 2 ^ 42 * nat h) | _ \<Rightarrow> True)"
proof -
  have "date_bits y m d = nat d + 2 ^ 5 * nat m + 2 ^ 9 * nat (y mod 2 ^ 15)" by (simp add: date_bits_def)
  moreover have "time_bits 30 h mi s f = f + 2 ^ 30 * nat s + 2 ^ 36 * nat mi + 2 ^ 42 * nat h" for f
    by (simp add: time_bits_def)
  ultimately show ?thesis by (simp only: encodeDate_bytes encodeTime_bytes) auto
qed

text \<open>\<^verbatim>\<open>decodeTime\<close> reads a packed TIME of each of the three wire formats (4 bytes with a
  millisecond fraction, 5 bytes with microseconds, 6 bytes) as that time of day on day one; the
  fraction of the 6-byte format is multiplied by a microsecond.\<close>

theorem decodeTime_wire_formats:
  assumes "time_format p = Some (k, fw, unit)" and "clock_ok h mi s 0" and "frac < 2 ^ fw"
    and "int frac * unit < 1000000000"
  shows "\<exists>t. decodeTime (pre @ le_bytes k (time_bits fw h mi s frac)) p = Ok t \<and> time_ymd t = (1, 1, 1) \<and>
           time_Hour t = h \<and> time_Minute t = mi \<and> time_Second t = s \<and> t_nsec t = int frac * unit"
proof -
  have "0 \<le> unit" using assms(1) by (auto simp: time_format_def split: if_splits)
  then have "0 \<le> int frac * unit" by simp
  moreover have "valid_date 1 1 1" by (simp add: valid_date_def days_in_month_def)
  ultimately show ?thesis
    using time_Date_fields [of 1 1 1 h mi s "int frac * unit"] assms(2,4)
    by (simp add: decodeTime_packed [OF assms(1-3)] clock_ok_def)
qed

theorem decodeTime_wire_formats_witness:
  "\<exists>t. decodeTime ([1] @ le_bytes 4 (time_bits 10 23 59 58 999)) 6 = Ok t \<and> time_ymd t = (1, 1, 1) \<and>
     time_Hour t = 23 \<and> time_Minute t = 59 \<and> time_Second t = 58 \<and> t_nsec t = int 999 * 1000000"
  by (rule decodeTime_wire_formats) (simp_all add: time_format_def clock_ok_def)

text \<open>A time of day written by \<^verbatim>\<open>encodeTime\<close> is read back by \<^verbatim>\<open>decodeTime\<close> at precision 12 as the
  same instant exactly when it has no nanoseconds; otherwise every nanosecond counts for 1000.\<close>

theorem nanosecond_time_exact:
  assumes "encodeTime h mi s ns = Ok b"
  shows "decodeTime (pre @ b) 12 = Ok (time_Date 1 1 1 h mi s (1000 * ns)) \<and>
    (decodeTime (pre @ b) 12 = Ok (time_Date 1 1 1 h mi s ns)) = (ns = 0)"
proof -
  have d: "decodeTime (pre @ b) 12 = Ok (time_Date 1 1 1 h mi s (1000 * ns))"
    using decodeTime_encodeTime_12 [OF assms] by (simp add: mult.commute)
  have "0 \<le> ns" "ns \<le> 999999999" using assms by (simp_all add: encodeTime_Ok_iff clock_ok_def)
  moreover have "1000 * ns div 1000000000 = ns div 1000000000 \<and> 1000 * ns mod 1000000000 = ns mod 1000000000
    \<longleftrightarrow> 1000 * ns = ns" by (metis div_mult_mod_eq)
  ultimately have "time_Date 1 1 1 h mi s (1000 * ns) = time_Date 1 1 1 h mi s ns \<longleftrightarrow> ns = 0"
    by (auto simp: time_Date_def Let_def)
  with d show ?thesis by simp
qed

theorem nanosecond_time_exact_witness:
  "decodeTime ([] @ le_bytes 6 (time_bits 30 1 2 3 4)) 12 = Ok (time_Date 1 1 1 1 2 3 (1000 * 4)) \<and>
   (decodeTime ([] @ le_bytes 6 (time_bits 30 1 2 3 4)) 12 = Ok (time_Date 1 1 1 1 2 3 4)) = (4 = (0::int))"
  by (rule nanosecond_time_exact) (simp add: encodeTime_Ok_iff clock_ok_def)

end
