(* ===== verification/BinaryTuple.thy ===== *)
theory BinaryTuple
  imports IntCodec DateTimeCodec
begin

text \<open>
  The binary tuple writer of the key-value path (binary-tuple.go): the conversions of dynamic Go
  values (\<^verbatim>\<open>toBool\<close> to \<^verbatim>\<open>toTime\<close>), \<^verbatim>\<open>appendBinaryTupleValue\<close> for every element kind, and
  \<^verbatim>\<open>BuildBinaryTuple\<close>, which lays header, offset table and value area out. The lemmas reduce a built
  tuple to the concatenation of its elements and give the elements of each kind.
\<close>

subsection \<open>Conversions\<close>

definition toBool :: "goval \<Rightarrow> bool res" where
  "toBool val =
     (case val of
        VBool v \<Rightarrow> Ok v
      | VString v \<Rightarrow> Ok (v = ''true'' \<or> v = ''TRUE'' \<or> v = ''1'')
      | VInt64 v \<Rightarrow> Ok (v \<noteq> 0)
      | VInt32 v \<Rightarrow> Ok (v \<noteq> 0)
      | VInt v \<Rightarrow> Ok (v \<noteq> 0)
      | VFloat64 v \<Rightarrow> Ok (\<not> f64_zero v)
      | _ \<Rightarrow> Err (Errorf (''cannot convert '' @ type_text val @ '' to BOOLEAN'')))"

definition toInt64 :: "goval \<Rightarrow> (64 word) res" where
  "toInt64 val =
     (case val of
        VInt v \<Rightarrow> Ok v
      | VInt8 v \<Rightarrow> Ok (scast v)
      | VInt16 v \<Rightarrow> Ok (scast v)
      | VInt32 v \<Rightarrow> Ok (scast v)
      | VInt64 v \<Rightarrow> Ok v
      | VUint8 v \<Rightarrow> Ok (ucast v)
      | VUint16 v \<Rightarrow> Ok (ucast v)
      | VUint32 v \<Rightarrow> Ok (ucast v)
      | VUint64 v \<Rightarrow> Ok v
      | VFloat64 v \<Rightarrow> Ok (f64_to_int64 v)
      | VFloat32 v \<Rightarrow> Ok (f64_to_int64 (f32_to_f64 v))
      | _ \<Rightarrow> Err (Errorf (''cannot convert '' @ type_text val @ '' to integer'')))"

definition toFloat64 :: "goval \<Rightarrow> float64 res" where
  "toFloat64 val =
     (case val of
        VFloat64 v \<Rightarrow> Ok v
      | VFloat32 v \<Rightarrow> Ok (f32_to_f64 v)
      | VInt v \<Rightarrow> Ok (int_to_f64 (sint v))
      | VInt16 v \<Rightarrow> Ok (int_to_f64 (sint v))
      | VInt32 v \<Rightarrow> Ok (int_to_f64 (sint v))
      | VInt64 v \<Rightarrow> Ok (int_to_f64 (sint v))
      | _ \<Rightarrow> Err (Errorf (''cannot convert '' @ type_text val @ '' to float'')))"

text \<open>\<^verbatim>\<open>(*big.Int).Quo\<close> truncates; \<^verbatim>\<open>Exp\<close> with no modulus gives 1 for an exponent that is not positive.\<close>

definition big_Quo :: "int \<Rightarrow> int \<Rightarrow> int" where
  "big_Quo x y = sgn x * sgn y * (\<bar>x\<bar> div \<bar>y\<bar>)"

definition big_Exp10 :: "int \<Rightarrow> int" where
  "big_Exp10 y = (if y \<le> 0 then 1 else 10 ^ nat y)"

definition decimalFromString :: "host \<Rightarrow> string \<Rightarrow> int \<Rightarrow> decimal" where
  "decimalFromString H val scale =
     (case rat_set_string H val of
        None \<Rightarrow> \<lparr>Unscaled = Some 0, Scale = scale\<rparr>
      | Some (n, d) \<Rightarrow> \<lparr>Unscaled = Some (big_Quo (n * big_Exp10 scale) d), Scale = scale\<rparr>)"

definition decimalFromFloat64 :: "host \<Rightarrow> float64 \<Rightarrow> int \<Rightarrow> decimal" where
  "decimalFromFloat64 H val scale = decimalFromString H (format_float H val) scale"

definition toDecimal :: "host \<Rightarrow> goval \<Rightarrow> int \<Rightarrow> decimal res" where
  "toDecimal H val scale =
     (let failed = Err (Errorf (''cannot convert '' @ type_text val @ '' to DECIMAL''))
      in case val of
           VDecimal v \<Rightarrow> Ok v
         | VDecimalPtr v \<Rightarrow> (case v of Some d \<Rightarrow> Ok d | None \<Rightarrow> failed)
         | VInt v \<Rightarrow> Ok \<lparr>Unscaled = Some (sint v), Scale = scale\<rparr>
         | VInt32 v \<Rightarrow> Ok \<lparr>Unscaled = Some (sint v), Scale = scale\<rparr>
         | VInt64 v \<Rightarrow> Ok \<lparr>Unscaled = Some (sint v), Scale = scale\<rparr>
         | VFloat64 v \<Rightarrow> Ok (decimalFromFloat64 H v scale)
         | VString v \<Rightarrow> Ok (decimalFromString H v scale)
         | _ \<Rightarrow> failed)"

definition time_layouts :: "string list" where
  "time_layouts =
     [''2006-01-02T15:04:05.999999999Z07:00'', ''2006-01-02T15:04:05.999999999'', ''2006-01-02T15:04:05'',
      ''2006-01-02 15:04:05.999999999'', ''2006-01-02 15:04:05'', ''2006-01-02'', ''15:04:05.999999999'',
      ''15:04:05'']"

fun try_layouts :: "host \<Rightarrow> string \<Rightarrow> string list \<Rightarrow> gotime option" where
  "try_layouts H val [] = None"
| "try_layouts H val (layout # ls) =
     (case time_parse H layout val of Some t \<Rightarrow> Some t | None \<Rightarrow> try_layouts H val ls)"

definition timeFromString :: "host \<Rightarrow> string \<Rightarrow> gotime res" where
  "timeFromString H val =
     (case try_layouts H val time_layouts of
        Some t \<Rightarrow> Ok t
      | None \<Rightarrow> Err (Errorf (''unsupported time format: '' @ val)))"

definition toTime :: "host \<Rightarrow> goval \<Rightarrow> gotime res" where
  "toTime H val =
     (case val of
        VStdTime v \<Rightarrow> Ok v
      | VTimestamp v \<Rightarrow> Ok v
      | VDateTime v \<Rightarrow> Ok v
      | VDate v \<Rightarrow> Ok v
      | VTime v \<Rightarrow> Ok v
      | VString v \<Rightarrow> timeFromString H v
      | _ \<Rightarrow> Err (Errorf (''cannot convert '' @ type_text val @ '' to time'')))"

subsection \<open>Elements\<close>

text \<open>A \<^verbatim>\<open>BinaryTupleColumn\<close>; buffers are returned with the element appended.\<close>

record bt_column =
  Kind :: bt_kind
  ColScale :: int

abbreviation (input) varlenEmptyByte :: byte where "varlenEmptyByte \<equiv> 0x80"

definition putUint32 :: "byte list \<Rightarrow> 32 word \<Rightarrow> byte list" where
  "putUint32 buf v = buf @ word_le v"

definition putUint64 :: "byte list \<Rightarrow> 64 word \<Rightarrow> byte list" where
  "putUint64 buf v = buf @ word_le v"

definition appendBinaryTupleValue :: "host \<Rightarrow> byte list \<Rightarrow> bt_column \<Rightarrow> goval \<Rightarrow> byte list res" where
  "appendBinaryTupleValue H buf col val =
     (if val = VNil then Ok buf
      else case Kind col of
        BtNull \<Rightarrow> Ok buf
      | BtBoolean \<Rightarrow> rbind (toBool val) (\<lambda>b. Ok (buf @ [if b then 1 else 0]))
      | BtInt8 \<Rightarrow> rbind (toInt64 val) (putBinaryTupleInt buf (Kind col))
      | BtInt16 \<Rightarrow> rbind (toInt64 val) (putBinaryTupleInt buf (Kind col))
      | BtInt32 \<Rightarrow> rbind (toInt64 val) (putBinaryTupleInt buf (Kind col))
      | BtInt64 \<Rightarrow> rbind (toInt64 val) (putBinaryTupleInt buf (Kind col))
      | BtFloat \<Rightarrow> rbind (toFloat64 val) (\<lambda>f. Ok (putUint32 buf (f64_to_f32 f)))
      | BtDouble \<Rightarrow> rbind (toFloat64 val) (\<lambda>f.
          if f64_eq (f32_to_f64 (f64_to_f32 f)) f then Ok (putUint32 buf (f64_to_f32 f))
          else Ok (putUint64 buf f))
      | BtDecimal \<Rightarrow> rbind (toDecimal H val (ColScale col)) (\<lambda>d.
          Ok ((buf @ word_le (word_of_int (Scale d) :: 16 word)) @ twosComplementBytes (Unscaled d)))
      | BtDate \<Rightarrow> rbind (toTime H val) (\<lambda>t.
          rbind (encodeDate (time_Year t) (time_Month t) (time_Day t)) (\<lambda>dat. Ok (buf @ dat)))
      | BtTime \<Rightarrow> rbind (toTime H val) (\<lambda>t.
          rbind (encodeTime (time_Hour t) (time_Minute t) (time_Second t) (t_nsec t)) (\<lambda>b. Ok (buf @ b)))
      | BtDateTime \<Rightarrow> rbind (toTime H val) (\<lambda>t.
          rbind (encodeDate (time_Year t) (time_Month t) (time_Day t)) (\<lambda>dat.
          rbind (encodeTime (time_Hour t) (time_Minute t) (time_Second t) (t_nsec t)) (\<lambda>b.
            Ok ((buf @ dat) @ b))))
      | BtTimestamp \<Rightarrow> rbind (toTime H val) (\<lambda>t.
          let buf = putUint64 buf (word_of_int (t_unix t)); ns = t_nsec t
          in Ok (if ns \<noteq> 0 then putUint32 buf (word_of_int ns) else buf))
      | BtUuid \<Rightarrow>
          rbind (case val of VUuid u \<Rightarrow> Ok u | VUuidPtr (Some pu) \<Rightarrow> Ok pu
                 | _ \<Rightarrow> Err (Errorf (''cannot convert '' @ type_text val @ '' to UUID'')))
            (\<lambda>u. rbind (le_uint 8 (take 8 u)) (\<lambda>lo. rbind (le_uint 8 (take 8 (drop 8 u))) (\<lambda>hi.
               Ok (putUint64 (putUint64 buf lo) hi))))
      | BtString \<Rightarrow>
          (let s = (case val of VString s \<Rightarrow> s | _ \<Rightarrow> sprint_v H val)
           in if s = '''' then Ok (buf @ [varlenEmptyByte]) else Ok (buf @ str_bytes s))
      | BtBytes \<Rightarrow>
          rbind (case val of VBytes v \<Rightarrow> Ok v | VString v \<Rightarrow> Ok (str_bytes v)
                 | _ \<Rightarrow> Err (Errorf (''cannot convert '' @ type_text val @ '' to byte array'')))
            (\<lambda>b. let buf = (if length b = 0 \<or> b ! 0 = varlenEmptyByte then buf @ [varlenEmptyByte] else buf)
                 in Ok (buf @ b))
      | BtOther n \<Rightarrow> Err (Errorf (''unsupported binary tuple kind: '' @ int_text (bt_kind_number (Kind col)))))"

subsection \<open>Whole tuples\<close>

text \<open>The loop over the columns: the value area and the end offsets, or the first column's error.\<close>

fun appendAll :: "host \<Rightarrow> nat \<Rightarrow> byte list \<Rightarrow> (bt_column \<times> goval) list \<Rightarrow> (byte list \<times> 32 word list) res" where
  "appendAll H i buf [] = Ok (buf, [])"
| "appendAll H i buf ((col, val) # rest) =
     (case appendBinaryTupleValue H buf col val of
        Panic p \<Rightarrow> Panic p
      | Err e \<Rightarrow> Err (Errorf (''binary tuple: column '' @ nat_text i @ '': '' @ err_text e))
      | Ok buf' \<Rightarrow>
          rbind (appendAll H (Suc i) buf' rest) (\<lambda>(area, offs).
            Ok (area, word_of_nat (length buf') # offs)))"

text \<open>What follows the loop: the entry size, the header, the offset table and the value area.\<close>

definition bt_finish :: "byte list \<Rightarrow> 32 word list \<Rightarrow> byte list res" where
  "bt_finish area offs =
     rbind (if length area \<le> 0xff then Ok 1
            else if length area \<le> 0xffff then Ok 2
            else if length area \<le> 2 ^ 31 - 1 then Ok 4
            else Err (Errorf (''binary tuple: value area is too big: '' @ nat_text (length area) @ '' bytes'')))
       (\<lambda>entrySize.
         let out = [if entrySize = 1 then 0 else if entrySize = 2 then 1 else 2];
             out = foldl (\<lambda>out off. out @ take entrySize (word_le off)) out offs
         in Ok (out @ area))"

definition BuildBinaryTuple :: "host \<Rightarrow> bt_column list \<Rightarrow> goval list \<Rightarrow> byte list res" where
  "BuildBinaryTuple H cols vals =
     (if length cols \<noteq> length vals
      then Err (Errorf (''binary tuple: '' @ nat_text (length cols) @ '' columns but '' @
                        nat_text (length vals) @ '' values''))
      else rbind (appendAll H 0 [] (zip cols vals)) (\<lambda>(area, offs). bt_finish area offs))"

subsection \<open>A tuple is its elements\<close>

text \<open>An element does not depend on what is before it in the buffer.\<close>

abbreviation bt_element :: "host \<Rightarrow> bt_column \<Rightarrow> goval \<Rightarrow> byte list res" where
  "bt_element H col val \<equiv> appendBinaryTupleValue H [] col val"

lemma rmap_rbind: "rmap g (rbind m f) = rbind m (\<lambda>x. rmap g (f x))"
  by (cases m) simp_all

lemma rbind_cong: "(\<And>x. f x = g x) \<Longrightarrow> rbind m f = rbind m g"
  by (cases m) simp_all

lemma putBinaryTupleInt_append: "putBinaryTupleInt buf k n = rmap ((@) buf) (putBinaryTupleInt [] k n)"
  by (cases k) (simp_all add: putBinaryTupleInt_def Let_def)

lemma appendBinaryTupleValue_append:
  "appendBinaryTupleValue H buf col val = rmap ((@) buf) (bt_element H col val)"
proof -
  have int: "rbind m (putBinaryTupleInt buf k) = rmap ((@) buf) (rbind m (putBinaryTupleInt [] k))" for m k
    unfolding rmap_rbind using putBinaryTupleInt_append by (rule rbind_cong)
  show ?thesis
  proof (cases "Kind col")
    case BtDouble
    then show ?thesis
      by (simp add: appendBinaryTupleValue_def rmap_rbind) (auto intro!: rbind_cong simp: putUint32_def putUint64_def)
  next
    case BtTimestamp
    then show ?thesis
      by (simp add: appendBinaryTupleValue_def rmap_rbind) (auto intro!: rbind_cong simp: putUint32_def putUint64_def Let_def)
  next
    case BtBytes
    then show ?thesis
      by (simp add: appendBinaryTupleValue_def rmap_rbind) (auto intro!: rbind_cong simp: Let_def)
  qed (simp_all add: appendBinaryTupleValue_def int, simp_all add: rmap_rbind putUint32_def putUint64_def Let_def)
qed

text \<open>The end offset of each element, counted from \<open>n\<close>.\<close>

fun ends :: "nat \<Rightarrow> 'a list list \<Rightarrow> nat list" where
  "ends n [] = []"
| "ends n (e # es) = (n + length e) # ends (n + length e) es"

lemma length_ends [simp]: "length (ends n es) = length es"
  by (induction es arbitrary: n) auto

lemma ends_nth: "i < length es \<Longrightarrow> ends n es ! i = n + length (concat (take (Suc i) es))"
  by (induction es arbitrary: n i) (auto simp: nth_Cons split: nat.split)

lemma ends_le: "x \<in> set (ends n es) \<Longrightarrow> x \<le> n + length (concat es)"
  by (induction es arbitrary: n) fastforce+

lemma appendAll_Ok_iff:
  "appendAll H i buf cvs = Ok (area, offs) \<longleftrightarrow>
     (\<exists>es. list_all2 (\<lambda>cv e. bt_element H (fst cv) (snd cv) = Ok e) cvs es \<and> area = buf @ concat es \<and>
           offs = map word_of_nat (ends (length buf) es))"
proof (induction cvs arbitrary: i buf area offs)
  case Nil
  then show ?case by auto
next
  case (Cons cv cvs)
  obtain col val where cv: "cv = (col, val)" by (cases cv)
  show ?case
  proof (cases "bt_element H col val")
    case (Ok e)
    then show ?thesis
      by (auto simp: cv appendBinaryTupleValue_append [of H buf] Cons list_all2_Cons1)
  qed (auto simp: cv appendBinaryTupleValue_append [of H buf] list_all2_Cons1)
qed

definition entry_size :: "nat \<Rightarrow> nat" where
  "entry_size area = (if area \<le> 0xff then 1 else if area \<le> 0xffff then 2 else 4)"

definition bt_header :: "nat \<Rightarrow> byte" where
  "bt_header area = (if area \<le> 0xff then 0 else if area \<le> 0xffff then 1 else 2)"

lemma foldl_append_map: "foldl (\<lambda>out x. out @ f x) out xs = out @ concat (map f xs)"
  by (induction xs arbitrary: out) auto

lemma take_le_bytes: "k \<le> n \<Longrightarrow> take k (le_bytes n v) = le_bytes k v"
  by (simp add: le_bytes_map take_map)

lemma take_word_le: "o' < 2 ^ 32 \<Longrightarrow> k \<le> 4 \<Longrightarrow> take k (word_le (word_of_nat o' :: 32 word)) = le_bytes k o'"
  by (simp add: word_le_def take_le_bytes unat_word_of_nat_id del: of_nat_unat)

definition bt_layout :: "byte list list \<Rightarrow> byte list" where
  "bt_layout es =
     (let area = concat es; sz = entry_size (length area)
      in bt_header (length area) # concat (map (le_bytes sz) (ends 0 es)) @ area)"

lemma bt_finish_layout:
  "bt_finish (concat es) (map word_of_nat (ends 0 es)) =
     (if length (concat es) \<le> 2 ^ 31 - 1 then Ok (bt_layout es)
      else Err (Errorf (''binary tuple: value area is too big: '' @ nat_text (length (concat es)) @ '' bytes'')))"
proof -
  define n where "n = length (concat es)"
  have sz: "(if n \<le> 0xff then Ok 1 else if n \<le> 0xffff then Ok 2 else if n \<le> 2 ^ 31 - 1 then Ok (4::nat) else Err e)
    = (if n \<le> 2 ^ 31 - 1 then Ok (entry_size n) else Err e)" for e
    by (simp add: entry_size_def)
  have h: "(if entry_size n = 1 then 0 else if entry_size n = 2 then 1 else 2) = bt_header n" "entry_size n \<le> 4"
    by (simp_all add: entry_size_def bt_header_def)
  have "map (\<lambda>x. take (entry_size n) (word_le (word_of_nat x :: 32 word))) (ends 0 es) = map (le_bytes (entry_size n)) (ends 0 es)"
    if "n \<le> 2 ^ 31 - 1"
    using that ends_le [of _ 0 es] h(2) by (intro map_cong refl take_word_le) (fastforce simp: n_def)+
  then have "foldl (\<lambda>out off. out @ take (entry_size n) (word_le off)) [bt_header n] (map word_of_nat (ends 0 es) :: 32 word list)
      = bt_header n # concat (map (le_bytes (entry_size n)) (ends 0 es))" if "n \<le> 2 ^ 31 - 1"
    using that by (simp add: foldl_append_map o_def del: map_eq_conv)
  then show ?thesis
    unfolding bt_finish_def bt_layout_def Let_def n_def [symmetric] sz
    by (cases "n \<le> 2 ^ 31 - 1") (simp_all only: if_True if_False rbind.simps h append_Cons)
qed

lemma BuildBinaryTuple_Ok_iff:
  "BuildBinaryTuple H cols vals = Ok out \<longleftrightarrow>
     length cols = length vals \<and>
     (\<exists>es. list_all2 (\<lambda>cv e. bt_element H (fst cv) (snd cv) = Ok e) (zip cols vals) es \<and>
           length (concat es) \<le> 2 ^ 31 - 1 \<and> out = bt_layout es)"
proof -
  have "rbind (appendAll H 0 [] cvs) (\<lambda>(area, offs). bt_finish area offs) = Ok out \<longleftrightarrow>
    (\<exists>es. list_all2 (\<lambda>cv e. bt_element H (fst cv) (snd cv) = Ok e) cvs es \<and>
          bt_finish (concat es) (map word_of_nat (ends 0 es)) = Ok out)" for cvs
    by (auto simp: appendAll_Ok_iff)
  then show ?thesis by (auto simp: BuildBinaryTuple_def bt_finish_layout split: if_splits)
qed

subsection \<open>Elements of each kind\<close>

lemma bt_element_nil [simp]: "bt_element H col VNil = Ok []"
  by (simp add: appendBinaryTupleValue_def)

lemma putBinaryTupleInt_not_Nil: "putBinaryTupleInt [] k n \<noteq> Ok []"
  by (cases k) (auto simp: putBinaryTupleInt_def Let_def word_le_def)

text \<open>Only NULL elements are empty.\<close>

lemma bt_element_Nil_iff:
  assumes "bt_element H col val = Ok e"
  shows "e = [] \<longleftrightarrow> val = VNil \<or> Kind col = BtNull"
proof (cases "val = VNil \<or> Kind col = BtNull")
  case True
  then show ?thesis using assms by (auto simp: appendBinaryTupleValue_def split: if_splits)
next
  case False
  have ne: "word_le (w16 :: 16 word) \<noteq> []" "word_le (w32 :: 32 word) \<noteq> []" "word_le (w64 :: 64 word) \<noteq> []"
    for w16 w32 w64
    by (simp_all add: word_le_def)
  have "e \<noteq> []"
  proof (cases "Kind col")
    case BtString
    then show ?thesis using assms False
      by (simp add: appendBinaryTupleValue_def Let_def split: if_splits) auto
  next
    case BtBytes
    then show ?thesis using assms False
      by (auto simp: appendBinaryTupleValue_def Let_def split: if_splits)
  qed (use assms False putBinaryTupleInt_not_Nil in
      \<open>auto simp: appendBinaryTupleValue_def ne putUint32_def putUint64_def Let_def
         encodeDate_Ok_iff encodeTime_Ok_iff split: if_splits\<close>)
  with False show ?thesis by simp
qed

fun wf_goval :: "goval \<Rightarrow> bool" where
  "wf_goval (VUuid u) = wf_uuid u"
| "wf_goval (VUuidPtr (Some u)) = wf_uuid u"
| "wf_goval (VTime t) = wf_time t"
| "wf_goval (VDate t) = wf_time t"
| "wf_goval (VDateTime t) = wf_time t"
| "wf_goval (VTimestamp t) = wf_time t"
| "wf_goval (VStdTime t) = wf_time t"
| "wf_goval _ = True"

lemma rbind_Panic_iff: "rbind m f = Panic p \<longleftrightarrow> m = Panic p \<or> (\<exists>x. m = Ok x \<and> f x = Panic p)"
  by (cases m) auto

lemma conversions_no_panic [simp]:
  "toBool v \<noteq> Panic p" "toInt64 v \<noteq> Panic p" "toFloat64 v \<noteq> Panic p" "toDecimal H v sc \<noteq> Panic p"
  "toTime H v \<noteq> Panic p" "encodeDate y m d \<noteq> Panic p" "encodeTime h mi s ns \<noteq> Panic p" "putBinaryTupleInt b k n \<noteq> Panic p"
  by (auto simp: toBool_def toInt64_def toFloat64_def toDecimal_def toTime_def timeFromString_def encodeDate_bytes
      encodeTime_bytes putBinaryTupleInt_def Let_def split: goval.split option.split bt_kind.split)

lemma bt_element_no_panic:
  assumes "wf_goval val"
  shows "appendBinaryTupleValue H buf col val \<noteq> Panic p"
proof (cases "Kind col = BtUuid")
  case True
  with assms show ?thesis
    by (cases val rule: wf_goval.cases)
      (simp_all add: appendBinaryTupleValue_def le_uint_def wf_uuid_def split: option.split)
next
  case False
  then show ?thesis
    by (cases "Kind col"; cases val) (simp_all add: appendBinaryTupleValue_def rbind_Panic_iff Let_def)
qed

lemma appendAll_failure:
  assumes "k < length cvs" and "\<forall>j < k. \<exists>e. bt_element H (fst (cvs ! j)) (snd (cvs ! j)) = Ok e"
    and "bt_element H (fst (cvs ! k)) (snd (cvs ! k)) = Err x"
  shows "appendAll H i buf cvs =
    Err (Errorf (''binary tuple: column '' @ nat_text (i + k) @ '': '' @ err_text x))"
  using assms
proof (induction cvs arbitrary: i buf k)
  case (Cons cv cvs)
  obtain col val where cv: "cv = (col, val)" by (cases cv)
  show ?case
  proof (cases k)
    case 0
    then show ?thesis using Cons.prems(3) by (simp add: cv appendBinaryTupleValue_append [of H buf])
  next
    case (Suc k')
    obtain e where "bt_element H col val = Ok e" using Cons.prems(2) Suc by (auto simp: cv)
    moreover have "\<forall>j<k'. \<exists>e. bt_element H (fst (cvs ! j)) (snd (cvs ! j)) = Ok e"
      using Cons.prems(2) Suc by (metis Suc_less_eq nth_Cons_Suc)
    ultimately show ?thesis
      using Cons.IH [of k' "Suc i" "buf @ e"] Cons.prems(1,3) Suc
      by (simp add: cv appendBinaryTupleValue_append [of H buf])
  qed
qed simp

lemma appendAll_no_panic: "\<forall>cv \<in> set cvs. wf_goval (snd cv) \<Longrightarrow> appendAll H i buf cvs \<noteq> Panic p"
  by (induction cvs arbitrary: i buf) (auto simp: rbind_Panic_iff bt_element_no_panic split: res.splits)

subsection \<open>Properties\<close>

text \<open>C8: \<^verbatim>\<open>BuildBinaryTuple\<close> succeeds exactly when there are as many values as columns, every value
  converts to its column's kind and the elements fit into a signed 32-bit length. The result is then
  one header byte (the logarithm of the entry size), one little-endian entry per column holding the
  end of its element (the length of all elements up to it), and the elements in order; the entry
  size is the smallest of 1, 2 and 4 that can hold the length of the value area.\<close>

theorem BuildBinaryTuple_layout:
  "BuildBinaryTuple H cols vals = Ok out \<longleftrightarrow>
     length cols = length vals \<and>
     (\<exists>es sz hd. map (\<lambda>(c, v). appendBinaryTupleValue H [] c v) (zip cols vals) = map Ok es \<and>
        length (concat es) < 2 ^ 31 \<and>
        (sz, hd) = (if length (concat es) < 2 ^ 8 then (1, 0) else if length (concat es) < 2 ^ 16 then (2, 1) else (4, 2)) \<and>
        out = hd # concat (map (\<lambda>i. le_bytes sz (length (concat (take (Suc i) es)))) [0..<length es]) @ concat es)"
proof -
  have l: "list_all2 (\<lambda>cv e. bt_element H (fst cv) (snd cv) = Ok e) cvs es \<longleftrightarrow>
    map (\<lambda>(c, v). bt_element H c v) cvs = map Ok es" for cvs es
    by (auto simp: list_all2_conv_all_nth list_eq_iff_nth_eq split_beta)
  have "ends 0 es = map (\<lambda>i. length (concat (take (Suc i) es))) [0..<length es]" for es :: "byte list list"
    by (intro nth_equalityI) (simp_all add: ends_nth)
  then have b: "bt_layout es = bt_header (length (concat es)) #
      concat (map (\<lambda>i. le_bytes (entry_size (length (concat es))) (length (concat (take (Suc i) es)))) [0..<length es]) @ concat es"
    for es by (simp add: bt_layout_def Let_def o_def)
  have "n \<le> 2 ^ 31 - 1 \<longleftrightarrow> n < 2 ^ 31" for n :: nat by auto
  moreover have "(sz, hd) = (if n < 2 ^ 8 then (1, 0) else if n < 2 ^ 16 then (2, 1) else (4, 2)) \<longleftrightarrow>
    sz = entry_size n \<and> hd = bt_header n" for n sz hd by (auto simp: entry_size_def bt_header_def)
  ultimately show ?thesis unfolding BuildBinaryTuple_Ok_iff l b by simp
qed

text \<open>C35: the element of a value has no bytes exactly when the value is nil or the column is of the
  NULL kind: zero length is an unambiguous NULL marker for every kind and value.\<close>

theorem null_iff_empty:
  assumes "appendBinaryTupleValue H buf col val = Ok buf'"
  shows "\<exists>e. buf' = buf @ e \<and> (e = []) = (val = VNil \<or> Kind col = BtNull)"
  using assms bt_element_Nil_iff [of H col val] by (auto simp: appendBinaryTupleValue_append [of H buf])

theorem null_iff_empty_witness:
  "\<exists>e. [7, 0x80 :: byte] = [7] @ e \<and> (e = []) = (VString '''' = VNil \<or> Kind \<lparr>Kind = BtString, ColScale = 0\<rparr> = BtNull)"
  by (rule null_iff_empty [where H = exact_host]) (simp add: appendBinaryTupleValue_def)

text \<open>C36: when every value before column \<open>k\<close> converts and the one of column \<open>k\<close> fails with an error,
  the tuple is not built and the error names column \<open>k\<close> and that error.\<close>

theorem BuildBinaryTuple_first_error:
  assumes "length cols = length vals" and "k < length cols"
    and "\<And>j. j < k \<Longrightarrow> \<exists>e. appendBinaryTupleValue H [] (cols ! j) (vals ! j) = Ok e"
    and "appendBinaryTupleValue H [] (cols ! k) (vals ! k) = Err x"
  shows "BuildBinaryTuple H cols vals =
    Err (Errorf (''binary tuple: column '' @ nat_text k @ '': '' @ err_text x))"
  using appendAll_failure [of k "zip cols vals" H x 0 "[]"] assms by (simp add: BuildBinaryTuple_def)

theorem BuildBinaryTuple_first_error_witness:
  "BuildBinaryTuple exact_host [\<lparr>Kind = BtBytes, ColScale = 0\<rparr>, \<lparr>Kind = BtUuid, ColScale = 0\<rparr>] [VString ''a'', VBool True] =
     Err (Errorf (''binary tuple: column '' @ nat_text 1 @ '': '' @
                  err_text (Errorf (''cannot convert '' @ ''bool'' @ '' to UUID''))))"
  by (rule BuildBinaryTuple_first_error) (simp_all add: appendBinaryTupleValue_def)

text \<open>\<^verbatim>\<open>BuildBinaryTuple\<close> never panics: for every list of columns and every list of values whose UUIDs
  have 16 bytes and whose times are normalised, of whatever kinds and lengths, it returns a tuple or
  an error.\<close>

theorem BuildBinaryTuple_safe:
  assumes "list_all wf_goval vals"
  shows "(\<exists>out. BuildBinaryTuple H cols vals = Ok out) \<noteq> (\<exists>e. BuildBinaryTuple H cols vals = Err e)"
proof -
  have "\<forall>cv \<in> set (zip cols vals). wf_goval (snd cv)"
    using assms by (auto simp: list_all_iff dest: set_zip_rightD)
  then have "rbind (appendAll H 0 [] (zip cols vals)) (\<lambda>(area, offs). bt_finish area offs) \<noteq> Panic p" for p
    by (auto simp: rbind_Panic_iff appendAll_no_panic bt_finish_def Let_def split: if_splits)
  then have "BuildBinaryTuple H cols vals \<noteq> Panic p" for p by (simp add: BuildBinaryTuple_def)
  then show ?thesis by (cases "BuildBinaryTuple H cols vals") auto
qed

theorem BuildBinaryTuple_safe_witness:
  "(\<exists>out. BuildBinaryTuple exact_host [] [VUuid (replicate 16 0), VNil] = Ok out) \<noteq>
   (\<exists>e. BuildBinaryTuple exact_host [] [VUuid (replicate 16 0), VNil] = Err e)"
  by (rule BuildBinaryTuple_safe) (simp add: wf_uuid_def)

end
