(* ===== verification/TupleReader.thy ===== *)
theory TupleReader
  imports BinaryTuple ColumnTypes
begin

text \<open>
  Reading a binary tuple (tuple.go): \<^verbatim>\<open>NewTupleFromByteArrayWithMetadata\<close> cuts the value area by the
  offset table, \<^verbatim>\<open>GetValue\<close> decodes one element. Every index and slice expression of the code that can
  go out of range is a panic of the model. The lemmas show what is read from a well-formed layout.
\<close>

subsection \<open>The tuple\<close>

record tsv =
  Type :: int
  TScale :: int
  TPrecision :: int
  Value :: "byte list"

record tuple =
  binTupleValue :: "byte list"
  tvalues :: "tsv list"
  numElements :: int
  entrySize :: int
  entryBase :: int
  valueBase :: int

definition headerSize :: int where "headerSize = 1"
definition tsvTypeSize :: int where "tsvTypeSize = 1"

definition empty_tuple :: tuple where
  "empty_tuple = \<lparr>binTupleValue = [], tvalues = [], numElements = 0, entrySize = 0, entryBase = 0, valueBase = 0\<rparr>"

text \<open>The verb \%x of a number.\<close>

definition hex_digit :: "nat \<Rightarrow> char" where
  "hex_digit d = char_of (if d < 10 then 48 + d else 87 + d)"

fun hex_nat :: "nat \<Rightarrow> string" where
  "hex_nat n = (if n < 16 then [hex_digit n] else hex_nat (n div 16) @ [hex_digit (n mod 16)])"

declare hex_nat.simps [simp del]

definition hex_text :: "int \<Rightarrow> string" where
  "hex_text i = (if i < 0 then CHR ''-'' # hex_nat (nat (- i)) else hex_nat (nat i))"

definition toHeader :: "int \<Rightarrow> byte" where
  "toHeader t = (if t = 8 then 3 else word_of_int (t div 2))"

definition fromHeader :: "byte \<Rightarrow> int res" where
  "fromHeader header =
     (if header = 3 then Ok 8
      else if header = 0 then Ok 1
      else if header = 1 \<or> header = 2 then Ok (uint header * 2)
      else Err (Errorf (''Invalid header: '' @ hex_text (uint header))))"

definition entryOffset :: "tuple \<Rightarrow> int \<Rightarrow> int res" where
  "entryOffset t i =
     (if i < 0 then Ok 0
      else let pos = entryBase t + i * entrySize t
           in if entrySize t = 1 then rmap uint (index_at (binTupleValue t) pos)
              else if entrySize t = 2
              then rmap (\<lambda>b. int (le_nat b)) (slice_of (binTupleValue t) pos (pos + 2))
              else if entrySize t = 4
              then rmap (\<lambda>b. int (le_nat b)) (slice_of (binTupleValue t) pos (pos + 4))
              else if entrySize t = 8
              then rmap (\<lambda>b. sint (word_of_nat (le_nat b) :: 64 word)) (slice_of (binTupleValue t) pos (pos + 8))
              else Ok (-1))"

subsection \<open>NewTupleFromByteArrayWithMetadata\<close>

text \<open>One round of the loop: the bytes of element \<open>i\<close>, copied (reversed for the wider integers) and
  with the marker byte of variable-length types removed.\<close>

definition strip_marker :: "byte list \<Rightarrow> byte list" where
  "strip_marker v = (if 0 < length v \<and> v ! 0 = 0x80 then (if 1 < length v then drop 1 v else []) else v)"

definition read_element :: "tuple \<Rightarrow> column_metadata \<Rightarrow> int \<Rightarrow> tsv res" where
  "read_element t col i =
     rbind (deref (CType col)) (\<lambda>ct.
     let ty = wrap 8 (TypeId ct) in
     rbind (entryOffset t (i - 1)) (\<lambda>offStart.
     rbind (if i = numElements t - 1 then Ok (int (length (binTupleValue t)) - valueBase t) else entryOffset t i)
       (\<lambda>offEnd.
     let n = wrap 64 (offEnd - offStart) in
     if n < 0 then Panic MakeSliceLen
     else rbind
       (if ty = typeSMALLINT \<or> ty = typeINT \<or> ty = typeBIGINT
        then mapR (\<lambda>k. index_at (binTupleValue t) (valueBase t + offEnd - (int k + 1))) [0..<nat n]
        else if ty = typeVARCHAR \<or> ty = typeVARBINARY
        then rmap strip_marker (mapR (\<lambda>k. index_at (binTupleValue t) (valueBase t + offStart + int k)) [0..<nat n])
        else mapR (\<lambda>k. index_at (binTupleValue t) (valueBase t + offStart + int k)) [0..<nat n])
       (\<lambda>v. Ok \<lparr>Type = ty, TScale = wrap 16 (MScale col), TPrecision = Precision col, Value = v\<rparr>))))"

definition NewTupleFromByteArrayWithMetadata :: "result_metadata \<Rightarrow> byte list \<Rightarrow> tuple res" where
  "NewTupleFromByteArrayWithMetadata meta bufr =
     (if int (length bufr) < headerSize then Err (Errorf ''tuple length is too small'')
      else let n = int (length (Columns meta)) in
        rbind (fromHeader (bufr ! 0)) (\<lambda>es.
          let tup = \<lparr>binTupleValue = bufr, tvalues = [], numElements = n, entrySize = es, entryBase = headerSize,
                     valueBase = headerSize + n * es\<rparr>
          in rbind (mapR (\<lambda>i. read_element tup (Columns meta ! i) (int i)) [0..<length (Columns meta)])
               (\<lambda>vs. Ok (tup\<lparr>tvalues := vs\<rparr>))))"

definition GetLength :: "tuple \<Rightarrow> int" where
  "GetLength t = numElements t"

subsection \<open>GetValue\<close>

definition expandIntValue :: "tsv \<Rightarrow> int \<Rightarrow> goval res" where
  "expandIntValue v valType =
     rbind (decodeBigEndianTwosComplement (Value v)) (\<lambda>n.
       if valType = typeTINYINT then Ok (VInt8 (ucast n))
       else if valType = typeSMALLINT then Ok (VInt16 (ucast n))
       else if valType = typeINT then Ok (VInt32 (ucast n))
       else if valType = typeBIGINT then Ok (VInt64 n)
       else Err (Errorf (''Type not implemented: '' @ hex_text valType)))"

definition expandDoubleValue :: "tsv \<Rightarrow> goval res" where
  "expandDoubleValue v =
     (if length (Value v) = 4 then rmap VFloat32 (le_uint 4 (Value v))
      else if length (Value v) = 8 then rmap VFloat64 (le_uint 8 (Value v))
      else Err (Errorf (''Length not implemented for DOUBLE: '' @ int_text (int (length (Value v))))))"

text \<open>
  The switch over the type, on the bytes of one element; \<open>loc\<close> is the offset of the local zone at an
  instant, used by \<^verbatim>\<open>time.Unix\<close>.
\<close>

definition element_value :: "(int \<Rightarrow> int) \<Rightarrow> tsv \<Rightarrow> int \<Rightarrow> goval res" where
  "element_value loc v valType =
     (if valType = typeBOOLEAN then rmap (\<lambda>b. VBool (b \<noteq> 0)) (index_at (Value v) 0)
      else if valType \<in> {typeTINYINT, typeSMALLINT, typeINT, typeBIGINT} then expandIntValue v valType
      else if valType = typeREAL then rmap VFloat32 (le_uint 4 (Value v))
      else if valType = typeDOUBLE then expandDoubleValue v
      else if valType = typeDECIMAL
      then rbind (slice_of (Value v) 0 2) (\<lambda>sc.
             let scale = sint (word_of_nat (le_nat sc) :: 16 word); raw = drop 2 (Value v)
             in Ok (VDecimal \<lparr>Unscaled = Some (signed_be raw), Scale = scale\<rparr>))
      else if valType = typeDATE
      then rmap (\<lambda>d. VStdTime (time_Date (time_Year d) (time_Month d) (time_Day d) 0 0 0 0)) (decodeDate (Value v))
      else if valType = typeTIME then rmap VStdTime (decodeTime (Value v) (TPrecision v))
      else if valType = typeDATETIME
      then (if 6 < length (Value v)
            then rbind (decodeDate (Value v)) (\<lambda>d. rbind (decodeTime (Value v) (TPrecision v)) (\<lambda>tm.
                   Ok (VStdTime (time_Date (time_Year d) (time_Month d) (time_Day d)
                         (time_Hour tm) (time_Minute tm) (time_Second tm) (t_nsec tm)))))
            else Ok (VStdTime zero_time))
      else if valType = typeTIMESTAMP then rmap VStdTime (decodeTimestamp loc (Value v))
      else if valType = typeUUID
      then (if length (Value v) < 16 then Panic IndexOutOfRange
            else Ok (VUuid (uuid_Flip (take 16 (Value v)))))
      else if valType = typeVARCHAR then Ok (VString (bytes_str (Value v)))
      else if valType = typeVARBINARY then Ok (VBytes (Value v))
      else Err (Errorf (''Type not implemented : '' @ hex_text valType)))"

definition GetValue :: "(int \<Rightarrow> int) \<Rightarrow> tuple \<Rightarrow> int \<Rightarrow> int \<Rightarrow> goval res" where
  "GetValue loc t index valType =
     (if index < 0 \<or> int (length (tvalues t)) < index then Err (Errorf ''Index is invalid'')
      else if valType = typeNULL then Ok VNil
      else rbind (index_at (tvalues t) index) (\<lambda>v.
        if length (Value v) = 0 then Ok VNil else element_value loc v valType))"

subsection \<open>Reading a layout\<close>

lemma chunk_at:
  assumes "\<And>x. x \<in> set xs \<Longrightarrow> length (f x) = k" and "i < length xs"
  shows "take k (drop (i * k) (concat (map f xs))) = f (xs ! i)"
  using assms
proof (induction xs arbitrary: i)
  case (Cons x xs)
  then show ?case by (cases i) (simp_all add: add.commute)
qed simp

lemma length_chunks: "(\<And>x. x \<in> set xs \<Longrightarrow> length (f x) = k) \<Longrightarrow> length (concat (map f xs)) = length xs * k"
  by (induction xs) auto

lemma take_drop_concat:
  assumes "i < length es"
  shows "take (length (es ! i)) (drop (length (concat (take i es))) (concat es)) = es ! i"
proof -
  have "concat es = concat (take i es) @ es ! i @ concat (drop (Suc i) es)"
    using assms by (metis append_take_drop_id concat.simps(2) concat_append Cons_nth_drop_Suc)
  then show ?thesis by simp
qed

lemma length_concat_take_Suc:
  "i < length es \<Longrightarrow> length (concat (take (Suc i) es)) = length (concat (take i es)) + length (es ! i)"
  by (simp add: take_Suc_conv_app_nth)

lemma length_concat_take_le: "length (concat (take i es)) \<le> length (concat es)"
  by (metis append_take_drop_id concat_append le_add1 length_append)

text \<open>What the reader keeps of an element's bytes.\<close>

definition stored :: "int \<Rightarrow> byte list \<Rightarrow> byte list" where
  "stored ty e =
     (if ty = typeSMALLINT \<or> ty = typeINT \<or> ty = typeBIGINT then rev e
      else if ty = typeVARCHAR \<or> ty = typeVARBINARY then strip_marker e else e)"

text \<open>The tuple before its values are cut, for a layout of \<open>es\<close>.\<close>

definition layout_tuple :: "byte list list \<Rightarrow> tuple" where
  "layout_tuple es =
     (let sz = int (entry_size (length (concat es)))
      in \<lparr>binTupleValue = bt_layout es, tvalues = [], numElements = int (length es), entrySize = sz,
          entryBase = headerSize, valueBase = headerSize + int (length es) * sz\<rparr>)"

lemma bt_layout_split:
  "bt_layout es = bt_header (length (concat es)) #
     concat (map (le_bytes (entry_size (length (concat es)))) (ends 0 es)) @ concat es"
  by (simp add: bt_layout_def Let_def)

lemma length_bt_layout:
  "length (bt_layout es) = 1 + length es * entry_size (length (concat es)) + length (concat es)"
  unfolding bt_layout_split by (simp only: length_Cons length_append) (subst length_chunks [where k = "entry_size (length (concat es))"]; simp)

lemma table_entry:
  assumes "i < length es" and "sz = entry_size (length (concat es))"
  shows "take sz (drop (1 + i * sz) (bt_layout es)) = le_bytes sz (length (concat (take (Suc i) es)))"
proof -
  have l: "length (concat (map (le_bytes sz) (ends 0 es))) = length es * sz"
    by (subst length_chunks [where k = sz]) simp_all
  have "i * sz + sz \<le> length es * sz" using assms(1) by (metis add.commute mult_Suc mult_le_mono1 Suc_leI)
  then have "take sz (drop (1 + i * sz) (bt_layout es)) = take sz (drop (i * sz) (concat (map (le_bytes sz) (ends 0 es))))"
    unfolding bt_layout_split assms(2) [symmetric] using l by simp
  also have "\<dots> = le_bytes sz (ends 0 es ! i)" using assms(1) by (subst chunk_at) simp_all
  finally show ?thesis using assms(1) by (simp add: ends_nth)
qed

lemma entryOffset_layout:
  assumes "i < length es" and "length (concat es) \<le> 2 ^ 31 - 1"
  shows "entryOffset (layout_tuple es) (int i) = Ok (int (length (concat (take (Suc i) es))))"
proof -
  define sz where "sz = entry_size (length (concat es))"
  define v where "v = length (concat (take (Suc i) es))"
  have v: "v \<le> length (concat es)" unfolding v_def by (rule length_concat_take_le)
  have sz: "sz = 1 \<and> v < 256 \<or> sz = 2 \<and> v < 65536 \<or> sz = 4 \<and> v < 2 ^ 31"
    using v assms(2) by (auto simp: sz_def entry_size_def)
  have e: "take sz (drop (1 + i * sz) (bt_layout es)) = le_bytes sz v"
    unfolding v_def by (rule table_entry [OF assms(1) sz_def])
  have pos: "entryBase (layout_tuple es) + int i * int sz = int (1 + i * sz)"
    by (simp add: layout_tuple_def Let_def headerSize_def sz_def)
  have "Suc i * sz \<le> length es * sz" using assms(1) by (intro mult_le_mono1) simp
  then have "1 + i * sz + sz \<le> length (bt_layout es)" by (simp add: length_bt_layout flip: sz_def)
  then have sl: "slice_of (bt_layout es) (int (1 + i * sz)) (int (1 + i * sz) + int sz) = Ok (le_bytes sz v)"
    by (simp only: slice_of_Ok e)
  have t: "binTupleValue (layout_tuple es) = bt_layout es" "entrySize (layout_tuple es) = int sz"
    by (simp_all add: layout_tuple_def Let_def sz_def)
  from sz consider "sz = 1" "v < 256" | "sz = 2" "v < 65536" | "sz = 4" "v < 2 ^ 31" by blast
  then have "entryOffset (layout_tuple es) (int i) = Ok (int v)"
  proof cases
    case 1
    have "1 + i < length (bt_layout es)" using \<open>1 + i * sz + sz \<le> _\<close> 1 by simp
    moreover have "bt_layout es ! (1 + i) = word_of_nat v"
      using e 1 calculation by (simp add: take_Suc_conv_app_nth)
    ultimately have "index_at (bt_layout es) (int (1 + i * sz)) = Ok (word_of_nat v)"
      using 1 by (simp only: index_at_Ok mult_1_right)
    moreover have "unat (word_of_nat v :: byte) = v" using 1 by (intro unat_word_of_nat_id) simp
    then have "uint (word_of_nat v :: byte) = int v" by (simp only: uint_nat)
    ultimately show ?thesis unfolding entryOffset_def Let_def pos t using 1 by simp
  next
    case 2
    then show ?thesis unfolding entryOffset_def Let_def pos t using sl by (simp add: le_nat_le_bytes)
  next
    case 3
    then show ?thesis unfolding entryOffset_def Let_def pos t using sl by (simp add: le_nat_le_bytes)
  qed
  then show ?thesis by (simp only: v_def)
qed


lemma mapR_index_at_rev:
  assumes "a + n \<le> length xs"
  shows "mapR (\<lambda>k. index_at xs (int (a + n) - (int k + 1))) [0..<n] = Ok (rev (take n (drop a xs)))"
proof -
  have "mapR (\<lambda>k. index_at xs (int (a + n) - (int k + 1))) [0..<n] = Ok (map (\<lambda>k. xs ! (a + n - Suc k)) [0..<n])"
  proof (rule mapR_Ok)
    fix k assume "k \<in> set [0..<n]"
    then have k: "k < n" by simp
    then have "int (a + n) - (int k + 1) = int (a + n - Suc k)" by linarith
    moreover have "a + n - Suc k < length xs" using k assms by linarith
    ultimately show "index_at xs (int (a + n) - (int k + 1)) = Ok (xs ! (a + n - Suc k))"
      by (simp only: index_at_Ok)
  qed
  also have "map (\<lambda>k. xs ! (a + n - Suc k)) [0..<n] = rev (take n (drop a xs))"
    using assms by (intro nth_equalityI) (auto simp: rev_nth)
  finally show ?thesis .
qed

lemma element_bytes:
  assumes "i < length es" and "sz = entry_size (length (concat es))"
  shows "take (length (es ! i)) (drop (1 + length es * sz + length (concat (take i es))) (bt_layout es)) = es ! i"
    and "1 + length es * sz + length (concat (take i es)) + length (es ! i) \<le> length (bt_layout es)"
proof -
  have l: "length (concat (map (le_bytes sz) (ends 0 es))) = length es * sz"
    by (subst length_chunks [where k = sz]) simp_all
  then have "drop (1 + length es * sz + length (concat (take i es))) (bt_layout es) =
    drop (length (concat (take i es))) (concat es)"
    unfolding bt_layout_split assms(2) [symmetric] by simp
  then show "take (length (es ! i)) (drop (1 + length es * sz + length (concat (take i es))) (bt_layout es)) = es ! i"
    using take_drop_concat [OF assms(1)] by simp
  have "length (concat (take i es)) + length (es ! i) \<le> length (concat es)"
    using length_concat_take_Suc [OF assms(1)] length_concat_take_le [of "Suc i" es] by simp
  then show "1 + length es * sz + length (concat (take i es)) + length (es ! i) \<le> length (bt_layout es)"
    by (simp add: length_bt_layout flip: assms(2))
qed

lemma entryOffset_layout_pred:
  assumes "i < length es" and "length (concat es) \<le> 2 ^ 31 - 1"
  shows "entryOffset (layout_tuple es) (int i - 1) = Ok (int (length (concat (take i es))))"
proof (cases i)
  case 0
  then show ?thesis by (simp add: entryOffset_def)
next
  case (Suc j)
  then show ?thesis using entryOffset_layout [of j es] assms by simp
qed

lemma read_element_layout:
  assumes "i < length es" and "length (concat es) \<le> 2 ^ 31 - 1" and "CType col = Some ct"
  shows "read_element (layout_tuple es) col (int i) =
    Ok \<lparr>Type = wrap 8 (TypeId ct), TScale = wrap 16 (MScale col), TPrecision = Precision col,
        Value = stored (wrap 8 (TypeId ct)) (es ! i)\<rparr>"
proof -
  define sz where "sz = entry_size (length (concat es))"
  define a where "a = length (concat (take i es))"
  define n where "n = length (es ! i)"
  define b where "b = 1 + length es * sz + a"
  have Suc: "length (concat (take (Suc i) es)) = a + n"
    using length_concat_take_Suc [OF assms(1)] by (simp add: a_def n_def)
  have tot: "a + n \<le> 2 ^ 31 - 1"
    using assms(2) length_concat_take_le [of "Suc i" es] Suc by linarith
  have bytes: "take n (drop b (bt_layout es)) = es ! i" "b + n \<le> length (bt_layout es)"
    unfolding n_def b_def a_def using element_bytes [OF assms(1) sz_def] by blast+
  have t: "binTupleValue (layout_tuple es) = bt_layout es" "valueBase (layout_tuple es) = int (1 + length es * sz)"
    "numElements (layout_tuple es) = int (length es)"
    by (simp_all add: layout_tuple_def Let_def sz_def headerSize_def)
  have last: "int (length (bt_layout es)) - int (1 + length es * sz) = int (a + n)" if "i = length es - 1"
  proof -
    have "Suc i = length es" using that assms(1) by simp
    then have "a + n = length (concat es)" using Suc by simp
    then show ?thesis by (simp add: length_bt_layout flip: sz_def)
  qed
  have off: "(if int i = int (length es) - 1 then Ok (int (length (bt_layout es)) - int (1 + length es * sz))
      else entryOffset (layout_tuple es) (int i)) = Ok (int (a + n))"
    using last entryOffset_layout [OF assms(1,2)] Suc assms(1) by (auto simp: of_nat_diff)
  have w: "wrap 64 (int (a + n) - int a) = int n" using tot by (simp add: wrap_id)
  have r1: "mapR (\<lambda>k. index_at (bt_layout es) (int (1 + length es * sz) + int (a + n) - (int k + 1))) [0..<n] = Ok (rev (es ! i))"
    using mapR_index_at_rev [OF bytes(2)] unfolding bytes(1) by (simp add: b_def add.assoc)
  have r2: "mapR (\<lambda>k. index_at (bt_layout es) (int (1 + length es * sz) + int a + int k)) [0..<n] = Ok (es ! i)"
    using mapR_index_at [OF bytes(2)] unfolding bytes(1) by (simp add: b_def add.assoc)
  have pred: "entryOffset (layout_tuple es) (int i - 1) = Ok (int a)"
    unfolding a_def by (rule entryOffset_layout_pred [OF assms(1,2)])
  show ?thesis
    unfolding read_element_def t assms(3) Let_def pred off
    by (simp only: deref_def option.simps rbind.simps off w nat_int r1 r2 stored_def if_False of_nat_less_0_iff)
      (simp add: stored_def)
qed

lemma fromHeader_bt_header: "fromHeader (bt_header n) = Ok (int (entry_size n))"
  by (simp add: fromHeader_def bt_header_def entry_size_def)

lemma NewTuple_layout:
  assumes "length (Columns meta) = length es" and "length (concat es) \<le> 2 ^ 31 - 1"
    and "\<And>i. i < length es \<Longrightarrow> CType (Columns meta ! i) = Some (ct i)"
  shows "NewTupleFromByteArrayWithMetadata meta (bt_layout es) =
    Ok ((layout_tuple es)\<lparr>tvalues := map (\<lambda>i.
          \<lparr>Type = wrap 8 (TypeId (ct i)), TScale = wrap 16 (MScale (Columns meta ! i)),
           TPrecision = Precision (Columns meta ! i), Value = stored (wrap 8 (TypeId (ct i))) (es ! i)\<rparr>) [0..<length es]\<rparr>)"
proof -
  have h: "bt_layout es ! 0 = bt_header (length (concat es))" by (simp add: bt_layout_split)
  have "\<not> int (length (bt_layout es)) < headerSize" by (simp add: bt_layout_split headerSize_def)
  moreover have "mapR (\<lambda>i. read_element (layout_tuple es) (Columns meta ! i) (int i)) [0..<length es] =
    Ok (map (\<lambda>i. \<lparr>Type = wrap 8 (TypeId (ct i)), TScale = wrap 16 (MScale (Columns meta ! i)),
           TPrecision = Precision (Columns meta ! i), Value = stored (wrap 8 (TypeId (ct i))) (es ! i)\<rparr>) [0..<length es])"
    using assms(2,3) by (intro mapR_Ok read_element_layout) simp_all
  ultimately show ?thesis
    unfolding NewTupleFromByteArrayWithMetadata_def h fromHeader_bt_header Let_def rbind.simps assms(1)
    by (simp add: layout_tuple_def Let_def)
qed

subsection \<open>Writing a row and reading one column back\<close>

definition read_column :: "host \<Rightarrow> bt_column list \<Rightarrow> goval list \<Rightarrow> result_metadata \<Rightarrow> nat \<Rightarrow> int \<Rightarrow> goval res" where
  "read_column H cols vals meta i ty =
     rbind (BuildBinaryTuple H cols vals) (\<lambda>out.
     rbind (NewTupleFromByteArrayWithMetadata meta out) (\<lambda>t. GetValue (local_offset H) t (int i) ty))"

text \<open>The metadata describes the columns: one entry each, column \<open>i\<close> with type id \<open>ty\<close>.\<close>

definition describes :: "result_metadata \<Rightarrow> bt_column list \<Rightarrow> nat \<Rightarrow> int \<Rightarrow> bool" where
  "describes meta cols i ty \<longleftrightarrow>
     length (Columns meta) = length cols \<and> i < length cols \<and> list_all (\<lambda>c. CType c \<noteq> None) (Columns meta) \<and>
     map_option TypeId (CType (Columns meta ! i)) = Some ty \<and> 0 < ty \<and> ty < 128"

lemma read_column_eq:
  assumes "BuildBinaryTuple H cols vals = Ok out" and "describes meta cols i ty"
  obtains e v where "appendBinaryTupleValue H [] (cols ! i) (vals ! i) = Ok e" and "Value v = stored ty e"
    and "TPrecision v = Precision (Columns meta ! i)"
    and "read_column H cols vals meta i ty = (if stored ty e = [] then Ok VNil else element_value (local_offset H) v ty)"
proof -
  obtain es where es: "list_all2 (\<lambda>cv e. bt_element H (fst cv) (snd cv) = Ok e) (zip cols vals) es"
    "length (concat es) \<le> 2 ^ 31 - 1" "out = bt_layout es" "length cols = length vals"
    using assms(1) by (auto simp: BuildBinaryTuple_Ok_iff)
  have i: "i < length es" "length es = length cols" "length (Columns meta) = length es"
    using assms(2) es(4) list_all2_lengthD [OF es(1)] by (simp_all add: describes_def)
  have e: "bt_element H (cols ! i) (vals ! i) = Ok (es ! i)"
    using es(4) i list_all2_nthD2 [OF es(1) i(1)] by simp
  define ct where "ct = (\<lambda>i. the (CType (Columns meta ! i)))"
  have ct: "CType (Columns meta ! j) = Some (ct j)" if "j < length es" for j
    using assms(2) i that by (auto simp: describes_def ct_def list_all_length)
  define vs where "vs = map (\<lambda>i. \<lparr>Type = wrap 8 (TypeId (ct i)), TScale = wrap 16 (MScale (Columns meta ! i)),
    TPrecision = Precision (Columns meta ! i), Value = stored (wrap 8 (TypeId (ct i))) (es ! i)\<rparr>) [0..<length es]"
  have "NewTupleFromByteArrayWithMetadata meta out = Ok ((layout_tuple es)\<lparr>tvalues := vs\<rparr>)"
    unfolding es(3) vs_def by (rule NewTuple_layout [OF i(3) es(2) ct])
  moreover have ty: "wrap 8 (TypeId (ct i)) = ty" "ty \<noteq> typeNULL"
    using assms(2) ct [OF i(1)] by (auto simp: describes_def wrap_id)
  moreover have v: "index_at vs (int i) = Ok (vs ! i)" "int i \<le> int (length vs)" "Value (vs ! i) = stored ty (es ! i)"
    "TPrecision (vs ! i) = Precision (Columns meta ! i)"
    using i ty by (simp_all add: vs_def index_at_Ok)
  ultimately have "read_column H cols vals meta i ty =
    (if stored ty (es ! i) = [] then Ok VNil else element_value (local_offset H) (vs ! i) ty)"
    by (simp add: read_column_def assms(1) GetValue_def)
  with that e v show ?thesis by blast
qed

subsection \<open>Columns of each type\<close>

text \<open>Metadata for the examples: one column per type id.\<close>

definition sample_meta :: "int list \<Rightarrow> result_metadata" where
  "sample_meta tys =
     \<lparr>Columns = map (\<lambda>ty. \<lparr>Name = ''c'', Nullable = True, CType = find (\<lambda>t. TypeId t = ty) ColTypes,
                              Precision = 0, MScale = 0, Index = 0, Origin = None\<rparr>) tys\<rparr>"

lemmas build_simps = BuildBinaryTuple_def appendBinaryTupleValue_def bt_finish_def word_le_def le_bytes_widths Let_def

lemma stored_Nil_iff: "stored ty e = [] \<longleftrightarrow> e = [] \<or> (ty = typeVARCHAR \<or> ty = typeVARBINARY) \<and> e = [0x80]"
  by (cases e) (auto simp: stored_def strip_marker_def)

lemma bytes_str_Nil_iff [simp]: "bytes_str b = [] \<longleftrightarrow> b = []"
  by (metis length_0_conv length_bytes_str)

lemma element_decimal:
  assumes "Value v = word_le (word_of_int sc :: 16 word) @ raw" and "- (2 ^ 15) \<le> sc" and "sc < 2 ^ 15"
  shows "element_value loc v typeDECIMAL = Ok (VDecimal \<lparr>Unscaled = Some (signed_be raw), Scale = sc\<rparr>)"
proof -
  have l: "length (word_le (word_of_int sc :: 16 word)) = 2" by simp
  then have "slice_of (Value v) 0 2 = Ok (word_le (word_of_int sc :: 16 word))"
    using slice_of_Ok [of 0 2 "Value v"] by (simp add: assms(1))
  moreover have "drop 2 (Value v) = raw" using l by (simp add: assms(1))
  moreover have "le_nat (word_le (word_of_int sc :: 16 word)) = unat (word_of_int sc :: 16 word)"
    by (rule le_nat_word_le) simp
  moreover have "sint (word_of_int sc :: 16 word) = sc"
    using assms(2,3) by (simp add: signed_of_int signed_take_bit_int_eq_self)
  ultimately show ?thesis by (simp add: element_value_def Let_def)
qed

lemma le_uint_word_le:
  "8 dvd LENGTH('a::len) \<Longrightarrow> LENGTH('a) div 8 = k \<Longrightarrow> le_uint k (word_le (w :: 'a word) @ r) = Ok w"
  by (auto simp: le_uint_def le_nat_word_le)

lemma not_nil_of_conversion:
  "toInt64 VNil \<noteq> Ok n" "toBool VNil \<noteq> Ok b" "toFloat64 VNil \<noteq> Ok f" "toTime H VNil \<noteq> Ok t" "toDecimal H VNil sc \<noteq> Ok d"
  by (simp_all add: toInt64_def toBool_def toFloat64_def toTime_def toDecimal_def)

lemma expandIntValue_reads:
  assumes "(k, ty) \<in> {(BtInt8, typeTINYINT), (BtInt16, typeSMALLINT), (BtInt32, typeINT), (BtInt64, typeBIGINT)}"
    and "bt_width k (sint n) = Some w" and "Value v = stored ty (le_bytes w (unat n))"
  shows "element_value loc v ty =
    Ok (if ty = typeTINYINT then VInt8 (ucast n) else if ty = typeSMALLINT then VInt16 (ucast n)
        else if ty = typeINT then VInt32 (ucast n) else VInt64 n)"
proof -
  have "w = 1" if "k = BtInt8" using assms(2) that by (auto split: if_splits)
  moreover have "rev (le_bytes 1 x) = le_bytes 1 x" for x by simp
  ultimately have "Value v = rev (le_bytes w (unat n))" using assms(1,3) by (auto simp: stored_def)
  then have "decodeBigEndianTwosComplement (Value v) = Ok n" by (simp only: le_bytes_decode [OF assms(2)])
  then show ?thesis using assms(1) by (auto simp: element_value_def expandIntValue_def)
qed

subsection \<open>Properties\<close>

text \<open>C7: reading a tuple that \<^verbatim>\<open>BuildBinaryTuple\<close> wrote, with metadata for the same number of columns,
  succeeds and cuts the value area back into exactly the elements that were written, in order:
  integers wider than one byte reversed, the marker byte of STRING and BYTE_ARRAY columns removed,
  everything else unchanged.\<close>

theorem tuple_reader_inverts_writer:
  assumes "BuildBinaryTuple H cols vals = Ok out" and "length (Columns meta) = length cols"
    and "list_all (\<lambda>c. CType c \<noteq> None) (Columns meta)"
  shows "\<exists>es t. map (\<lambda>(c, v). appendBinaryTupleValue H [] c v) (zip cols vals) = map Ok es \<and>
    NewTupleFromByteArrayWithMetadata meta out = Ok t \<and> GetLength t = int (length cols) \<and>
    map Value (tvalues t) = map2 (\<lambda>c e. stored (wrap 8 (TypeId (the (CType c)))) e) (Columns meta) es"
proof -
  obtain es where es: "list_all2 (\<lambda>cv e. bt_element H (fst cv) (snd cv) = Ok e) (zip cols vals) es"
    "length (concat es) \<le> 2 ^ 31 - 1" "out = bt_layout es" "length cols = length vals"
    using assms(1) by (auto simp: BuildBinaryTuple_Ok_iff)
  have l: "length es = length cols" "length (Columns meta) = length es"
    using es(4) list_all2_lengthD [OF es(1)] assms(2) by simp_all
  define ct where "ct = (\<lambda>i. the (CType (Columns meta ! i)))"
  have "CType (Columns meta ! j) = Some (ct j)" if "j < length es" for j
    using assms(3) l that by (auto simp: ct_def list_all_length)
  then obtain t where t: "NewTupleFromByteArrayWithMetadata meta out = Ok t" "numElements t = int (length es)"
    "map Value (tvalues t) = map (\<lambda>i. stored (wrap 8 (TypeId (ct i))) (es ! i)) [0..<length es]"
    using NewTuple_layout [OF l(2) es(2), of ct] unfolding es(3) by (simp add: layout_tuple_def Let_def o_def)
  have "map (\<lambda>(c, v). bt_element H c v) (zip cols vals) = map Ok es"
    using es(1,4) by (auto simp: list_all2_conv_all_nth list_eq_iff_nth_eq split_beta)
  moreover have "map (\<lambda>i. stored (wrap 8 (TypeId (ct i))) (es ! i)) [0..<length es] =
    map2 (\<lambda>c e. stored (wrap 8 (TypeId (the (CType c)))) e) (Columns meta) es"
    using l by (intro nth_equalityI) (simp_all add: ct_def)
  ultimately show ?thesis using l t by (intro exI [of _ es] exI [of _ t]) (simp add: GetLength_def)
qed

theorem tuple_reader_inverts_writer_witness:
  "\<exists>es t. map (\<lambda>(c, v). appendBinaryTupleValue exact_host [] c v)
            (zip [\<lparr>Kind = BtBoolean, ColScale = 0\<rparr>] [VBool True]) = map Ok es \<and>
    NewTupleFromByteArrayWithMetadata (sample_meta [1]) [0, 1, 1] = Ok t \<and>
    GetLength t = int (length [\<lparr>Kind = BtBoolean, ColScale = 0\<rparr>]) \<and>
    map Value (tvalues t) = map2 (\<lambda>c e. stored (wrap 8 (TypeId (the (CType c)))) e) (Columns (sample_meta [1])) es"
  by (rule tuple_reader_inverts_writer)
    (simp_all add: build_simps toBool_def word_le_def sample_meta_def ColTypes_def Let_def)

text \<open>An integer written into a TINYINT, SMALLINT, INT or BIGINT column of a row is read back as the
  column's Go type with the same value, whatever the other columns hold and whatever integer or float
  type it was given as.\<close>

theorem integer_column_roundtrip:
  assumes "BuildBinaryTuple H cols vals = Ok out" and "describes meta cols i ty"
    and "(Kind (cols ! i), ty) \<in> {(BtInt8, 2), (BtInt16, 3), (BtInt32, 4), (BtInt64, 5)}"
    and "toInt64 (vals ! i) = Ok n"
  shows "\<exists>r. read_column H cols vals meta i ty = Ok r \<and> toInt64 r = Ok n \<and>
    type_text r = (if ty = 2 then ''int8'' else if ty = 3 then ''int16'' else if ty = 4 then ''int32'' else ''int64'')"
proof -
  obtain e v where ev: "bt_element H (cols ! i) (vals ! i) = Ok e" "Value v = stored ty e"
    "read_column H cols vals meta i ty = (if stored ty e = [] then Ok VNil else element_value (local_offset H) v ty)"
    using read_column_eq [OF assms(1,2)] by metis
  have "vals ! i \<noteq> VNil" using assms(4) not_nil_of_conversion by auto
  then have "putBinaryTupleInt [] (Kind (cols ! i)) n = Ok e"
    using ev(1) assms(3,4) by (auto simp: appendBinaryTupleValue_def)
  then obtain w where w: "bt_width (Kind (cols ! i)) (sint n) = Some w" "w \<in> {1, 2, 4, 8}" "e = le_bytes w (unat n)"
    using putBinaryTupleInt_cases by fastforce
  have "stored ty e \<noteq> []" using w(2,3) assms(3) by (auto simp: stored_Nil_iff)
  then have "read_column H cols vals meta i ty =
      Ok (if ty = 2 then VInt8 (ucast n) else if ty = 3 then VInt16 (ucast n)
          else if ty = 4 then VInt32 (ucast n) else VInt64 n)"
    using expandIntValue_reads [OF assms(3) w(1)] ev(2,3) w(3) by simp
  moreover have "ty = 2 \<Longrightarrow> int_in 8 (sint n)" "ty = 3 \<Longrightarrow> int_in 16 (sint n)" "ty = 4 \<Longrightarrow> int_in 32 (sint n)"
    using w(1) assms(3) int_in_mono [of 8 16] int_in_mono [of 8 32] int_in_mono [of 16 32] by (auto split: if_splits)
  ultimately show ?thesis
    using assms(3) scast_ucast_in_range [where 'a = 8, of n] scast_ucast_in_range [where 'a = 16, of n]
      scast_ucast_in_range [where 'a = 32, of n]
    by (auto simp: toInt64_def)
qed

theorem integer_column_roundtrip_witness:
  "\<exists>r. read_column exact_host [\<lparr>Kind = BtInt64, ColScale = 0\<rparr>] [VUint8 200] (sample_meta [5]) 0 5 = Ok r \<and>
    toInt64 r = Ok 200 \<and>
    type_text r = (if (5::int) = 2 then ''int8'' else if (5::int) = 3 then ''int16'' else if (5::int) = 4 then ''int32'' else ''int64'')"
  by (rule integer_column_roundtrip [where out = "[0, 2, 200, 0]"])
    (simp_all add: build_simps toInt64_def word_le_def le_bytes_widths putBinaryTupleInt_bytes int_in_def Let_def
      describes_def sample_meta_def ColTypes_def)

end
