(* ===== verification/ResultSet.thy ===== *)
theory ResultSet
  imports Protocol TupleReader
begin

text \<open>
  Reading the metadata of a result set (client-result-set.go): \<^verbatim>\<open>NewResultSetMetadataFromReader\<close>, one column, and a
  column's origin, whose schema and table names may be given as a reference to an earlier column. A reader takes the
  metadata read so far and returns it extended.
\<close>

subsection \<open>The readers\<close>

text \<open>A name, or the index of an earlier column to take it from.\<close>

definition read_origin_name :: "msgpack \<Rightarrow> string \<Rightarrow> (int \<Rightarrow> string res) \<Rightarrow> byte list \<Rightarrow> (string \<Rightarrow> byte list \<Rightarrow> 'a res) \<Rightarrow> 'a res" where
  "read_origin_name M what lookup r k =
     readf (''failed to peek result set column origin '' @ what @ '' name index as int'') (TryReadPackedIntWithDefault M (-1)) r (\<lambda>idx r.
       if idx \<noteq> -1
       then rbind (wrap_err (''failed to read result set column origin '' @ what @ '' name from index'') (lookup (sint idx))) (\<lambda>name. k name r)
       else readf (''failed to read result set column origin '' @ what @ '' name'') (ReadPackedString M) r k)"

definition NewColumnOriginFromReaderWithDefault ::
  "msgpack \<Rightarrow> result_metadata \<Rightarrow> string \<Rightarrow> byte list \<Rightarrow> (column_origin \<times> byte list) res" where
  "NewColumnOriginFromReaderWithDefault M rs columnName r =
     readf ''failed to peek result set column origin name as nil'' (TryReadPackedNil M) r (\<lambda>cn r.
     let rest = (\<lambda>column r.
           read_origin_name M ''schema'' (GetSchemaOriginNameById rs) r (\<lambda>schema r.
           read_origin_name M ''table'' (GetTableOriginNameById rs) r (\<lambda>table r.
             Ok (\<lparr>Schema = schema, Table = table, Column = column\<rparr>, r))))
     in if cn then rest columnName r
        else readf ''failed to read result set column origin name'' (ReadPackedString M) r rest)"

definition NewColumnMetadataFromReader ::
  "msgpack \<Rightarrow> result_metadata \<Rightarrow> int \<Rightarrow> byte list \<Rightarrow> (result_metadata \<times> byte list) res" where
  "NewColumnMetadataFromReader M rs index r =
     readf ''failed to read result set column property count'' (ReadPackedInt M) r (\<lambda>propCnt r.
     readf ''failed to read result set column name'' (ReadPackedString M) r (\<lambda>name r.
     readf ''failed to read result set column is nullable'' (ReadPackedBool M) r (\<lambda>nullable r.
     readf ''failed to read result set column type'' (ReadPackedInt M) r (\<lambda>ct r.
     rbind (wrap_err (''failed to read result set column type kind (column name '' @ name @ '', id = '' @ int_text (sint ct) @ '')'')
              (GetColumnTypeById ColTypes (sint ct))) (\<lambda>ty.
     readf ''failed to read result set column scale'' (ReadPackedInt M) r (\<lambda>cs r.
     readf ''failed to read result set column precision'' (ReadPackedInt M) r (\<lambda>cp r.
     readf ''failed to read result set column origin'' (ReadPackedBool M) r (\<lambda>hasOrigin r.
     let col = \<lparr>Name = name, Nullable = nullable, CType = Some ty, Precision = sint cp, MScale = sint cs,
                Index = index, Origin = None\<rparr>
     in if hasOrigin
        then (if sint propCnt < 9 then Err (Errorf0 ''not enough properties to read column origin'')
              else readf ''failed to read result set column origin'' (NewColumnOriginFromReaderWithDefault M rs name) r
                     (\<lambda>origin r. Ok (rs\<lparr>Columns := Columns rs @ [col\<lparr>Origin := Some origin\<rparr>]\<rparr>, r)))
        else Ok (rs\<lparr>Columns := Columns rs @ [col]\<rparr>, r)))))))))"

text \<open>The loop over \<open>n\<close> more columns, the next one being number \<open>i\<close>.\<close>

fun read_columns :: "msgpack \<Rightarrow> nat \<Rightarrow> int \<Rightarrow> result_metadata \<Rightarrow> byte list \<Rightarrow> (result_metadata \<times> byte list) res" where
  "read_columns M 0 i rs r = Ok (rs, r)"
| "read_columns M (Suc n) i rs r =
     readf ''failed to read result set column metadata'' (NewColumnMetadataFromReader M rs i) r
       (\<lambda>rs r. read_columns M n (i + 1) rs r)"

definition NewResultSetMetadataFromReader :: "msgpack \<Rightarrow> byte list \<Rightarrow> (result_metadata \<times> byte list) res" where
  "NewResultSetMetadataFromReader M r =
     readf ''failed to read result set metadata length'' (ReadPackedInt M) r (\<lambda>columnCount r.
       read_columns M (nat (sint columnCount)) 0 \<lparr>Columns = []\<rparr> r)"

subsection \<open>What is always true of metadata that was read\<close>

text \<open>Columns numbered by their position, each with a type of the table.\<close>

definition wf_metadata :: "result_metadata \<Rightarrow> bool" where
  "wf_metadata rs \<longleftrightarrow> indexed rs \<and> (\<forall>c \<in> set (Columns rs). \<exists>t \<in> set ColTypes. CType c = Some t)"

lemma wf_metadata_append:
  "wf_metadata \<lparr>Columns = cs\<rparr> \<Longrightarrow> Index c = int (length cs) \<Longrightarrow> CType c = Some t \<Longrightarrow> t \<in> set ColTypes \<Longrightarrow>
   wf_metadata \<lparr>Columns = cs @ [c]\<rparr>"
  by (auto simp: wf_metadata_def indexed_def nth_append less_Suc_eq)

lemma GetColumnTypeById_Ok_iff: "GetColumnTypeById ColTypes i = Ok t \<longleftrightarrow> t \<in> set ColTypes \<and> TypeId t = i"
proof
  assume "GetColumnTypeById ColTypes i = Ok t"
  then show "t \<in> set ColTypes \<and> TypeId t = i"
    by (auto simp: GetColumnTypeById_def first_match_def find_Some_iff split: option.splits)
next
  assume "t \<in> set ColTypes \<and> TypeId t = i"
  then show "GetColumnTypeById ColTypes i = Ok t"
    using find_distinct_key [OF distinct_ColTypes(1), of t] by (auto simp: GetColumnTypeById_def first_match_def)
qed

lemma NewColumnMetadata_extends:
  assumes "NewColumnMetadataFromReader M rs i r = Ok (rs', r')"
  shows "\<exists>c t. Columns rs' = Columns rs @ [c] \<and> Index c = i \<and> CType c = Some t \<and> t \<in> set ColTypes"
  using assms unfolding NewColumnMetadataFromReader_def Let_def
  by (auto simp: readf_Ok_iff GetColumnTypeById_Ok_iff split: if_splits)

lemma read_columns_wf:
  assumes "read_columns M n i rs r = Ok (rs', r')" "wf_metadata rs" "i = int (length (Columns rs))"
  shows "wf_metadata rs' \<and> length (Columns rs') = length (Columns rs) + n"
  using assms
proof (induction n arbitrary: i rs r)
  case (Suc n)
  from Suc.prems(1) obtain rs1 r1 where s: "NewColumnMetadataFromReader M rs i r = Ok (rs1, r1)"
    "read_columns M n (i + 1) rs1 r1 = Ok (rs', r')"
    by (auto simp: readf_Ok_iff)
  obtain c t where c: "Columns rs1 = Columns rs @ [c]" "Index c = i" "CType c = Some t" "t \<in> set ColTypes"
    using NewColumnMetadata_extends [OF s(1)] by blast
  have "wf_metadata \<lparr>Columns = Columns rs\<rparr>" using Suc.prems(2) by (cases rs) simp
  then have "wf_metadata \<lparr>Columns = Columns rs1\<rparr>" using wf_metadata_append c Suc.prems(3) by simp
  then have "wf_metadata rs1" by (cases rs1) simp
  from Suc.IH [OF s(2) this] c(1) Suc.prems(3) show ?case by simp
qed simp

lemma NewResultSetMetadata_wf: "NewResultSetMetadataFromReader M r = Ok (rs, r') \<Longrightarrow> wf_metadata rs"
  unfolding NewResultSetMetadataFromReader_def readf_Ok_iff
  by (auto dest!: read_columns_wf simp: wf_metadata_def indexed_def)

lemma wf_metadata_type:
  assumes "wf_metadata rs" "j < length (Columns rs)"
  obtains t where "t \<in> set ColTypes" "CType (Columns rs ! j) = Some t" "meta_GetColumnTypeById rs (int j) = Ok (Some t)"
  using assms by (auto simp: wf_metadata_def meta_GetColumnTypeById_def first_match_indexed dest!: bspec [OF _ nth_mem])

subsection \<open>A server's metadata\<close>

text \<open>A column with the references the server chose for its schema and table names; a column name equal to the
  result's name is sent as nil.\<close>

type_synonym described_column = "column_metadata \<times> nat option \<times> nat option"

definition enc_origin_name :: "msgpack \<Rightarrow> nat option \<Rightarrow> string \<Rightarrow> byte list" where
  "enc_origin_name M ref name =
     (case ref of Some j \<Rightarrow> WritePackedInt64 M (word_of_nat j) | None \<Rightarrow> WritePackedString M name)"

definition enc_origin :: "msgpack \<Rightarrow> string \<Rightarrow> nat option \<Rightarrow> nat option \<Rightarrow> column_origin \<Rightarrow> byte list" where
  "enc_origin M name sref tref org =
     (if Column org = name then WritePackedNull M else WritePackedString M (Column org)) @
     enc_origin_name M sref (Schema org) @ enc_origin_name M tref (Table org)"

definition enc_result_column :: "msgpack \<Rightarrow> described_column \<Rightarrow> byte list" where
  "enc_result_column M d =
     (let (c, sref, tref) = d
      in WritePackedInt64 M (if Origin c = None then 6 else 9) @ WritePackedString M (Name c) @ [if Nullable c then 0xc3 else 0xc2] @
         WritePackedInt64 M (word_of_int (case CType c of Some t \<Rightarrow> TypeId t | None \<Rightarrow> 0)) @
         WritePackedInt64 M (word_of_int (MScale c)) @ WritePackedInt64 M (word_of_int (Precision c)) @
         (case Origin c of None \<Rightarrow> [0xc2] | Some org \<Rightarrow> 0xc3 # enc_origin M (Name c) sref tref org))"

definition enc_metadata :: "msgpack \<Rightarrow> described_column list \<Rightarrow> byte list" where
  "enc_metadata M ds = WritePackedInt64 M (word_of_nat (length ds)) @ concat (map (enc_result_column M) ds)"

text \<open>A reference names an earlier column, by a one-byte index, whose origin has the same name.\<close>

definition ref_ok :: "(column_origin \<Rightarrow> string) \<Rightarrow> column_metadata list \<Rightarrow> nat option \<Rightarrow> column_origin \<Rightarrow> bool" where
  "ref_ok field pre ref org \<longleftrightarrow>
     (case ref of None \<Rightarrow> True
      | Some j \<Rightarrow> j < length pre \<and> j < 128 \<and> map_option field (Origin (pre ! j)) = Some (field org))"

definition wf_result_column :: "column_metadata list \<Rightarrow> described_column \<Rightarrow> bool" where
  "wf_result_column pre d \<longleftrightarrow>
     (let (c, sref, tref) = d
      in length (Name c) < 2 ^ 32 \<and> CType c \<in> Some ` set ColTypes \<and> int_in 64 (Precision c) \<and> int_in 64 (MScale c) \<and>
         Index c = int (length pre) \<and>
         (case Origin c of None \<Rightarrow> True
          | Some org \<Rightarrow> length (Schema org) < 2 ^ 32 \<and> length (Table org) < 2 ^ 32 \<and> length (Column org) < 2 ^ 32 \<and>
              ref_ok Schema pre sref org \<and> ref_ok Table pre tref org))"

fun wf_described :: "column_metadata list \<Rightarrow> described_column list \<Rightarrow> bool" where
  "wf_described pre [] = True"
| "wf_described pre (d # ds) = (wf_result_column pre d \<and> wf_described (pre @ [fst d]) ds)"

subsection \<open>Reading it\<close>

lemma ReadPackedInt_eq: "ReadPackedInt M = ReadPackedInt64 M"
  by (simp add: fun_eq_iff ReadPackedInt_def)

lemma ref_ok_lookup:
  assumes "ref_ok field pre (Some j) org" "indexed \<lparr>Columns = pre\<rparr>"
  shows "j < 128 \<and> first_match (\<lambda>c. Index c = int j) (\<lambda>c. rmap field (deref (Origin c))) pre e = Ok (field org)"
proof -
  have j: "j < length pre" "j < 128" "map_option field (Origin (pre ! j)) = Some (field org)"
    using assms(1) by (simp_all add: ref_ok_def)
  then have "first_match (\<lambda>c. Index c = int j) (\<lambda>c. rmap field (deref (Origin c))) pre e = rmap field (deref (Origin (pre ! j)))"
    using first_match_indexed [OF assms(2), of "int j"] by simp
  with j show ?thesis by (auto simp: deref_def)
qed

context msgpack_codec
begin

lemma read_origin_name_ref:
  assumes "j < 128" "lookup (int j) = Ok name"
  shows "read_origin_name M what lookup (enc_origin_name M (Some j) name @ r) k = k name r"
proof -
  have s: "sint (word_of_nat j :: 64 word) = int j"
    using assms(1) by (simp add: signed_of_nat signed_take_bit_int_eq_self)
  then have n: "(word_of_nat j :: 64 word) \<noteq> - 1" by (metis int_one_le_iff_zero_less of_nat_0_le_iff sint_n1 neg_0_le_iff_le not_one_le_zero)
  have "TryReadPackedIntWithDefault M (- 1) (WritePackedInt64 M (word_of_nat j) @ r) = Ok (word_of_nat j, r)"
    using try_int_fixnum [of "word_of_nat j" "- 1" r] s assms(1) by simp
  then show ?thesis using n s assms(2) by (simp add: read_origin_name_def enc_origin_name_def readf_Ok)
qed

lemma read_origin_name_text:
  "length name < 2 ^ 32 \<Longrightarrow> read_origin_name M what lookup (enc_origin_name M None name @ r) k = k name r"
  by (simp add: read_origin_name_def enc_origin_name_def readf_Ok try_int_string)

lemma read_origin_enc:
  assumes "indexed \<lparr>Columns = pre\<rparr>" "ref_ok Schema pre sref org" "ref_ok Table pre tref org"
    "length (Schema org) < 2 ^ 32" "length (Table org) < 2 ^ 32" "length (Column org) < 2 ^ 32"
  shows "NewColumnOriginFromReaderWithDefault M \<lparr>Columns = pre\<rparr> name (enc_origin M name sref tref org @ r) = Ok (org, r)"
proof -
  have s: "read_origin_name M ''schema'' (GetSchemaOriginNameById \<lparr>Columns = pre\<rparr>) (enc_origin_name M sref (Schema org) @ r) k =
    k (Schema org) r" for r and k :: "string \<Rightarrow> byte list \<Rightarrow> (column_origin \<times> byte list) res"
    using assms(1,2,4) ref_ok_lookup [of Schema pre _ org]
    by (cases sref) (auto intro!: read_origin_name_text read_origin_name_ref simp: GetSchemaOriginNameById_def)
  have t: "read_origin_name M ''table'' (GetTableOriginNameById \<lparr>Columns = pre\<rparr>) (enc_origin_name M tref (Table org) @ r) k =
    k (Table org) r" for r and k :: "string \<Rightarrow> byte list \<Rightarrow> (column_origin \<times> byte list) res"
    using assms(1,3,5) ref_ok_lookup [of Table pre _ org]
    by (cases tref) (auto intro!: read_origin_name_text read_origin_name_ref simp: GetTableOriginNameById_def)
  show ?thesis using assms(6)
    by (simp add: NewColumnOriginFromReaderWithDefault_def enc_origin_def readf_Ok try_nil try_nil_string s t)
qed

lemma read_result_column_enc:
  assumes "indexed \<lparr>Columns = pre\<rparr>" "wf_result_column pre d"
  shows "NewColumnMetadataFromReader M \<lparr>Columns = pre\<rparr> (int (length pre)) (enc_result_column M d @ r) =
    Ok (\<lparr>Columns = pre @ [fst d]\<rparr>, r)"
proof -
  obtain c sref tref where d: "d = (c, sref, tref)" by (cases d) auto
  obtain t where t: "t \<in> set ColTypes" "CType c = Some t"
    using assms(2) by (auto simp: wf_result_column_def d)
  have w: "length (Name c) < 2 ^ 32" "int_in 64 (Precision c)" "int_in 64 (MScale c)" "Index c = int (length pre)"
    using assms(2) by (simp_all add: wf_result_column_def d)
  have "int_in 64 (TypeId t)" using t(1) TypeId_ColTypes by (auto simp: ColTypes_def int_in_def)
  then have id: "sint (word_of_int (TypeId t) :: 64 word) = TypeId t" by (rule sint_of_int64)
  have ty: "GetColumnTypeById ColTypes (TypeId t) = Ok t" using t(1) by (simp add: GetColumnTypeById_Ok_iff)
  have s: "sint (word_of_int (Precision c) :: 64 word) = Precision c" "sint (word_of_int (MScale c) :: 64 word) = MScale c"
    using w by (simp_all add: sint_of_int64)
  have b: "readf ctxt (ReadPackedBool M) (0xc2 # r) k = k False r" "readf ctxt (ReadPackedBool M) (0xc3 # r) k = k True r"
    for ctxt r and k :: "bool \<Rightarrow> byte list \<Rightarrow> (result_metadata \<times> byte list) res"
    using readf_bool [of ctxt False r k] readf_bool [of ctxt True r k] by simp_all
  note simps = NewColumnMetadataFromReader_def enc_result_column_def d t(2) ReadPackedInt_eq id ty s w(4) Let_def
  have rec: "\<lparr>Name = Name c, Nullable = Nullable c, CType = Some t, Precision = Precision c, MScale = MScale c,
      Index = int (length pre), Origin = Origin c\<rparr> = c"
    using t(2) w(4) by (intro column_metadata.equality) simp_all
  show ?thesis
  proof (cases "Origin c")
    case None
    with w(1) show ?thesis using rec by (simp add: simps b)
  next
    case (Some org)
    then have "NewColumnOriginFromReaderWithDefault M \<lparr>Columns = pre\<rparr> (Name c) (enc_origin M (Name c) sref tref org @ r) = Ok (org, r)"
      using assms by (intro read_origin_enc) (simp_all add: wf_result_column_def d)
    with Some w(1) show ?thesis using rec by (simp add: simps b readf_Ok)
  qed
qed

lemma read_columns_enc:
  assumes "indexed \<lparr>Columns = pre\<rparr>" "wf_described pre ds"
  shows "read_columns M (length ds) (int (length pre)) \<lparr>Columns = pre\<rparr> (concat (map (enc_result_column M) ds) @ r) =
    Ok (\<lparr>Columns = pre @ map fst ds\<rparr>, r)"
  using assms
proof (induction ds arbitrary: pre)
  case (Cons d ds)
  have i: "indexed \<lparr>Columns = pre @ [fst d]\<rparr>"
    using Cons.prems by (auto simp: indexed_def wf_result_column_def nth_append less_Suc_eq split: prod.splits)
  from Cons.IH [OF i] Cons.prems(2) show ?case
    by (simp add: readf_Ok read_result_column_enc [OF Cons.prems(1)] add.commute)
qed simp

lemma read_metadata_enc:
  assumes "wf_described [] ds" "length ds < 2 ^ 63"
  shows "NewResultSetMetadataFromReader M (enc_metadata M ds @ r) = Ok (\<lparr>Columns = map fst ds\<rparr>, r)"
proof -
  have "sint (word_of_nat (length ds) :: 64 word) = int (length ds)"
    using assms(2) by (simp add: signed_of_nat signed_take_bit_int_eq_self)
  then show ?thesis using read_columns_enc [of "[]" ds r] assms(1)
    by (simp add: NewResultSetMetadataFromReader_def enc_metadata_def ReadPackedInt_eq indexed_def)
qed

end

text \<open>An index above 127 is sent with an unsigned code, which the client does not take for a number: it goes on to
  read a name from it.\<close>

lemma wide_reference_misread:
  assumes "127 < j" "j < 256"
  shows "TryReadPackedIntWithDefault ref_codec d (WritePackedInt64 ref_codec (word_of_nat j) @ r) =
    Ok (d, WritePackedInt64 ref_codec (word_of_nat j) @ r)"
proof -
  have "sint (word_of_nat j :: 64 word) = int j"
    using assms by (simp add: signed_of_nat signed_take_bit_int_eq_self)
  then have "mp_enc_int (word_of_nat j) = 0xcc # be_bytes 1 (unat (word_of_nat j :: 64 word))"
    using assms by (simp add: mp_enc_int_def Let_def)
  moreover have "\<not> IsFixedNum 0xcc" by (simp add: IsFixedNum_def)
  ultimately show ?thesis by (simp add: TryReadPackedIntWithDefault_def WritePackedInt64_def ref_codec_def)
qed

subsection \<open>Properties\<close>

text \<open>C13: The metadata of a result set is read as the server described it: every column with its name, type, precision,
  scale, position and origin, whether the server spelled out an origin's schema and table names or referred to an
  earlier column (with an index up to 127), and the reader stops exactly at what follows.\<close>

theorem result_metadata_roundtrip:
  assumes "msgpack_codec M" and "wf_described [] ds" and "length ds < 2 ^ 63"
  shows "NewResultSetMetadataFromReader M (enc_metadata M ds @ r) = Ok (\<lparr>Columns = map fst ds\<rparr>, r)"
  by (rule msgpack_codec.read_metadata_enc [OF assms])

definition sample_result_column :: "string \<Rightarrow> int \<Rightarrow> nat \<Rightarrow> column_metadata" where
  "sample_result_column name i ty =
     \<lparr>Name = name, Nullable = True, CType = Some (ColTypes ! ty), Precision = 0, MScale = 0, Index = i,
      Origin = Some \<lparr>Schema = ''PUBLIC'', Table = ''T'', Column = name\<rparr>\<rparr>"

theorem result_metadata_roundtrip_witness:
  "NewResultSetMetadataFromReader ref_codec
     (enc_metadata ref_codec [(sample_result_column ''A'' 0 4, None, None), (sample_result_column ''B'' 1 14, Some 0, Some 0)] @ [7]) =
   Ok (\<lparr>Columns = map fst [(sample_result_column ''A'' 0 4, None :: nat option, None :: nat option),
                                     (sample_result_column ''B'' 1 14, Some 0, Some 0)]\<rparr>, [7])"
  by (rule result_metadata_roundtrip [OF ref.msgpack_codec_axioms])
    (simp_all add: wf_result_column_def sample_result_column_def ref_ok_def int_in_def, simp_all add: ColTypes_def)

text \<open>C14: Metadata that was read, from whatever bytes, has its columns numbered 0, 1, 2, \<dots> in order and a type of the
  client's table in each. So the row loops' lookup of a column's type by number always succeeds, with a pointer that is
  not nil; their lookup of its origin's name finds the column too, and gives the name, or panics if the column
  has no origin.\<close>

theorem result_metadata_well_formed:
  assumes "NewResultSetMetadataFromReader M r = Ok (rs, r')"
  shows "map Index (Columns rs) = map int [0..<length (Columns rs)] \<and>
    list_all (\<lambda>c. CType c \<in> Some ` set ColTypes) (Columns rs) \<and>
    map (\<lambda>i. meta_GetColumnTypeById rs (int i)) [0..<length (Columns rs)] = map (\<lambda>c. Ok (CType c)) (Columns rs) \<and>
    map (\<lambda>i. GetColumnOriginNameById rs (int i)) [0..<length (Columns rs)] =
      map (\<lambda>c. case Origin c of Some org \<Rightarrow> Ok (Column org) | None \<Rightarrow> Panic NilDereference) (Columns rs)"
proof -
  have w: "wf_metadata rs" by (rule NewResultSetMetadata_wf [OF assms])
  then have "map Index (Columns rs) = map int [0..<length (Columns rs)]"
    by (intro nth_equalityI) (simp_all add: wf_metadata_def indexed_def)
  moreover have "list_all (\<lambda>c. CType c \<in> Some ` set ColTypes) (Columns rs)"
    using w by (auto simp: wf_metadata_def list_all_iff)
  moreover have "map (\<lambda>i. meta_GetColumnTypeById rs (int i)) [0..<length (Columns rs)] = map (\<lambda>c. Ok (CType c)) (Columns rs)"
    using w by (intro nth_equalityI) (simp_all add: wf_metadata_def meta_GetColumnTypeById_def first_match_indexed)
  moreover have "map (\<lambda>i. GetColumnOriginNameById rs (int i)) [0..<length (Columns rs)] =
      map (\<lambda>c. case Origin c of Some org \<Rightarrow> Ok (Column org) | None \<Rightarrow> Panic NilDereference) (Columns rs)"
    using w by (intro nth_equalityI)
      (simp_all add: wf_metadata_def GetColumnOriginNameById_def first_match_indexed deref_def split: option.split)
  ultimately show ?thesis by blast
qed

theorem result_metadata_well_formed_witness:
  "map Index (Columns \<lparr>Columns = [sample_result_column ''A'' 0 4]\<rparr>) =
     map int [0..<length (Columns \<lparr>Columns = [sample_result_column ''A'' 0 4]\<rparr>)] \<and>
   list_all (\<lambda>c. CType c \<in> Some ` set ColTypes) (Columns \<lparr>Columns = [sample_result_column ''A'' 0 4]\<rparr>) \<and>
   map (\<lambda>i. meta_GetColumnTypeById \<lparr>Columns = [sample_result_column ''A'' 0 4]\<rparr> (int i))
     [0..<length (Columns \<lparr>Columns = [sample_result_column ''A'' 0 4]\<rparr>)] =
     map (\<lambda>c. Ok (CType c)) (Columns \<lparr>Columns = [sample_result_column ''A'' 0 4]\<rparr>) \<and>
   map (\<lambda>i. GetColumnOriginNameById \<lparr>Columns = [sample_result_column ''A'' 0 4]\<rparr> (int i))
     [0..<length (Columns \<lparr>Columns = [sample_result_column ''A'' 0 4]\<rparr>)] =
     map (\<lambda>c. case Origin c of Some org \<Rightarrow> Ok (Column org) | None \<Rightarrow> Panic NilDereference)
       (Columns \<lparr>Columns = [sample_result_column ''A'' 0 4]\<rparr>)"
proof (rule result_metadata_well_formed)
  have "wf_described [] [(sample_result_column ''A'' 0 4, None, None)]"
    by (simp add: wf_result_column_def sample_result_column_def ref_ok_def int_in_def) (simp add: ColTypes_def)
  then show "NewResultSetMetadataFromReader ref_codec
      (enc_metadata ref_codec [(sample_result_column ''A'' 0 4, None, None)] @ []) = Ok (\<lparr>Columns = [sample_result_column ''A'' 0 4]\<rparr>, [])"
    using ref.read_metadata_enc [of "[(sample_result_column ''A'' 0 4, None, None)]" "[]"] by simp
qed

end
