(* ===== verification/Handshake.thy ===== *)
theory Handshake
  imports Protocol TupleReader
begin

text \<open>
  The server's answer to the handshake (response-handshake.go), the only response that starts with the magic
  bytes, and the partition-awareness metadata of a result set (client-partition-awareness.go).
\<close>

subsection \<open>The answer to the handshake\<close>

text \<open>\<^verbatim>\<open>uuid.UUID.String\<close>: lower-case hexadecimal in the groups 8-4-4-4-12.\<close>

definition byte_hex :: "byte \<Rightarrow> string" where
  "byte_hex b = [hex_digit (unat b div 16), hex_digit (unat b mod 16)]"

definition uuid_String :: "uuid \<Rightarrow> string" where
  "uuid_String u =
     concat (map (\<lambda>i. (if i \<in> {4, 6, 8, 10} then ''-'' else []) @ byte_hex (u ! i)) [0..<16])"

record response_handshake =
  Success :: bool
  Major :: int
  Minor :: int
  Patch :: int
  ErrorUuid :: uuid
  ErrorMessage :: string
  ErrorStackTrace :: string
  ErrorDetails :: string
  IdleTimeout :: "64 word"
  ClusterNodeId :: uuid
  ClusterNodeName :: string
  ClusterIdsCount :: "8 word"
  ClusterIds :: "uuid list"
  ClusterName :: string
  ObservableTS :: "64 word"
  DBMSVerMajor :: "8 word"
  DBMSVerMinor :: "8 word"
  DBMSVerMaintenance :: "8 word"
  DBMSVerPatch :: string
  DBMSVerPreRelease :: string
  Features :: "byte list"

definition empty_handshake :: response_handshake where
  "empty_handshake =
     \<lparr>Success = False, Major = 0, Minor = 0, Patch = 0, ErrorUuid = replicate 16 0, ErrorMessage = [],
      ErrorStackTrace = [], ErrorDetails = [], IdleTimeout = 0, ClusterNodeId = replicate 16 0,
      ClusterNodeName = [], ClusterIdsCount = 0, ClusterIds = [], ClusterName = [], ObservableTS = 0,
      DBMSVerMajor = 0, DBMSVerMinor = 0, DBMSVerMaintenance = 0, DBMSVerPatch = [], DBMSVerPreRelease = [],
      Features = []\<rparr>"

text \<open>The decoded value is turned into a Go value here: an extension of type 3 is a UUID.\<close>

definition read_interface :: "msgpack \<Rightarrow> byte list \<Rightarrow> (goval \<times> byte list) res" where
  "read_interface M r =
     rbind (TryReadError M r) (\<lambda>(v, r).
       case v of
         MNil \<Rightarrow> Ok (VNil, r)
       | MInt64 n \<Rightarrow> Ok (VInt64 n, r)
       | MExt c p \<Rightarrow> rmap (\<lambda>u. (VUuidPtr (Some u), r)) (uuid_UnmarshalMsgpack p)
       | MOther \<Rightarrow> Ok (VOther [], r))"

text \<open>Reading of an error answer; it always ends in an error.\<close>

definition plain :: "string \<Rightarrow> 'a res \<Rightarrow> 'a res" where
  "plain ctxt m = map_err (\<lambda>e. GoError (ctxt @ err_text e @ [CHR 0x0A])) m"

definition read_handshake_error :: "msgpack \<Rightarrow> uuid \<Rightarrow> byte list \<Rightarrow> response_handshake res" where
  "read_handshake_error M u msg =
     rbind (plain ''failed to read error code : '' (ReadPackedInt64 M msg)) (\<lambda>(idk, msg).
     rbind (plain ''failed to read error message : '' (ReadPackedString M msg)) (\<lambda>(em, msg).
     rbind (plain ''failed to read error stack trace : '' (ReadPackedString M msg)) (\<lambda>(st, msg).
     rbind (plain ''failed to read error details : '' (ReadPackedString M msg)) (\<lambda>(d, msg).
       Err (GoError (''handshake error '' @ uuid_String u @ '' : '' @ em @ '' '' @ st @ '' '' @ d))))))"

fun read_cluster_ids :: "msgpack \<Rightarrow> nat \<Rightarrow> nat \<Rightarrow> byte list \<Rightarrow> (uuid list \<times> byte list) res" where
  "read_cluster_ids M i 0 msg = Ok ([], msg)"
| "read_cluster_ids M i (Suc n) msg =
     readf (''failed to read cluster node ID '' @ int_text (int i)) (ReadPackedUUID M) msg (\<lambda>cu msg.
       rmap (\<lambda>(cus, msg). (cu # cus, msg)) (read_cluster_ids M (Suc i) n msg))"

text \<open>The part after the error field, on success.\<close>

definition read_handshake_body :: "msgpack \<Rightarrow> response_handshake \<Rightarrow> byte list \<Rightarrow> response_handshake res" where
  "read_handshake_body M rh msg =
     readf ''failed to read idle timeout'' (ReadPackedInt8 M) msg (\<lambda>t msg.
     readf ''failed to read cluster node ID'' (ReadPackedUUID M) msg (\<lambda>nid msg.
     readf ''failed to read cluster node name'' (ReadPackedString M) msg (\<lambda>nn msg.
     readf ''failed to read cluster id count'' (ReadPackedUint8 M) msg (\<lambda>cnt msg.
     rbind (read_cluster_ids M 0 (unat cnt) msg) (\<lambda>(ids, msg).
     readf ''failed to read cluster name'' (ReadPackedString M) msg (\<lambda>cn msg.
     readf ''failed to read observable timestamp'' (ReadPackedInt64 M) msg (\<lambda>ots msg.
     readf ''failed to read DBMS major version'' (ReadPackedUint8 M) msg (\<lambda>v1 msg.
     readf ''failed to read DBMS minor version'' (ReadPackedUint8 M) msg (\<lambda>v2 msg.
     readf ''failed to read DBMS maintenance version'' (ReadPackedUint8 M) msg (\<lambda>v3 msg.
     readf ''failed to read DBMS patch version'' (ReadPackedString M) msg (\<lambda>v4 msg.
     readf ''failed to read DBMS pre release version'' (ReadPackedString M) msg (\<lambda>v5 msg.
     readf ''failed to read features'' (ReadPackedBytes M) msg (\<lambda>ft msg.
       Ok (rh\<lparr>IdleTimeout := scast t, ClusterNodeId := nid, ClusterNodeName := nn, ClusterIdsCount := cnt,
              ClusterIds := ids, ClusterName := cn, ObservableTS := ots, DBMSVerMajor := v1, DBMSVerMinor := v2,
              DBMSVerMaintenance := v3, DBMSVerPatch := v4, DBMSVerPreRelease := v5, Features := ft,
              Success := True\<rparr>))))))))))))))"

definition ResponseHandshake_ReadFrom :: "host \<Rightarrow> msgpack \<Rightarrow> byte list \<Rightarrow> (response_handshake \<times> int) res" where
  "ResponseHandshake_ReadFrom H M rr =
     readf ''failed to read response magic bytes'' (ReadRawByteArray 4) rr (\<lambda>magic rr.
     if \<not> equal_fold H (bytes_str magic) (bytes_str MAGIC_BYTES)
     then Err (GoError (''response magic bytes is not '' @ bytes_str MAGIC_BYTES))
     else rbind (response_ReadFrom rr) (\<lambda>((msg, l), rr).
     readf ''failed to read server version major'' (ReadPackedInt8 M) msg (\<lambda>ma msg.
     readf ''failed to read server version minor'' (ReadPackedInt8 M) msg (\<lambda>mi msg.
     readf ''failed to read server version patch'' (ReadPackedInt8 M) msg (\<lambda>pa msg.
     readf ''failed to read error message'' (read_interface M) msg (\<lambda>v msg.
     let rh = empty_handshake\<lparr>Major := sint ma, Minor := sint mi, Patch := sint pa\<rparr>
     in rmap (\<lambda>rh. (rh, l - 4))
          (case v of
             VUuidPtr (Some u) \<Rightarrow> read_handshake_error M u msg
           | _ \<Rightarrow> read_handshake_body M rh msg)))))))"

subsection \<open>Partition awareness\<close>

datatype tx_mode = TxNotSupported | TxSupported | TxTrackingRequired

definition NewClientDirectTxModeFromByte :: "8 word \<Rightarrow> tx_mode" where
  "NewClientDirectTxModeFromByte val =
     (if 2 < uint val then TxNotSupported
      else if val = 0 then TxNotSupported else if val = 1 then TxSupported else TxTrackingRequired)"

record partition_awareness =
  pa_TableId :: int
  Indexes :: "int list"
  Hash :: "int list"
  DirectTxMode :: tx_mode

definition NewClientPartitionAwarenessMetadataFromReader ::
  "msgpack \<Rightarrow> byte list \<Rightarrow> bool \<Rightarrow> (partition_awareness \<times> byte list) res" where
  "NewClientPartitionAwarenessMetadataFromReader M r sqlDirectMappingSupported =
     readf ''failed to read result set partition awareness table ID'' (ReadPackedInt64 M) r (\<lambda>ti r.
     readf ''failed to read result set partition awareness indices'' (ReadPackedInt64Array M) r (\<lambda>idx r.
     readf ''failed to read result set partition awareness hash'' (ReadPackedInt64Array M) r (\<lambda>h r.
     let pa = \<lparr>pa_TableId = sint ti, Indexes = map sint idx, Hash = map sint h, DirectTxMode = TxNotSupported\<rparr>
     in if sqlDirectMappingSupported
        then readf ''failed to read result set partition awareness direct TX mode support'' (ReadPackedByte M) r
               (\<lambda>ctxm r. Ok (pa\<lparr>DirectTxMode := NewClientDirectTxModeFromByte ctxm\<rparr>, r))
        else Ok (pa, r))))"

definition ReadPartitionAwareness ::
  "msgpack \<Rightarrow> byte list \<Rightarrow> bool \<Rightarrow> bool \<Rightarrow> (partition_awareness option \<times> byte list) res" where
  "ReadPartitionAwareness M r partAwareness sqlDMSupported =
     (if partAwareness
      then rmap (\<lambda>(pa, r). (Some pa, r))
             (wrap_err ''failed to read client partition awareness metadata''
                (NewClientPartitionAwarenessMetadataFromReader M r sqlDMSupported))
      else Ok (None, r))"

subsection \<open>A server's answers\<close>

definition enc_hello :: "msgpack \<Rightarrow> response_handshake \<Rightarrow> byte list" where
  "enc_hello M rh =
     WritePackedInt64 M (word_of_int (Major rh)) @ WritePackedInt64 M (word_of_int (Minor rh)) @
     WritePackedInt64 M (word_of_int (Patch rh)) @ WritePackedNull M @ WritePackedInt64 M (IdleTimeout rh) @
     WritePackedUUID M (ClusterNodeId rh) @ WritePackedString M (ClusterNodeName rh) @
     WritePackedInt64 M (ucast (ClusterIdsCount rh)) @ concat (map (WritePackedUUID M) (ClusterIds rh)) @
     WritePackedString M (ClusterName rh) @ WritePackedInt64 M (ObservableTS rh) @
     WritePackedInt64 M (ucast (DBMSVerMajor rh)) @ WritePackedInt64 M (ucast (DBMSVerMinor rh)) @
     WritePackedInt64 M (ucast (DBMSVerMaintenance rh)) @ WritePackedString M (DBMSVerPatch rh) @
     WritePackedString M (DBMSVerPreRelease rh) @ WritePackedBytes M (Features rh)"

definition wf_hello :: "response_handshake \<Rightarrow> bool" where
  "wf_hello rh \<longleftrightarrow>
     Success rh \<and> int_in 8 (Major rh) \<and> int_in 8 (Minor rh) \<and> int_in 8 (Patch rh) \<and>
     int_in 8 (sint (IdleTimeout rh)) \<and> ErrorUuid rh = replicate 16 0 \<and> ErrorMessage rh = [] \<and>
     ErrorStackTrace rh = [] \<and> ErrorDetails rh = [] \<and> wf_uuid (ClusterNodeId rh) \<and>
     length (ClusterIds rh) = unat (ClusterIdsCount rh) \<and> list_all wf_uuid (ClusterIds rh) \<and>
     length (ClusterNodeName rh) < 2 ^ 32 \<and> length (ClusterName rh) < 2 ^ 32 \<and>
     length (DBMSVerPatch rh) < 2 ^ 32 \<and> length (DBMSVerPreRelease rh) < 2 ^ 32 \<and> length (Features rh) < 2 ^ 32"

definition enc_rejection :: "msgpack \<Rightarrow> 8 word \<Rightarrow> 8 word \<Rightarrow> 8 word \<Rightarrow> uuid \<Rightarrow> 64 word \<Rightarrow> string \<Rightarrow> string \<Rightarrow> string \<Rightarrow> byte list" where
  "enc_rejection M ma mi pa u code em st d =
     WritePackedInt64 M (scast ma) @ WritePackedInt64 M (scast mi) @ WritePackedInt64 M (scast pa) @
     WritePackedUUID M u @ WritePackedInt64 M code @ WritePackedString M em @ WritePackedString M st @
     WritePackedString M d"

context msgpack_codec
begin

lemma read_cluster_ids_enc:
  "list_all wf_uuid us \<Longrightarrow>
   read_cluster_ids M i (length us) (concat (map (WritePackedUUID M) us) @ r) = Ok (us, r)"
  by (induction us arbitrary: i) simp_all

lemma readf_interface_nil: "readf c (read_interface M) (WritePackedNull M @ r) k = k VNil r"
  by (rule readf_Ok) (simp add: read_interface_def read_defs write_defs nil_code interface_nil)

lemma readf_interface_uuid: "wf_uuid u \<Longrightarrow> readf c (read_interface M) (WritePackedUUID M u @ r) k = k (VUuidPtr (Some u)) r"
proof (rule readf_Ok)
  assume w: "wf_uuid u"
  define p where "p = snd (uuid_MarshalMsgpack u)"
  have "length p = 16" using w wf_uuid_Flip [of u] by (simp add: p_def uuid_MarshalMsgpack_def wf_uuid_def)
  moreover have "uuid_UnmarshalMsgpack p = Ok u"
    using w uuid_Flip_Flip [OF w] calculation
    by (simp add: p_def uuid_UnmarshalMsgpack_def uuid_MarshalMsgpack_def read_full_def)
  ultimately show "read_interface M (WritePackedUUID M u @ r) = Ok (VUuidPtr (Some u), r)"
    by (simp add: read_interface_def read_defs WritePackedUUID_def interface_ext flip: p_def)
qed

lemma readf_bytes_end: "length b < 2 ^ 32 \<Longrightarrow> readf c (ReadPackedBytes M) (WritePackedBytes M b) k = k b []"
  using readf_bytes [of b c "[]" k] by simp

lemma read_body_enc:
  assumes "wf_hello rh"
  shows "read_handshake_body M (empty_handshake\<lparr>Major := Major rh, Minor := Minor rh, Patch := Patch rh\<rparr>)
     (WritePackedInt64 M (IdleTimeout rh) @
     WritePackedUUID M (ClusterNodeId rh) @ WritePackedString M (ClusterNodeName rh) @
     WritePackedInt64 M (ucast (ClusterIdsCount rh)) @ concat (map (WritePackedUUID M) (ClusterIds rh)) @
     WritePackedString M (ClusterName rh) @ WritePackedInt64 M (ObservableTS rh) @
     WritePackedInt64 M (ucast (DBMSVerMajor rh)) @ WritePackedInt64 M (ucast (DBMSVerMinor rh)) @
     WritePackedInt64 M (ucast (DBMSVerMaintenance rh)) @ WritePackedString M (DBMSVerPatch rh) @
     WritePackedString M (DBMSVerPreRelease rh) @ WritePackedBytes M (Features rh)) = Ok rh"
proof -
  have l: "unat (ClusterIdsCount rh) = length (ClusterIds rh)" using assms by (simp add: wf_hello_def)
  have t: "(scast (ucast (IdleTimeout rh) :: 8 word) :: 64 word) = IdleTimeout rh"
    using assms by (intro scast_ucast_in_range) (simp_all add: wf_hello_def)
  have c: "(ucast (ucast (b :: 8 word) :: 64 word) :: 8 word) = b" for b by (rule bit_word_eqI) (auto simp: bit_simps)
  have ids: "read_cluster_ids M 0 (length (ClusterIds rh)) (concat (map (WritePackedUUID M) (ClusterIds rh)) @ r) = Ok (ClusterIds rh, r)" for r
    using assms by (intro read_cluster_ids_enc) (simp add: wf_hello_def)
  show ?thesis
    using assms by (simp add: read_handshake_body_def wf_hello_def l t c ids readf_bytes_end empty_handshake_def)
qed

end

lemma length_small_uuid: "length (WritePackedUUID ref_codec (replicate 16 n)) = 18"
  by (simp add: WritePackedUUID_def ref.ext16 uuid_MarshalMsgpack_def uuid_Flip_def Let_def swap_def)

lemma read_magic: "readf c (ReadRawByteArray 4) (MAGIC_BYTES @ r) k = k MAGIC_BYTES r"
  by (rule readf_Ok) (simp add: ReadRawByteArray_def MAGIC_BYTES_def read_full_def)

lemma greeting_read:
  assumes "msgpack_codec M" and "\<forall>s. equal_fold H s s" and "wf_hello rh" and "length (enc_hello M rh) < 2 ^ 31"
  shows "ResponseHandshake_ReadFrom H M (MAGIC_BYTES @ frame (enc_hello M rh)) = Ok (rh, int (length (enc_hello M rh)))"
proof -
  note h = assms(3) [unfolded wf_hello_def]
  have "response_ReadFrom (frame (enc_hello M rh)) = Ok ((enc_hello M rh, 4 + int (length (enc_hello M rh))), [])"
    by (rule frame_read [OF assms(4)])
  then show ?thesis using h msgpack_codec.read_body_enc [OF assms(1,3)]
    unfolding ResponseHandshake_ReadFrom_def read_magic
    by (simp add: assms(2) enc_hello_def msgpack_codec.readf_int8 [OF assms(1)] msgpack_codec.readf_interface_nil [OF assms(1)] sint_ucast_of_int)
qed

lemma sample_hello_length: "length (enc_hello ref_codec (empty_handshake\<lparr>Success := True, Major := 3\<rparr>)) < 2 ^ 31"
  using ref.int_length(2) [of 0] ref.int_length(2) [of 3]
  by (simp add: enc_hello_def empty_handshake_def write_defs length_small_uuid)
    (simp add: ref_codec_def mp_enc_string_def mp_enc_bytes_def Let_def)

lemma sample_greeting:
  "ResponseHandshake_ReadFrom exact_host ref_codec (MAGIC_BYTES @ frame (enc_hello ref_codec (empty_handshake\<lparr>Success := True, Major := 3\<rparr>))) =
     Ok (empty_handshake\<lparr>Success := True, Major := 3\<rparr>,
         int (length (enc_hello ref_codec (empty_handshake\<lparr>Success := True, Major := 3\<rparr>))))"
  by (rule greeting_read [OF ref.msgpack_codec_axioms _ _ sample_hello_length])
    (simp_all add: exact_host_def wf_hello_def empty_handshake_def int_in_def wf_uuid_def)

subsection \<open>Properties\<close>



text \<open>C34: a server that refuses the client's protocol version answers with a UUID, a code and three strings; the
  client always turns this answer into an error with the UUID and the strings.\<close>

theorem handshake_rejection_reported:
  assumes "msgpack_codec M" and "\<forall>s. equal_fold H s s" and "wf_uuid u"
    and "length em < 2 ^ 32" and "length st < 2 ^ 32" and "length d < 2 ^ 32"
    and "length (enc_rejection M ma mi pa u code em st d) < 2 ^ 31"
  shows "ResponseHandshake_ReadFrom H M (MAGIC_BYTES @ frame (enc_rejection M ma mi pa u code em st d)) =
    Err (GoError (''handshake error '' @ uuid_String u @ '' : '' @ em @ '' '' @ st @ '' '' @ d))"
proof -
  have s: "ReadPackedString M (WritePackedString M d) = Ok (d, [])"
    using msgpack_codec.read_write_string [OF assms(1,6), of "[]"] by simp
  show ?thesis using assms(3-6) s frame_read [OF assms(7)]
    unfolding ResponseHandshake_ReadFrom_def read_magic
    by (simp add: assms(2) enc_rejection_def msgpack_codec.readf_int8 [OF assms(1)] msgpack_codec.readf_interface_uuid [OF assms(1)]
        read_handshake_error_def plain_def msgpack_codec.read_write_int64 [OF assms(1)] msgpack_codec.read_write_string [OF assms(1)])
qed

theorem handshake_rejection_reported_witness:
  "ResponseHandshake_ReadFrom exact_host ref_codec (MAGIC_BYTES @ frame (enc_rejection ref_codec 3 0 0 (replicate 16 1) 5 ''e'' ''s'' ''d'')) =
    Err (GoError (''handshake error '' @ uuid_String (replicate 16 1) @ '' : '' @ ''e'' @ '' '' @ ''s'' @ '' '' @ ''d''))"
proof (rule handshake_rejection_reported [OF ref.msgpack_codec_axioms])
  show "length (enc_rejection ref_codec 3 0 0 (replicate 16 1) 5 ''e'' ''s'' ''d'') < 2 ^ 31"
    using ref.int_length(2) [of 0] ref.int_length(2) [of 3] ref.int_length(2) [of 5]
    by (simp add: enc_rejection_def write_defs length_small_uuid)
      (simp add: ref_codec_def mp_enc_string_def Let_def)
qed (simp_all add: exact_host_def wf_uuid_def)

end
