(* ===== verification/Client.thy ===== *)
theory Client
  imports Handshake
begin

text \<open>
  The connection (client.go): its state, \<^verbatim>\<open>Do\<close>, \<^verbatim>\<open>Connect\<close>, \<^verbatim>\<open>Close\<close>, the heartbeat, and the step relation of
  a client in use. The network is an argument of each operation: \<open>WriteFails\<close> when the connection does not take
  the request, \<open>Arrives bs\<close> when it does and \<open>bs\<close> is all that can be read afterwards. Each operation is one step here, as it
  is for a client that one goroutine at a time uses; goroutines that share a client are the subject of the theory
  Concurrency. \<open>sent\<close> records the frames written, for the statements about whole runs.
\<close>

subsection \<open>State\<close>

record client =
  conn :: bool
  RequestId :: "64 word"
  sent :: "byte list list"

datatype reply = WriteFails gerror | Arrives "byte list"

definition Connected :: "client \<Rightarrow> bool" where
  "Connected c = conn c"

text \<open>\<^verbatim>\<open>Do\<close>: writing to the nil connection of a closed client panics; the id is advanced once the request is sent.\<close>

definition Do :: "client \<Rightarrow> byte list \<Rightarrow> (byte list \<Rightarrow> 'a res) \<Rightarrow> reply \<Rightarrow> client \<times> 'a res" where
  "Do c req ReadFrom rep =
     (if \<not> conn c then (c, Panic NilDereference)
      else case rep of
             WriteFails e \<Rightarrow> (c, Err (Wrapf e ''failed to send request to server''))
           | Arrives bs \<Rightarrow> (c\<lparr>RequestId := RequestId c + 1, sent := sent c @ [req]\<rparr>, ReadFrom bs))"

text \<open>\<open>e\<close> is the result of closing the network connection.\<close>

definition Close :: "client \<Rightarrow> gerror option \<Rightarrow> client \<times> gerror option" where
  "Close c e = (if Connected c then (c\<lparr>conn := False\<rparr>, e) else (c, None))"

definition clientFinalizer :: "client \<Rightarrow> gerror option \<Rightarrow> client" where
  "clientFinalizer c e = (if Connected c then fst (Close c e) else c)"

record conn_info =
  ci_Major :: int
  ci_Minor :: int
  ci_Patch :: int
  Username :: string
  Password :: string

text \<open>
  \<^verbatim>\<open>Connect\<close>: \<open>dial\<close> is the error of dialling, if any. The result comes with the connection as it is left behind.
\<close>

definition Connect :: "host \<Rightarrow> msgpack \<Rightarrow> ((string \<times> string) list \<Rightarrow> (string \<times> string) list) \<Rightarrow> conn_info \<Rightarrow>
    gerror option \<Rightarrow> reply \<Rightarrow> client \<times> client res" where
  "Connect H M iter ci dial rep =
     (case dial of
        Some e \<Rightarrow> (\<lparr>conn = False, RequestId = 0, sent = []\<rparr>, Err (Wrapf e ''failed to open connection''))
      | None \<Rightarrow>
          let c = \<lparr>conn = True, RequestId = 0, sent = []\<rparr>;
              req = RequestHandshake_WriteTo M iter (ci_Major ci) (ci_Minor ci) (ci_Patch ci) (Username ci) (Password ci);
              (c, r) = Do c req (ResponseHandshake_ReadFrom H M) rep
          in (case r of
                Err e \<Rightarrow> (fst (Close c None), Err (Wrapf e ''failed to make handshake''))
              | Panic p \<Rightarrow> (c, Panic p)
              | Ok (res, _) \<Rightarrow>
                  if \<not> Success res
                  then (fst (Close c None),
                        Err (Errorf (''handshake failed: '' @ ErrorMessage res @
                          '', server supported protocol version is v'' @ int_text (Major res) @ ''.'' @
                          int_text (Minor res) @ ''.'' @ int_text (Patch res))))
                  else let c = c\<lparr>RequestId := 0\<rparr> in (c, Ok c)))"

definition SendHeartbeat :: "msgpack \<Rightarrow> client \<Rightarrow> reply \<Rightarrow> client \<times> unit res" where
  "SendHeartbeat M c rep =
     (let req = RequestHeartbeat_WriteTo M (RequestId c);
          res = NewResponseHeartbeat (RequestId c);
          c = c\<lparr>RequestId := RequestId c + 1\<rparr>;
          (c, r) = Do c req (ResponseHeartbeat_ReadFrom M res) rep
      in (c, rbind (wrap_err ''failed to execute OP_HEARTBEAT operation'' r) (\<lambda>rh.
               case Heartbeat_CheckStatus rh of Some e \<Rightarrow> Err e | None \<Rightarrow> Ok ())))"

text \<open>
  How every operation of the client goes about its request: the request carries the current id, the response
  expects it, an error is wrapped, the status is checked.
\<close>

definition operate :: "msgpack \<Rightarrow> client \<Rightarrow> 16 word \<Rightarrow> byte list \<Rightarrow> string \<Rightarrow> reply \<Rightarrow> client \<times> response_operation res" where
  "operate M c code payload ctxt rep =
     (let req = RequestOperation_WriteTo M code (RequestId c) payload;
          res = NewResponseOperation (RequestId c);
          (c, r) = Do c req (ResponseOperation_ReadFrom M res) rep
      in (c, rbind (wrap_err ctxt r) (\<lambda>res. case CheckStatus res of Some e \<Rightarrow> Err e | None \<Rightarrow> Ok res)))"

subsection \<open>Steps and runs\<close>

inductive client_step :: "msgpack \<Rightarrow> client \<Rightarrow> client \<Rightarrow> bool" for M where
  operation: "conn c \<Longrightarrow> client_step M c (fst (operate M c code payload ctxt rep))"
| heartbeat: "conn c \<Longrightarrow> client_step M c (fst (SendHeartbeat M c rep))"
| close: "client_step M c (fst (Close c e))"
| finalize: "client_step M c (clientFinalizer c e)"

inductive client_run :: "msgpack \<Rightarrow> client \<Rightarrow> nat \<Rightarrow> client \<Rightarrow> bool" for M where
  start: "client_run M c 0 c"
| more: "client_run M c n c1 \<Longrightarrow> client_step M c1 c2 \<Longrightarrow> client_run M c (Suc n) c2"

inductive_cases client_stepE: "client_step M c c'"

definition request_with_id :: "msgpack \<Rightarrow> byte list \<Rightarrow> 64 word \<Rightarrow> bool" where
  "request_with_id M f i \<longleftrightarrow>
     f = RequestHeartbeat_WriteTo M i \<or> (\<exists>code payload. f = RequestOperation_WriteTo M code i payload)"

text \<open>One step sends at most one request, with the current id, and then moves the id past it.\<close>

lemma Do_state:
  "fst (Do c req rd rep) = (case rep of WriteFails _ \<Rightarrow> c | Arrives _ \<Rightarrow>
     if conn c then c\<lparr>RequestId := RequestId c + 1, sent := sent c @ [req]\<rparr> else c)"
  by (cases rep) (simp_all add: Do_def)

lemma operate_state:
  "fst (operate M c code payload ctxt rep) =
     fst (Do c (RequestOperation_WriteTo M code (RequestId c) payload)
            (ResponseOperation_ReadFrom M (NewResponseOperation (RequestId c))) rep)"
  by (simp add: operate_def Let_def split: prod.split)

lemma SendHeartbeat_state:
  "fst (SendHeartbeat M c rep) =
     fst (Do (c\<lparr>RequestId := RequestId c + 1\<rparr>) (RequestHeartbeat_WriteTo M (RequestId c))
            (ResponseHeartbeat_ReadFrom M (NewResponseHeartbeat (RequestId c))) rep)"
  by (simp add: SendHeartbeat_def Let_def split: prod.split)

lemma client_step_effect:
  assumes "client_step M c c'"
  shows "(sent c' = sent c \<and> RequestId c' \<in> {RequestId c, RequestId c + 1}) \<or>
    (conn c \<and> (\<exists>f. request_with_id M f (RequestId c) \<and> sent c' = sent c @ [f]) \<and>
     RequestId c' \<in> {RequestId c + 1, RequestId c + 2})"
  using assms
  by (cases rule: client_step.cases)
    (auto simp: operate_state SendHeartbeat_state Do_state Close_def clientFinalizer_def request_with_id_def
      split: reply.splits)

lemma client_step_closed: "client_step M c c' \<Longrightarrow> \<not> conn c \<Longrightarrow> c' = c"
  by (auto elim!: client_stepE simp: Close_def clientFinalizer_def Connected_def)

lemma client_run_closed: "client_run M c n c' \<Longrightarrow> \<not> conn c \<Longrightarrow> c' = c"
  by (induction rule: client_run.induct) (auto dest: client_step_closed)

text \<open>The ids of the requests sent since \<open>c0\<close>, and what holds of them after \<open>n\<close> steps.\<close>

definition ids_inv :: "msgpack \<Rightarrow> client \<Rightarrow> nat \<Rightarrow> client \<Rightarrow> bool" where
  "ids_inv M c0 n c \<longleftrightarrow>
     uint (RequestId c) \<le> uint (RequestId c0) + 2 * int n \<and>
     (\<exists>fs ids. sent c = sent c0 @ fs \<and> list_all2 (request_with_id M) fs ids \<and>
        sorted_wrt (\<lambda>i j. uint i < uint j) ids \<and> (\<forall>i \<in> set ids. uint i < uint (RequestId c)))"

lemma uint_plus_small: "uint (w :: 64 word) + int k < 2 ^ 64 \<Longrightarrow> uint (w + word_of_nat k) = uint w + int k"
proof -
  assume b: "uint w + int k < 2 ^ 64"
  have "uint (w + word_of_nat k) = (uint w + int k) mod 2 ^ 64"
    by (simp add: uint_word_ariths unsigned_of_nat take_bit_eq_mod zmod_int mod_simps)
  then show ?thesis using b by simp
qed

lemma ids_inv_step:
  assumes "ids_inv M c0 n c1" "client_step M c1 c2" "uint (RequestId c0) + 2 * int (Suc n) < 2 ^ 64"
  shows "ids_inv M c0 (Suc n) c2"
proof -
  obtain fs ids where i: "uint (RequestId c1) \<le> uint (RequestId c0) + 2 * int n" "sent c1 = sent c0 @ fs"
    "list_all2 (request_with_id M) fs ids" "sorted_wrt (\<lambda>i j. uint i < uint j) ids"
    "\<forall>i \<in> set ids. uint i < uint (RequestId c1)"
    using assms(1) by (auto simp: ids_inv_def)
  have p: "uint (RequestId c1 + 1) = uint (RequestId c1) + 1" "uint (RequestId c1 + 2) = uint (RequestId c1) + 2"
    using uint_plus_small [of "RequestId c1" 1] uint_plus_small [of "RequestId c1" 2] i(1) assms(3) by simp_all
  have w: "uint (RequestId c2) \<le> uint (RequestId c0) + 2 * int (Suc n)"
    using client_step_effect [OF assms(2)] p i(1) by auto
  from client_step_effect [OF assms(2)] show ?thesis
  proof
    assume a: "sent c2 = sent c1 \<and> RequestId c2 \<in> {RequestId c1, RequestId c1 + 1}"
    then have "\<forall>i \<in> set ids. uint i < uint (RequestId c2)" using i(5) p by auto
    with a i w show ?thesis by (auto simp: ids_inv_def)
  next
    assume a: "conn c1 \<and> (\<exists>f. request_with_id M f (RequestId c1) \<and> sent c2 = sent c1 @ [f]) \<and>
      RequestId c2 \<in> {RequestId c1 + 1, RequestId c1 + 2}"
    then obtain f where f: "request_with_id M f (RequestId c1)" "sent c2 = sent c1 @ [f]" by blast
    have "sent c2 = sent c0 @ (fs @ [f])" using f i(2) by simp
    moreover have "list_all2 (request_with_id M) (fs @ [f]) (ids @ [RequestId c1])"
      using f i(3) by (simp add: list_all2_appendI)
    moreover have "sorted_wrt (\<lambda>i j. uint i < uint j) (ids @ [RequestId c1])"
      using i(4,5) by (simp add: sorted_wrt_append)
    moreover have "\<forall>i \<in> set (ids @ [RequestId c1]). uint i < uint (RequestId c2)" using i(5) a p by auto
    ultimately show ?thesis using w unfolding ids_inv_def by blast
  qed
qed

lemma ids_inv_run:
  assumes "client_run M c0 n c" "uint (RequestId c0) + 2 * int n < 2 ^ 64"
  shows "ids_inv M c0 n c"
  using assms
proof (induction rule: client_run.induct)
  case (start c)
  then show ?case by (auto simp: ids_inv_def)
next
  case (more c n c1 c2)
  then show ?case by (auto intro!: ids_inv_step)
qed

text \<open>The two ways an answered operation ends.\<close>

lemma short_zero_time: "short_time zero_time"
  by (simp add: short_time_def time_UnixMilli_def zero_time_def)

context msgpack_codec
begin

lemma operate_success:
  assumes "conn c" "short_time pcts" "short_time ts" "flags AND 4 \<noteq> 4"
    "length (reply_payload M (RequestId c) flags pcts ts body) < 2 ^ 31"
  shows "operate M c op payload ctxt (Arrives (frame (reply_payload M (RequestId c) flags pcts ts body))) =
    (c\<lparr>RequestId := RequestId c + 1, sent := sent c @ [RequestOperation_WriteTo M op (RequestId c) payload]\<rparr>,
     Ok ((NewResponseOperation (RequestId c))\<lparr>Flags := ucast flags, ObsTs := read_time ts, ro_message := body\<rparr>))"
proof -
  have "RequestId c = ro_RequestId (NewResponseOperation (RequestId c))" by (simp add: NewResponseOperation_def)
  note r = reply_success [OF assms(2,3,5) this]
  show ?thesis using r assms(1,4) error_flag_ucast [of flags]
    by (simp add: operate_def Do_def FlagError_def) (simp add: CheckStatus_def FlagError_def)
qed

lemma operate_error:
  assumes "conn c" "short_time pcts" "short_time ts" "flags AND 4 = 4"
    "length (reply_payload M (RequestId c) flags pcts ts (error_body M u code m d)) < 2 ^ 31"
    "wf_uuid u" "length m < 2 ^ 32" "length d < 2 ^ 32"
  shows "operate M c op payload ctxt (Arrives (frame (reply_payload M (RequestId c) flags pcts ts (error_body M u code m d)))) =
    (c\<lparr>RequestId := RequestId c + 1, sent := sent c @ [RequestOperation_WriteTo M op (RequestId c) payload]\<rparr>,
     Err (NewError (ucast code) (m @ '' : '' @ d)))"
proof -
  have "RequestId c = ro_RequestId (NewResponseOperation (RequestId c))" by (simp add: NewResponseOperation_def)
  note r = reply_error [OF assms(2,3,5) this _ assms(6-8)]
  show ?thesis using r assms(1,4) error_flag_ucast [of flags]
    by (simp add: operate_def Do_def FlagError_def) (simp add: CheckStatus_def FlagError_def)
qed

end

subsection \<open>Properties\<close>

text \<open>A client that was closed stays closed, sends nothing and keeps its state in every run, but using it is
  not an error it reports: every operation and every heartbeat panics on the nil connection.\<close>

theorem closed_client_panics:
  assumes "\<not> conn c" and "client_run M c n c'"
  shows "c' = c \<and>
    snd (operate M c' code payload ctxt rep) = Panic NilDereference \<and>
    snd (SendHeartbeat M c' rep) = Panic NilDereference \<and> snd (Close c' e) = None"
  using assms(1) client_run_closed [OF assms(2,1)]
  by (auto simp: operate_def SendHeartbeat_def Do_def Close_def Connected_def Let_def)

theorem closed_client_panics_witness:
  "\<lparr>conn = False, RequestId = 3, sent = []\<rparr> = \<lparr>conn = False, RequestId = 3, sent = []\<rparr> \<and>
    snd (operate ref_codec \<lparr>conn = False, RequestId = 3, sent = []\<rparr> 3 [] ''ctx'' (Arrives [])) = Panic NilDereference \<and>
    snd (SendHeartbeat ref_codec \<lparr>conn = False, RequestId = 3, sent = []\<rparr> (Arrives [])) = Panic NilDereference \<and>
    snd (Close \<lparr>conn = False, RequestId = 3, sent = []\<rparr> None) = None"
  by (rule closed_client_panics [where c = "\<lparr>conn = False, RequestId = 3, sent = []\<rparr>" and n = 0])
    (simp, rule client_run.start)

text \<open>C19: \<^verbatim>\<open>Connect\<close> returns either an open client that has sent exactly the handshake and starts its ids at zero,
  or an error with the network connection closed again; only a panic while reading leaves it open.\<close>

theorem Connect_outcome:
  "(case Connect H M iter ci dial rep of
      (c, Ok c') \<Rightarrow> c' = c \<and> conn c \<and> RequestId c = 0 \<and>
        sent c = [RequestHandshake_WriteTo M iter (ci_Major ci) (ci_Minor ci) (ci_Patch ci) (Username ci) (Password ci)]
    | (c, Err e) \<Rightarrow> \<not> conn c
    | (c, Panic p) \<Rightarrow> conn c)"
  by (auto simp: Connect_def Do_def Close_def Connected_def Let_def split: option.splits reply.splits res.splits prod.splits)

text \<open>C11: an open client that sends an operation and receives a well-formed reply always completes it: with the
  body of the reply, or with the server's error, having advanced the id by one.\<close>

theorem operation_completes:
  assumes "msgpack_codec M" and "conn c" and "short_time pcts" and "short_time ts" and "wf_uuid u"
    and "length m < 2 ^ 32" and "length d < 2 ^ 32"
    and "body = (if flags AND 4 = 4 then error_body M u code m d else extra)"
    and "length (reply_payload M (RequestId c) flags pcts ts body) < 2 ^ 31"
  shows "\<exists>r. operate M c op payload ctxt (Arrives (frame (reply_payload M (RequestId c) flags pcts ts body))) =
      (c\<lparr>RequestId := RequestId c + 1,
         sent := sent c @ [RequestOperation_WriteTo M op (RequestId c) payload]\<rparr>, r) \<and>
    (if flags AND 4 = 4 then r = Err (NewError (ucast code) (m @ '' : '' @ d))
     else \<exists>ro. r = Ok ro \<and> ro_message ro = extra \<and> ObsTs ro = read_time ts)"
proof -
  let ?c = "c\<lparr>RequestId := RequestId c + 1, sent := sent c @ [RequestOperation_WriteTo M op (RequestId c) payload]\<rparr>"
  show ?thesis
  proof (cases "flags AND 4 = 4")
    case True
    then show ?thesis
      using msgpack_codec.operate_error [OF assms(1-4) _ _ assms(5-7), of flags code op payload ctxt] assms(8,9) by simp
  next
    case False
    then show ?thesis
      using msgpack_codec.operate_success [OF assms(1-4), of flags extra op payload ctxt] assms(8,9) by auto
  qed
qed

theorem operation_completes_witness:
  "\<exists>r. operate ref_codec \<lparr>conn = True, RequestId = 5, sent = []\<rparr> 3 [] ''ctx''
        (Arrives (frame (reply_payload ref_codec (RequestId \<lparr>conn = True, RequestId = 5, sent = []\<rparr>) 0 zero_time zero_time [1]))) =
      (\<lparr>conn = True, RequestId = 5, sent = []\<rparr>
        \<lparr>RequestId := RequestId \<lparr>conn = True, RequestId = 5, sent = []\<rparr> + 1,
         sent := sent \<lparr>conn = True, RequestId = 5, sent = []\<rparr> @
           [RequestOperation_WriteTo ref_codec 3 (RequestId \<lparr>conn = True, RequestId = 5, sent = []\<rparr>) []]\<rparr>, r) \<and>
    (if (0 :: 64 word) AND 4 = 4 then r = Err (NewError (ucast (0 :: 64 word)) ([] @ '' : '' @ []))
     else \<exists>ro. r = Ok ro \<and> ro_message ro = [1] \<and> ObsTs ro = read_time zero_time)"
proof (rule operation_completes [OF ref.msgpack_codec_axioms, where u = "replicate 16 0"])
  show "length (reply_payload ref_codec (RequestId \<lparr>conn = True, RequestId = 5, sent = []\<rparr>) 0 zero_time zero_time [1]) < 2 ^ 31"
    using ref.int_length(2) [of 5] ref.int_length(2) [of 0] ref.int_length(2) [of "time_UnixMilli zero_time * 256 * 256"]
    by (simp add: reply_payload_def write_defs WritePackedTimestamp_def FlagPartitionAssignmentChanged_def)
qed (simp_all add: short_zero_time wf_uuid_def)

text \<open>A heartbeat answered by the server advances the id by two and is acknowledged only for ids up to 127,
  because the echoed id is read as eight bits; from then on every heartbeat of the connection is an error.\<close>

theorem heartbeat_lifetime:
  assumes "msgpack_codec M" and "conn c"
    and "reply = WritePackedInt64 M (RequestId c) @ WritePackedInt64 M 0 @ WritePackedInt64 M x"
  shows "SendHeartbeat M c (Arrives (frame reply)) =
    (c\<lparr>RequestId := RequestId c + 2, sent := sent c @ [RequestHeartbeat_WriteTo M (RequestId c)]\<rparr>,
     if - 128 \<le> sint (RequestId c) \<and> sint (RequestId c) \<le> 127 then Ok ()
     else Err (Wrapf (wrong_id (sint (ucast (RequestId c) :: 8 word)) (sint (RequestId c)))
                 ''failed to execute OP_HEARTBEAT operation''))"
  using assms(2) heartbeat_reply [OF assms(1,3)] by (simp add: SendHeartbeat_def Do_def Heartbeat_CheckStatus_def)

theorem heartbeat_lifetime_witness:
  "SendHeartbeat ref_codec \<lparr>conn = True, RequestId = 128, sent = []\<rparr>
     (Arrives (frame (WritePackedInt64 ref_codec (RequestId \<lparr>conn = True, RequestId = 128, sent = []\<rparr>) @
        WritePackedInt64 ref_codec 0 @ WritePackedInt64 ref_codec 7))) =
    (\<lparr>conn = True, RequestId = 128, sent = []\<rparr>\<lparr>RequestId := RequestId \<lparr>conn = True, RequestId = 128, sent = []\<rparr> + 2,
       sent := sent \<lparr>conn = True, RequestId = 128, sent = []\<rparr> @
         [RequestHeartbeat_WriteTo ref_codec (RequestId \<lparr>conn = True, RequestId = 128, sent = []\<rparr>)]\<rparr>,
     if - 128 \<le> sint (RequestId \<lparr>conn = True, RequestId = 128, sent = []\<rparr>) \<and>
        sint (RequestId \<lparr>conn = True, RequestId = 128, sent = []\<rparr>) \<le> 127 then Ok ()
     else Err (Wrapf (wrong_id (sint (ucast (RequestId \<lparr>conn = True, RequestId = 128, sent = []\<rparr>) :: 8 word))
                        (sint (RequestId \<lparr>conn = True, RequestId = 128, sent = []\<rparr>)))
                 ''failed to execute OP_HEARTBEAT operation''))"
  by (rule heartbeat_lifetime [OF ref.msgpack_codec_axioms]) simp_all

end
