(* ===== verification/Schemas.thy ===== *)
theory Schemas
  imports Client "HOL-Library.Multiset" "HOL-Library.AList" "HOL-Library.Char_ord" "HOL-Library.List_Lexorder"
begin

text \<open>
  Tables and their schemas (client-schemas.go, client-tables-operations.go): the list of tables, the lookup of a
  table by name, the schema of a table and its key columns. \<^verbatim>\<open>sort.Slice\<close> is a parameter with the laws of the
  locale \<open>key_sorter\<close>, because it does not fix the order of equal keys; the order in which a Go map is visited is
  a parameter too.
\<close>

subsection \<open>Columns and key columns\<close>

record table_column =
  tc_Name :: string
  tc_TypeId :: int
  tc_Kind :: bt_kind
  tc_KeyIndex :: int
  tc_Key :: bool
  tc_Nullable :: bool
  tc_Scale :: int
  tc_Precision :: int

record table_schema =
  Version :: int
  ts_Columns :: "table_column list"

definition KeyColumns :: "table_column slice_sort \<Rightarrow> table_schema \<Rightarrow> table_column list" where
  "KeyColumns sorter s =
     sorter (\<lambda>a b. tc_KeyIndex a < tc_KeyIndex b) (filter tc_Key (ts_Columns s))"

definition columnKindForTypeId :: "int \<Rightarrow> bt_kind" where
  "columnKindForTypeId typeId =
     (if typeId = typeBOOLEAN then BtBoolean
      else if typeId = typeTINYINT then BtInt8
      else if typeId = typeSMALLINT then BtInt16
      else if typeId = typeINT then BtInt32
      else if typeId = typeBIGINT then BtInt64
      else if typeId = typeREAL then BtFloat
      else if typeId = typeDOUBLE then BtDouble
      else if typeId = typeDECIMAL then BtDecimal
      else if typeId = typeDATE then BtDate
      else if typeId = typeTIME then BtTime
      else if typeId = typeDATETIME then BtDateTime
      else if typeId = typeTIMESTAMP then BtTimestamp
      else if typeId = typeUUID then BtUuid
      else if typeId = typeVARCHAR then BtString
      else if typeId = typeVARBINARY then BtBytes
      else BtNull)"

subsection \<open>The schema of a table\<close>

definition skipPackedValue :: "msgpack \<Rightarrow> byte list \<Rightarrow> byte list res" where
  "skipPackedValue M r = dec_skip M r"

fun skip_properties :: "msgpack \<Rightarrow> nat \<Rightarrow> byte list \<Rightarrow> byte list res" where
  "skip_properties M 0 r = Ok r"
| "skip_properties M (Suc k) r =
     rbind (wrap_err ''failed to skip column property'' (skipPackedValue M r)) (skip_properties M k)"

definition read_table_column :: "msgpack \<Rightarrow> byte list \<Rightarrow> (table_column \<times> byte list) res" where
  "read_table_column M r =
     readf ''failed to read column property count'' (ReadPackedInt32 M) r (\<lambda>propertyCount r.
     readf ''failed to read column name'' (ReadPackedString M) r (\<lambda>name r.
     readf ''failed to read column type'' (ReadPackedInt32 M) r (\<lambda>typeId r.
     readf ''failed to read column key index'' (ReadPackedInt32 M) r (\<lambda>keyIndex r.
     readf ''failed to read column nullability'' (ReadPackedBool M) r (\<lambda>nullable r.
     readf ''failed to read column colocation index'' (ReadPackedInt32 M) r (\<lambda>_ r.
     readf ''failed to read column scale'' (ReadPackedInt32 M) r (\<lambda>scale r.
     readf ''failed to read column precision'' (ReadPackedInt32 M) r (\<lambda>precision r.
     rbind (skip_properties M (nat (sint propertyCount - 7)) r) (\<lambda>r.
       Ok (\<lparr>tc_Name = name, tc_TypeId = sint typeId, tc_Kind = columnKindForTypeId (sint typeId),
            tc_KeyIndex = sint keyIndex, tc_Key = (0 \<le> sint keyIndex), tc_Nullable = nullable,
            tc_Scale = sint scale, tc_Precision = sint precision\<rparr>, r))))))))))"

fun read_table_columns :: "msgpack \<Rightarrow> nat \<Rightarrow> byte list \<Rightarrow> (table_column list \<times> byte list) res" where
  "read_table_columns M 0 r = Ok ([], r)"
| "read_table_columns M (Suc n) r =
     rbind (read_table_column M r) (\<lambda>(c, r). rmap (\<lambda>(cs, r). (c # cs, r)) (read_table_columns M n r))"

text \<open>\<^verbatim>\<open>make([]TableColumn, 0, columnCount)\<close> panics for a negative count.\<close>

definition read_table_schema :: "msgpack \<Rightarrow> byte list \<Rightarrow> (table_schema \<times> byte list) res" where
  "read_table_schema M r =
     readf ''failed to read schema version'' (ReadPackedInt32 M) r (\<lambda>version r.
     readf ''failed to read column count'' (ReadPackedInt32 M) r (\<lambda>columnCount r.
       if sint columnCount < 0 then Panic MakeSliceLen
       else rbind (read_table_columns M (nat (sint columnCount)) r) (\<lambda>(columns, r).
              Ok (\<lparr>Version = sint version, ts_Columns = columns\<rparr>, r))))"

fun read_schemas :: "msgpack \<Rightarrow> nat \<Rightarrow> table_schema option \<Rightarrow> byte list \<Rightarrow> table_schema option res" where
  "read_schemas M 0 latest r = Ok latest"
| "read_schemas M (Suc n) latest r = rbind (read_table_schema M r) (\<lambda>(s, r). read_schemas M n (Some s) r)"

definition GetTableSchema :: "msgpack \<Rightarrow> client \<Rightarrow> 64 word \<Rightarrow> reply \<Rightarrow> client \<times> table_schema option res" where
  "GetTableSchema M c tableId rep =
     (let buf = WritePackedInt64 M tableId @ WritePackedNull M;
          (c, r) = operate M c OpSchemaGet buf ''failed to execute GET_SCHEMA operation'' rep
      in (c, rbind r (\<lambda>res.
           readf ''failed to read schema count'' (ReadPackedInt32 M) (ro_message res) (\<lambda>count msg.
             if sint count \<le> 0
             then Err (Errorf (''schema not found for table id '' @ int_text (sint tableId)))
             else read_schemas M (nat (sint count)) None msg))))"

subsection \<open>The list of tables\<close>

text \<open>A Go map is an association list with distinct keys.\<close>

fun read_pairs :: "msgpack \<Rightarrow> nat \<Rightarrow> nat \<Rightarrow> (64 word \<times> string) list \<Rightarrow> byte list \<Rightarrow> (64 word \<times> string) list res" where
  "read_pairs M i 0 data r = Ok data"
| "read_pairs M i (Suc n) data r =
     readf (''failed to read table infos with index '' @ int_text (int i)) (ReadPackedInt64String M) r (\<lambda>kv r.
       read_pairs M (Suc i) n (AList.update (fst kv) (snd kv) data) r)"

definition GetTables :: "msgpack \<Rightarrow> client \<Rightarrow> reply \<Rightarrow> client \<times> (64 word \<times> string) list res" where
  "GetTables M c rep =
     (let (c, r) = operate M c OpTablesGet [] ''failed to execute GET_TABLES operation'' rep
      in (c, rbind r (\<lambda>res.
           readf ''failed to read pairs count'' (ReadPackedInt32 M) (ro_message res) (\<lambda>count msg.
             read_pairs M 0 (nat (sint count)) [] msg))))"

definition GetTable :: "msgpack \<Rightarrow> client \<Rightarrow> string \<Rightarrow> reply \<Rightarrow> client \<times> unit res" where
  "GetTable M c table rep =
     (let (c, r) = operate M c OpTableGet (WritePackedString M table) ''failed to execute GET_TABLE operation'' rep
      in (c, rbind r (\<lambda>res.
           readf ''failed to read pairs count'' (ReadPackedInt32 M) (ro_message res) (\<lambda>count msg.
             rmap (\<lambda>_. ()) (read_pairs M 0 (nat (sint count)) [] msg)))))"

subsection \<open>Names\<close>

text \<open>The UTF-8 encodings of the Unicode white-space characters, which \<^verbatim>\<open>strings.TrimSpace\<close> removes at both ends.\<close>

definition white_space :: "string list" where
  "white_space =
     map (\<lambda>b. [char_of (b :: nat)]) [0x09, 0x0A, 0x0B, 0x0C, 0x0D, 0x20] @
     map (map char_of) [[0xC2, 0x85 :: nat], [0xC2, 0xA0], [0xE1, 0x9A, 0x80]] @
     map (\<lambda>b. map char_of [0xE2, 0x80, b :: nat]) ([0x80..<0x8B] @ [0xA8, 0xA9, 0xAF]) @
     map (map char_of) [[0xE2, 0x81, 0x9F :: nat], [0xE3, 0x80, 0x80]]"

definition strip_prefix :: "string \<Rightarrow> string \<Rightarrow> string option" where
  "strip_prefix p s = (if p \<noteq> [] \<and> take (length p) s = p then Some (drop (length p) s) else None)"

fun strip_one :: "string list \<Rightarrow> string \<Rightarrow> string option" where
  "strip_one [] s = None"
| "strip_one (p # ps) s = (case strip_prefix p s of Some r \<Rightarrow> Some r | None \<Rightarrow> strip_one ps s)"

lemma strip_one_shorter: "strip_one ps s = Some r \<Longrightarrow> length r < length s"
proof (induction ps)
  case (Cons p ps)
  have "strip_prefix p s = Some r \<Longrightarrow> length r < length s"
    by (cases s) (auto simp: strip_prefix_def neq_Nil_conv split: if_splits)
  with Cons show ?case by (auto split: option.splits)
qed simp

function trim_left :: "string list \<Rightarrow> string \<Rightarrow> string" where
  "trim_left ps s = (case strip_one ps s of Some r \<Rightarrow> trim_left ps r | None \<Rightarrow> s)"
  by pat_completeness auto
termination
  by (relation "measure (\<lambda>(ps, s). length s)") (auto dest: strip_one_shorter)

declare trim_left.simps [simp del]

definition TrimSpace :: "string \<Rightarrow> string" where
  "TrimSpace s = rev (trim_left (map rev white_space) (rev (trim_left white_space s)))"

fun split_on :: "char \<Rightarrow> string \<Rightarrow> string list" where
  "split_on d [] = [[]]"
| "split_on d (c # s) = (if c = d then [] # split_on d s else (c # hd (split_on d s)) # tl (split_on d s))"

fun join_with :: "string \<Rightarrow> string list \<Rightarrow> string" where
  "join_with sep [] = []"
| "join_with sep [p] = p"
| "join_with sep (p # ps) = p @ sep @ join_with sep ps"

definition normalizeTableName :: "host \<Rightarrow> string \<Rightarrow> string" where
  "normalizeTableName H name =
     (let name = filter (\<lambda>c. c \<noteq> CHR 0x22) name;
          name = filter (\<lambda>c. c \<noteq> CHR 0x60) name;
          parts = split_on CHR ''.'' name
      in join_with ''.'' (map (\<lambda>p. to_lower H (TrimSpace p)) parts))"

subsection \<open>Lookup by name\<close>

text \<open>The id is -1 when the server does not know the table.\<close>

definition tableIdByName :: "msgpack \<Rightarrow> client \<Rightarrow> string \<Rightarrow> reply \<Rightarrow> client \<times> (int \<times> string) res" where
  "tableIdByName M c qualifiedName rep =
     (let (c, r) = operate M c OpTableGet (WritePackedString M qualifiedName) ''failed to execute GET_TABLE operation'' rep
      in (c, rbind r (\<lambda>res.
           readf ''failed to read table lookup result'' (TryReadPackedNil M) (ro_message res) (\<lambda>notFound msg.
             if notFound then Ok (-1, [])
             else readf ''failed to read table id'' (ReadPackedInt32 M) msg (\<lambda>i msg.
                  readf ''failed to read table name'' (ReadPackedString M) msg (\<lambda>name msg.
                    Ok (sint i, name)))))))"

definition HasSuffix :: "string \<Rightarrow> string \<Rightarrow> bool" where
  "HasSuffix s suf \<longleftrightarrow> length suf \<le> length s \<and> drop (length s - length suf) s = suf"

text \<open>The loop over the tables: the first exact match ends it, otherwise the first partial match is kept.\<close>

fun find_table :: "host \<Rightarrow> string \<Rightarrow> int \<Rightarrow> (64 word \<times> string) list \<Rightarrow> (int \<times> string) + int" where
  "find_table H wanted fallback [] = Inr fallback"
| "find_table H wanted fallback ((i, name) # tables) =
     (let reported = normalizeTableName H name
      in if reported = wanted then Inl (sint i, name)
         else find_table H wanted
                (if fallback < 0 \<and> (HasSuffix wanted (''.'' @ reported) \<or> HasSuffix reported (''.'' @ wanted))
                 then sint i else fallback) tables)"

definition findTableInList :: "host \<Rightarrow> msgpack \<Rightarrow> ((64 word \<times> string) list \<Rightarrow> (64 word \<times> string) list) \<Rightarrow>
    client \<Rightarrow> string \<Rightarrow> reply \<Rightarrow> client \<times> (int \<times> string) res" where
  "findTableInList H M iter c qualifiedName rep =
     (let wanted = normalizeTableName H qualifiedName;
          (c, r) = GetTables M c rep
      in (c, rbind r (\<lambda>tables.
           case find_table H wanted (-1) (iter tables) of
             Inl found \<Rightarrow> Ok found
           | Inr fallback \<Rightarrow>
               if 0 \<le> fallback
               then Ok (fallback, case map_of tables (word_of_int fallback) of Some name \<Rightarrow> name | None \<Rightarrow> [])
               else let names = sort (map snd (iter tables))
                    in Err (Errorf (''table '' @ qualifiedName @ '' not found, known tables: ['' @
                              join_with '' '' names @ '']'')))))"

record table =
  t_Id :: int
  t_Name :: string
  t_Schema :: "table_schema option"

text \<open>Up to three requests, so up to three replies.\<close>

definition GetTableByName :: "host \<Rightarrow> msgpack \<Rightarrow> ((64 word \<times> string) list \<Rightarrow> (64 word \<times> string) list) \<Rightarrow>
    client \<Rightarrow> string \<Rightarrow> reply \<Rightarrow> reply \<Rightarrow> reply \<Rightarrow> client \<times> table res" where
  "GetTableByName H M iter c qualifiedName rep1 rep2 rep3 =
     (let (c, r) = tableIdByName M c qualifiedName rep1;
          (c, r) = (case r of
                      Ok (i, name) \<Rightarrow> if i < 0 then findTableInList H M iter c qualifiedName rep2 else (c, r)
                    | _ \<Rightarrow> (c, r))
      in (case r of
            Ok (i, name) \<Rightarrow>
              let (c, s) = GetTableSchema M c (word_of_int i) rep3
              in (c, rmap (\<lambda>schema. \<lparr>t_Id = i, t_Name = name, t_Schema = schema\<rparr>) s)
          | Err e \<Rightarrow> (c, Err e)
          | Panic p \<Rightarrow> (c, Panic p)))"

subsection \<open>The sorting interface\<close>

text \<open>\<^verbatim>\<open>sort.Slice\<close> on columns.\<close>

locale key_sorter = slice_sorter sorter
  for sorter :: "table_column slice_sort"
begin

lemma KeyColumns_set: "set (KeyColumns sorter s) = {c \<in> set (ts_Columns s). tc_Key c}"
  by (auto simp: KeyColumns_def sorter_set)

lemma KeyColumns_sorted:
  assumes "distinct (map tc_KeyIndex (filter tc_Key (ts_Columns s)))"
  shows "KeyColumns sorter s = sort_key tc_KeyIndex (filter tc_Key (ts_Columns s))"
    and "sorted_wrt (\<lambda>a b. tc_KeyIndex a < tc_KeyIndex b) (KeyColumns sorter s)"
proof -
  show e: "KeyColumns sorter s = sort_key tc_KeyIndex (filter tc_Key (ts_Columns s))"
    unfolding KeyColumns_def by (rule sorter_determined [OF assms])
  have "mset (map tc_KeyIndex (KeyColumns sorter s)) = mset (map tc_KeyIndex (filter tc_Key (ts_Columns s)))"
    by (simp add: e)
  then have "distinct (map tc_KeyIndex (KeyColumns sorter s))" using assms by (metis mset_eq_imp_distinct_iff)
  moreover have "sorted (map tc_KeyIndex (KeyColumns sorter s))" by (simp add: e)
  ultimately have "sorted_wrt (<) (map tc_KeyIndex (KeyColumns sorter s))" by (simp add: strict_sorted_iff)
  then show "sorted_wrt (\<lambda>a b. tc_KeyIndex a < tc_KeyIndex b) (KeyColumns sorter s)" by (simp add: sorted_wrt_map)
qed

end

interpretation insertion_columns: key_sorter insertion_sort
  by unfold_locales

subsection \<open>A server's schemas\<close>

text \<open>\<open>extras\<close> are the encoded properties of newer servers, each of which the decoder can skip.\<close>

definition enc_int :: "msgpack \<Rightarrow> int \<Rightarrow> byte list" where
  "enc_int M i = WritePackedInt64 M (word_of_int i)"

definition enc_bool :: "bool \<Rightarrow> byte list" where
  "enc_bool v = [if v then 0xc3 else 0xc2]"

definition enc_column :: "msgpack \<Rightarrow> table_column \<Rightarrow> int \<Rightarrow> byte list list \<Rightarrow> byte list" where
  "enc_column M c colocation extras =
     enc_int M (7 + int (length extras)) @ WritePackedString M (tc_Name c) @ enc_int M (tc_TypeId c) @
     enc_int M (tc_KeyIndex c) @ enc_bool (tc_Nullable c) @ enc_int M colocation @ enc_int M (tc_Scale c) @
     enc_int M (tc_Precision c) @ concat extras"

definition enc_schema :: "msgpack \<Rightarrow> int \<Rightarrow> (table_column \<Rightarrow> byte list list) \<Rightarrow> table_schema \<Rightarrow> byte list" where
  "enc_schema M colocation extras s =
     enc_int M (Version s) @ enc_int M (int (length (ts_Columns s))) @
     concat (map (\<lambda>c. enc_column M c colocation (extras c)) (ts_Columns s))"

definition wf_table_column :: "table_column \<Rightarrow> bool" where
  "wf_table_column c \<longleftrightarrow>
     length (tc_Name c) < 2 ^ 32 \<and> int_in 32 (tc_TypeId c) \<and> int_in 32 (tc_KeyIndex c) \<and>
     int_in 32 (tc_Scale c) \<and> int_in 32 (tc_Precision c) \<and>
     tc_Kind c = columnKindForTypeId (tc_TypeId c) \<and> tc_Key c = (0 \<le> tc_KeyIndex c)"

definition wf_schema :: "table_schema \<Rightarrow> bool" where
  "wf_schema s \<longleftrightarrow> int_in 32 (Version s) \<and> length (ts_Columns s) < 2 ^ 31 \<and> list_all wf_table_column (ts_Columns s)"

definition skippable :: "msgpack \<Rightarrow> byte list list \<Rightarrow> bool" where
  "skippable M extras \<longleftrightarrow> length extras < 2 ^ 30 \<and> (\<forall>e \<in> set extras. \<forall>r. dec_skip M (e @ r) = Ok r)"

lemma skip_properties_Ok:
  "\<forall>e \<in> set extras. \<forall>r. dec_skip M (e @ r) = Ok r \<Longrightarrow> skip_properties M (length extras) (concat extras @ r) = Ok r"
  by (induction extras) (simp_all add: skipPackedValue_def)

context msgpack_codec
begin

lemma readf_enc_int [simp]:
  "int_in 32 i \<Longrightarrow> readf ctxt (ReadPackedInt32 M) (enc_int M i @ r) k = k (ucast (word_of_int i :: 64 word)) r"
  using int_in_mono [of 32 64 i] by (simp add: enc_int_def sint_of_int64)

lemma readf_enc_bool [simp]: "readf ctxt (ReadPackedBool M) (enc_bool v @ r) k = k v r"
  using readf_bool [of ctxt v r k] by (simp add: enc_bool_def)

lemma read_table_column_enc:
  assumes "wf_table_column c" "int_in 32 col" "skippable M extras"
  shows "read_table_column M (enc_column M c col extras @ r) = Ok (c, r)"
proof -
  have n: "int_in 32 (7 + int (length extras))" using assms(3) by (simp add: skippable_def int_in_def)
  have "skip_properties M (length extras) (concat extras @ r) = Ok r"
    using assms(3) by (intro skip_properties_Ok) (simp add: skippable_def)
  moreover have "sint (ucast (7 + word_of_nat (length extras) :: 64 word) :: 32 word) = 7 + int (length extras)"
    using sint_ucast_of_int [of "7 + int (length extras)", where 'a = 32] n by simp
  ultimately show ?thesis using assms(1,2) n
    by (simp add: read_table_column_def enc_column_def wf_table_column_def sint_ucast_of_int)
qed

lemma read_table_columns_enc:
  assumes "list_all wf_table_column cs" "int_in 32 col" "\<forall>c \<in> set cs. skippable M (extras c)"
  shows "read_table_columns M (length cs) (concat (map (\<lambda>c. enc_column M c col (extras c)) cs) @ r) = Ok (cs, r)"
  using assms by (induction cs) (simp_all add: read_table_column_enc)

lemma read_table_schema_enc:
  assumes "wf_schema s" "int_in 32 col" "\<forall>c \<in> set (ts_Columns s). skippable M (extras c)"
  shows "read_table_schema M (enc_schema M col extras s @ r) = Ok (s, r)"
proof -
  have "int_in 32 (int (length (ts_Columns s)))" using assms(1) by (simp add: wf_schema_def int_in_def)
  moreover note read_table_columns_enc [of "ts_Columns s", OF _ assms(2,3), of r]
  moreover from calculation(1) have "sint (ucast (word_of_nat (length (ts_Columns s)) :: 64 word) :: 32 word) = int (length (ts_Columns s))"
    using sint_ucast_of_int [of "int (length (ts_Columns s))", where 'a = 32] by simp
  ultimately show ?thesis using assms(1)
    by (simp add: read_table_schema_def enc_schema_def wf_schema_def sint_ucast_of_int)
qed

lemma read_schemas_enc:
  assumes "\<forall>s \<in> set ss. wf_schema s \<and> (\<forall>c \<in> set (ts_Columns s). skippable M (extras c))" "int_in 32 col"
  shows "read_schemas M (length ss) latest (concat (map (enc_schema M col extras) ss)) =
    Ok (if ss = [] then latest else Some (last ss))"
  using assms by (induction ss arbitrary: latest) (simp_all add: read_table_schema_enc)

end

text \<open>A server's list of tables: the number of entries and the entries; a later entry replaces an earlier one.\<close>

definition enc_tables :: "msgpack \<Rightarrow> (64 word \<times> string) list \<Rightarrow> byte list" where
  "enc_tables M ts =
     enc_int M (int (length ts)) @ concat (map (\<lambda>(i, n). WritePackedInt64 M i @ WritePackedString M n) ts)"

definition partial_match :: "host \<Rightarrow> string \<Rightarrow> string \<Rightarrow> bool" where
  "partial_match H wanted name \<longleftrightarrow>
     HasSuffix wanted (''.'' @ normalizeTableName H name) \<or> HasSuffix (normalizeTableName H name) (''.'' @ wanted)"

context msgpack_codec
begin

lemma readf_int64_string [simp]:
  "length n < 2 ^ 32 \<Longrightarrow>
   readf ctxt (ReadPackedInt64String M) (WritePackedInt64 M i @ WritePackedString M n @ r) k = k (i, n) r"
  by (rule readf_Ok) (simp add: ReadPackedInt64String_def write_defs int64_law string_law)

lemma read_pairs_enc:
  assumes "\<forall>(i, n) \<in> set ts. length n < 2 ^ 32"
  shows "read_pairs M k (length ts) data (concat (map (\<lambda>(i, n). WritePackedInt64 M i @ WritePackedString M n) ts)) =
    Ok (foldl (\<lambda>d (i, n). AList.update i n d) data ts)"
  using assms
proof (induction ts arbitrary: k data)
  case (Cons t ts)
  obtain i n where t: "t = (i, n)" by force
  then show ?case using Cons t by simp
qed simp

lemma GetTables_enc:
  assumes "conn c" "short_time ts" "length tables < 2 ^ 31" "\<forall>(i, n) \<in> set tables. length n < 2 ^ 32"
    "length (reply_payload M (RequestId c) 0 ts ts (enc_tables M tables)) < 2 ^ 31"
  shows "GetTables M c (Arrives (frame (reply_payload M (RequestId c) 0 ts ts (enc_tables M tables)))) =
    (c\<lparr>RequestId := RequestId c + 1, sent := sent c @ [RequestOperation_WriteTo M OpTablesGet (RequestId c) []]\<rparr>,
     Ok (foldl (\<lambda>d (i, n). AList.update i n d) [] tables))"
proof -
  have "int_in 32 (int (length tables))" using assms(3) by (simp add: int_in_def)
  moreover from this have "sint (ucast (word_of_nat (length tables) :: 64 word) :: 32 word) = int (length tables)"
    using sint_ucast_of_int [of "int (length tables)", where 'a = 32] by simp
  moreover note operate_success [OF assms(1,2,2) _ assms(5), of OpTablesGet "[]"]
  ultimately show ?thesis using read_pairs_enc [OF assms(4)]
    by (simp add: GetTables_def enc_tables_def)
qed

lemma GetTableSchema_enc:
  assumes "conn c" "short_time ts" "length ss < 2 ^ 31" "int_in 32 col"
    "\<forall>s \<in> set ss. wf_schema s \<and> (\<forall>c \<in> set (ts_Columns s). skippable M (extras c))"
    "body = enc_int M (int (length ss)) @ concat (map (enc_schema M col extras) ss)"
    "length (reply_payload M (RequestId c) 0 ts ts body) < 2 ^ 31"
  shows "GetTableSchema M c tid (Arrives (frame (reply_payload M (RequestId c) 0 ts ts body))) =
    (c\<lparr>RequestId := RequestId c + 1,
       sent := sent c @ [RequestOperation_WriteTo M OpSchemaGet (RequestId c) (WritePackedInt64 M tid @ WritePackedNull M)]\<rparr>,
     if ss = [] then Err (Errorf (''schema not found for table id '' @ int_text (sint tid))) else Ok (Some (last ss)))"
proof -
  have "int_in 32 (int (length ss))" using assms(3) by (simp add: int_in_def)
  moreover from this have "sint (ucast (word_of_nat (length ss) :: 64 word) :: 32 word) = int (length ss)"
    using sint_ucast_of_int [of "int (length ss)", where 'a = 32] by simp
  moreover note operate_success [OF assms(1,2,2) _ assms(7), of OpSchemaGet]
  ultimately show ?thesis using read_schemas_enc [OF assms(5,4), of None]
    by (simp add: GetTableSchema_def assms(6))
qed

end

lemma map_of_updates: "map_of (foldl (\<lambda>d (i, n). AList.update i n d) d ts) = map_of d ++ map_of (rev ts)"
  by (induction ts arbitrary: d) (auto simp: update_conv' map_add_def split: option.splits)

lemma distinct_updates: "distinct (map fst d) \<Longrightarrow> distinct (map fst (foldl (\<lambda>d (i, n). AList.update i n d) d ts))"
  by (induction ts arbitrary: d) (auto simp: distinct_update)

text \<open>The outcome of the loop, whatever partial match it starts with.\<close>

lemma find_table_outcome:
  assumes "\<forall>(k, n) \<in> set ts. 0 \<le> sint k"
  shows "(case find_table H w f ts of
      Inl (i, n) \<Rightarrow> \<exists>k. (k, n) \<in> set ts \<and> i = sint k \<and> normalizeTableName H n = w
    | Inr g \<Rightarrow> (\<forall>(k, n) \<in> set ts. normalizeTableName H n \<noteq> w) \<and>
        (if 0 \<le> f then g = f
         else if \<exists>(k, n) \<in> set ts. partial_match H w n then \<exists>(k, n) \<in> set ts. g = sint k \<and> partial_match H w n
         else g = f))"
  using assms
proof (induction ts arbitrary: f)
  case (Cons t ts)
  obtain k n where t: "t = (k, n)" by force
  define f' where "f' = (if f < 0 \<and> partial_match H w n then sint k else f)"
  show ?case
  proof (cases "normalizeTableName H n = w")
    case False
    have e: "find_table H w f ((k, n) # ts) = find_table H w f' ts"
      using False by (simp add: f'_def partial_match_def Let_def)
    have IH: "case find_table H w f' ts of
        Inl (i, n) \<Rightarrow> \<exists>k. (k, n) \<in> set ts \<and> i = sint k \<and> normalizeTableName H n = w
      | Inr g \<Rightarrow> (\<forall>(k, n) \<in> set ts. normalizeTableName H n \<noteq> w) \<and>
          (if 0 \<le> f' then g = f'
           else if \<exists>(k, n) \<in> set ts. partial_match H w n then \<exists>(k, n) \<in> set ts. g = sint k \<and> partial_match H w n
           else g = f')"
      using Cons by simp
    have k: "0 \<le> sint k" using Cons.prems t by simp
    show ?thesis
    proof (cases "find_table H w f' ts")
      case (Inl x)
      then show ?thesis using IH unfolding t e by (cases x) auto
    next
      case (Inr g)
      then have g: "\<forall>(k, n) \<in> set ts. normalizeTableName H n \<noteq> w" "0 \<le> f' \<Longrightarrow> g = f'"
        "\<not> 0 \<le> f' \<Longrightarrow> \<exists>(k, n) \<in> set ts. partial_match H w n \<Longrightarrow> \<exists>(k, n) \<in> set ts. g = sint k \<and> partial_match H w n"
        "\<not> 0 \<le> f' \<Longrightarrow> \<not> (\<exists>(k, n) \<in> set ts. partial_match H w n) \<Longrightarrow> g = f'"
        using IH by (simp_all split: if_splits)
      show ?thesis
      proof (cases "f < 0 \<and> partial_match H w n")
        case True
        then have "g = sint k" using g(2) k by (simp add: f'_def)
        then show ?thesis using True Inr g(1) False unfolding t e by auto
      next
        case f: False
        then have "f' = f" by (auto simp: f'_def)
        then show ?thesis using f Inr g False unfolding t e by auto
      qed
    qed
  qed (auto simp: t)
qed simp

subsection \<open>Properties\<close>

text \<open>C15: the schema a client obtains is the last of the schemas the server sent, with every column as it was
  described, whatever further properties newer servers add to a column; an empty answer is an error. The request
  on the wire asks for the table's latest schema with the client's current id.\<close>

theorem schema_roundtrip:
  assumes "msgpack_codec M" and "conn c" and "short_time ts" and "length ss < 2 ^ 31" and "int_in 32 col"
    and "\<forall>s \<in> set ss. wf_schema s \<and> (\<forall>c \<in> set (ts_Columns s). skippable M (extras c))"
    and "body = enc_int M (int (length ss)) @ concat (map (enc_schema M col extras) ss)"
    and "length (reply_payload M (RequestId c) 0 ts ts body) < 2 ^ 31"
  shows "GetTableSchema M c tid (Arrives (frame (reply_payload M (RequestId c) 0 ts ts body))) =
    (c\<lparr>RequestId := RequestId c + 1,
       sent := sent c @ [RequestOperation_WriteTo M 5 (RequestId c) (WritePackedInt64 M tid @ WritePackedNull M)]\<rparr>,
     if ss = [] then Err (Errorf (''schema not found for table id '' @ int_text (sint tid))) else Ok (Some (last ss)))"
  using msgpack_codec.GetTableSchema_enc [OF assms] .

definition sample_column :: table_column where
  "sample_column = \<lparr>tc_Name = ''ID'', tc_TypeId = 4, tc_Kind = BtInt32, tc_KeyIndex = 0, tc_Key = True,
     tc_Nullable = False, tc_Scale = 0, tc_Precision = 0\<rparr>"

definition sample_client :: client where
  "sample_client = \<lparr>conn = True, RequestId = 5, sent = []\<rparr>"

definition epoch :: gotime where
  "epoch = \<lparr>t_unix = 0, t_nsec = 0, t_off = 0\<rparr>"

lemma short_epoch: "short_time epoch" and epoch_millis: "time_UnixMilli epoch = 0"
  by (simp_all add: epoch_def short_time_def time_UnixMilli_def)

lemmas sample_simps = reply_payload_def write_defs WritePackedTimestamp_def epoch_millis FlagPartitionAssignmentChanged_def
  ref_codec_def mp_enc_int_def mp_enc_string_def mp_enc_bytes_def Let_def

theorem schema_roundtrip_witness:
  "GetTableSchema ref_codec sample_client 9
      (Arrives (frame (reply_payload ref_codec (RequestId sample_client) 0 epoch epoch
        (enc_int ref_codec (int (length [\<lparr>Version = 3, ts_Columns = [sample_column]\<rparr>])) @
         concat (map (enc_schema ref_codec (-1) (\<lambda>_. [WritePackedInt64 ref_codec 6]))
           [\<lparr>Version = 3, ts_Columns = [sample_column]\<rparr>]))))) =
    (sample_client\<lparr>RequestId := RequestId sample_client + 1,
       sent := sent sample_client @ [RequestOperation_WriteTo ref_codec 5 (RequestId sample_client)
         (WritePackedInt64 ref_codec 9 @ WritePackedNull ref_codec)]\<rparr>,
     if [\<lparr>Version = 3, ts_Columns = [sample_column]\<rparr>] = []
     then Err (Errorf (''schema not found for table id '' @ int_text (sint (9 :: 64 word))))
     else Ok (Some (last [\<lparr>Version = 3, ts_Columns = [sample_column]\<rparr>])))"
proof (rule schema_roundtrip [OF ref.msgpack_codec_axioms _ short_epoch _ _ _ refl])
  show "length (reply_payload ref_codec (RequestId sample_client) 0 epoch epoch
        (enc_int ref_codec (int (length [\<lparr>Version = 3, ts_Columns = [sample_column]\<rparr>])) @
         concat (map (enc_schema ref_codec (-1) (\<lambda>_. [WritePackedInt64 ref_codec 6]))
           [\<lparr>Version = 3, ts_Columns = [sample_column]\<rparr>]))) < 2 ^ 31"
    by (simp add: sample_simps enc_int_def enc_schema_def enc_column_def enc_bool_def sample_client_def sample_column_def)
qed (simp_all add: sample_client_def sample_column_def wf_schema_def wf_table_column_def int_in_def skippable_def
       columnKindForTypeId_def ref.skip_int write_defs)

text \<open>C26: when the key indices of the columns that are marked as key differ, as in every valid schema, the key columns are
  exactly these columns in strictly increasing order of their indices, whatever algorithm \<^verbatim>\<open>sort.Slice\<close> uses.\<close>

theorem key_columns_determined:
  assumes "key_sorter sorter" and "distinct (map tc_KeyIndex (filter tc_Key (ts_Columns s)))"
  shows "set (KeyColumns sorter s) = {c \<in> set (ts_Columns s). tc_Key c} \<and>
    sorted_wrt (\<lambda>a b. tc_KeyIndex a < tc_KeyIndex b) (KeyColumns sorter s) \<and>
    KeyColumns sorter s = sort_key tc_KeyIndex (filter tc_Key (ts_Columns s))"
  using key_sorter.KeyColumns_set [OF assms(1)] key_sorter.KeyColumns_sorted [OF assms] by blast

text \<open>Two key columns listed against their order, with a value column between them.\<close>

definition sample_key_schema :: table_schema where
  "sample_key_schema =
     \<lparr>Version = 1, ts_Columns = [sample_column\<lparr>tc_Name := ''B'', tc_Key := True, tc_KeyIndex := 1\<rparr>,
        sample_column\<lparr>tc_Name := ''V'', tc_Key := False, tc_KeyIndex := -1\<rparr>,
        sample_column\<lparr>tc_Name := ''A'', tc_Key := True, tc_KeyIndex := 0\<rparr>]\<rparr>"

theorem key_columns_determined_witness:
  "set (KeyColumns insertion_sort sample_key_schema) = {c \<in> set (ts_Columns sample_key_schema). tc_Key c} \<and>
    sorted_wrt (\<lambda>a b. tc_KeyIndex a < tc_KeyIndex b) (KeyColumns insertion_sort sample_key_schema) \<and>
    KeyColumns insertion_sort sample_key_schema = sort_key tc_KeyIndex (filter tc_Key (ts_Columns sample_key_schema))"
  by (rule key_columns_determined [OF insertion_columns.key_sorter_axioms]) (simp add: sample_key_schema_def)

text \<open>C16: looking a table up in the server's list gives an entry of the list whose normalised name is the wanted
  one, or, when there is none, an entry that matches up to a schema prefix; it is an error exactly when neither
  exists. The order in which the map is visited does not matter for this.\<close>

theorem table_list_lookup:
  assumes "msgpack_codec M" and "conn c" and "short_time ts" and "length tables < 2 ^ 31"
    and "\<forall>(k, n) \<in> set tables. length n < 2 ^ 32 \<and> 0 \<le> sint k"
    and "length (reply_payload M (RequestId c) 0 ts ts (enc_tables M tables)) < 2 ^ 31"
    and "\<forall>m. set (iter m) = set m"
  shows "(let w = normalizeTableName H q; entry = map_of (rev tables)
    in case snd (findTableInList H M iter c q (Arrives (frame (reply_payload M (RequestId c) 0 ts ts (enc_tables M tables))))) of
      Ok (i, n) \<Rightarrow> \<exists>k. entry k = Some n \<and> i = sint k \<and>
        (normalizeTableName H n = w \<or>
         partial_match H w n \<and> (\<forall>k' n'. entry k' = Some n' \<longrightarrow> normalizeTableName H n' \<noteq> w))
    | Err e \<Rightarrow> \<forall>k n. entry k = Some n \<longrightarrow> normalizeTableName H n \<noteq> w \<and> \<not> partial_match H w n
    | Panic p \<Rightarrow> False)"
proof -
  define m where "m = foldl (\<lambda>d (i, n). AList.update i n d) [] tables"
  define w where "w = normalizeTableName H q"
  have m: "map_of m = map_of (rev tables)" "distinct (map fst m)"
    unfolding m_def using map_of_updates [of "[]" tables] distinct_updates [of "[]" tables] by simp_all
  have e: "(k, n) \<in> set (iter m) \<longleftrightarrow> map_of (rev tables) k = Some n" for k n
    using assms(7) m(2) m(1) by (metis map_of_eq_Some_iff)
  have pos: "0 \<le> sint k" if "(k, n) \<in> set (iter m)" for k n
    using that assms(5) unfolding e by (auto dest!: map_of_SomeD)
  have r: "snd (GetTables M c (Arrives (frame (reply_payload M (RequestId c) 0 ts ts (enc_tables M tables))))) = Ok m"
    using msgpack_codec.GetTables_enc [OF assms(1-4) _ assms(6)] assms(5) by (force simp: m_def)
  have o: "case find_table H w (-1) (iter m) of
      Inl (i, n) \<Rightarrow> \<exists>k. (k, n) \<in> set (iter m) \<and> i = sint k \<and> normalizeTableName H n = w
    | Inr g \<Rightarrow> (\<forall>(k, n) \<in> set (iter m). normalizeTableName H n \<noteq> w) \<and>
        (if 0 \<le> (-1 :: int) then g = -1
         else if \<exists>(k, n) \<in> set (iter m). partial_match H w n
         then \<exists>(k, n) \<in> set (iter m). g = sint k \<and> partial_match H w n else g = -1)"
    using pos by (intro find_table_outcome) auto
  show ?thesis
  proof (cases "find_table H w (-1) (iter m)")
    case (Inl x)
    then show ?thesis using o r e
      by (cases x) (auto simp: findTableInList_def Let_def simp flip: w_def split: prod.splits)
  next
    case (Inr g)
    then have n: "\<forall>k n. map_of (rev tables) k = Some n \<longrightarrow> normalizeTableName H n \<noteq> w" using o e by fastforce
    show ?thesis
    proof (cases "\<exists>k n. map_of (rev tables) k = Some n \<and> partial_match H w n")
      case True
      then have ex: "\<exists>(k, n) \<in> set (iter m). partial_match H w n" using e by auto
      obtain k n' where "map_of (rev tables) k = Some n'" "g = sint k" "partial_match H w n'"
        using ex e o [unfolded Inr sum.case] by auto
      moreover from this have "0 \<le> sint k" using pos e by blast
      ultimately show ?thesis using n Inr r m(1)
        by (auto simp: findTableInList_def Let_def simp flip: w_def split: prod.splits)
    next
      case False
      then have "\<not> (\<exists>(k, n) \<in> set (iter m). partial_match H w n)" using e by auto
      then have "g = -1" using o [unfolded Inr sum.case] by auto
      then show ?thesis using n False Inr r
        by (auto simp: findTableInList_def Let_def simp flip: w_def split: prod.splits)
    qed
  qed
qed

theorem table_list_lookup_witness:
  "(let w = normalizeTableName exact_host ''T''; entry = map_of (rev [(7, ''P.T'')])
    in case snd (findTableInList exact_host ref_codec rev sample_client ''T''
        (Arrives (frame (reply_payload ref_codec (RequestId sample_client) 0 epoch epoch (enc_tables ref_codec [(7, ''P.T'')]))))) of
      Ok (i, n) \<Rightarrow> \<exists>k. entry k = Some n \<and> i = sint (k :: 64 word) \<and>
        (normalizeTableName exact_host n = w \<or>
         partial_match exact_host w n \<and> (\<forall>k' n'. entry k' = Some n' \<longrightarrow> normalizeTableName exact_host n' \<noteq> w))
    | Err e \<Rightarrow> \<forall>k n. entry k = Some n \<longrightarrow> normalizeTableName exact_host n \<noteq> w \<and> \<not> partial_match exact_host w n
    | Panic p \<Rightarrow> False)"
proof (rule table_list_lookup [OF ref.msgpack_codec_axioms _ short_epoch])
  show "length (reply_payload ref_codec (RequestId sample_client) 0 epoch epoch (enc_tables ref_codec [(7, ''P.T'')])) < 2 ^ 31"
    by (simp add: sample_simps enc_int_def enc_tables_def sample_client_def)
qed (simp_all add: sample_client_def)

end
