(* ===== verification/ColumnValues.thy ===== *)
theory ColumnValues
  imports TupleReader
begin

text \<open>
  What a value written into a column of each type is when it is read back: the writer of
  binary-tuple.go composed with the reader of tuple.go, one property per type. Two of the types do
  not survive: an empty string or byte array comes back as NULL, and a timestamp with no nanoseconds
  makes the reader panic.
\<close>

subsection \<open>Text and bytes\<close>

lemma strip_marker_bytes:
  "strip_marker ((if length b = 0 \<or> b ! 0 = 0x80 then [0x80] else []) @ b) = b"
  by (cases b) (auto simp: strip_marker_def)

text \<open>A byte array written into a BYTE_ARRAY column is read back unchanged, also when it starts
  with the marker byte 0x80; but an empty one is read back as NULL, although the writer keeps the
  two apart.\<close>

theorem bytes_column_roundtrip:
  assumes "BuildBinaryTuple H cols vals = Ok out" and "describes meta cols i 16"
    and "Kind (cols ! i) = BtBytes" and "vals ! i = VBytes b"
  shows "read_column H cols vals meta i 16 = Ok (if b = [] then VNil else VBytes b)"
proof -
  obtain e v where ev: "bt_element H (cols ! i) (vals ! i) = Ok e" "Value v = stored 16 e"
    "read_column H cols vals meta i 16 = (if stored 16 e = [] then Ok VNil else element_value (local_offset H) v 16)"
    using read_column_eq [OF assms(1,2)] by metis
  have "e = (if length b = 0 \<or> b ! 0 = 0x80 then [0x80] else []) @ b"
    using ev(1) assms(3,4) by (auto simp: appendBinaryTupleValue_def Let_def split: if_splits)
  then have "stored 16 e = b" using strip_marker_bytes [of b] by (simp add: stored_def)
  then show ?thesis using ev(2,3) by (simp add: element_value_def)
qed

theorem bytes_column_roundtrip_witness:
  "read_column exact_host [\<lparr>Kind = BtBytes, ColScale = 0\<rparr>] [VBytes [0x80, 7]] (sample_meta [16]) 0 16 =
     Ok (if [0x80, 7 :: byte] = [] then VNil else VBytes [0x80, 7])"
  by (rule bytes_column_roundtrip [where out = "[0, 3, 0x80, 0x80, 7]"])
    (simp_all add: build_simps describes_def sample_meta_def ColTypes_def)

text \<open>A string written into a STRING column is read back unchanged unless its first byte is 0x80
  (the marker is then taken off again, although the writer did not put one) or it is empty (it is
  read back as NULL).\<close>

theorem string_column_roundtrip:
  assumes "BuildBinaryTuple H cols vals = Ok out" and "describes meta cols i 15"
    and "Kind (cols ! i) = BtString" and "vals ! i = VString s"
  shows "read_column H cols vals meta i 15 =
    Ok (if s = [] then VNil else if str_bytes s ! 0 \<noteq> 0x80 then VString s
        else if length s = 1 then VNil else VString (tl s))"
proof -
  obtain e v where ev: "bt_element H (cols ! i) (vals ! i) = Ok e" "Value v = stored 15 e"
    "read_column H cols vals meta i 15 = (if stored 15 e = [] then Ok VNil else element_value (local_offset H) v 15)"
    using read_column_eq [OF assms(1,2)] by metis
  have "e = (if s = [] then [0x80] else str_bytes s)"
    using ev(1) assms(3,4) by (auto simp: appendBinaryTupleValue_def Let_def split: if_splits)
  then have "stored 15 e = (if s = [] then [] else if str_bytes s ! 0 = 0x80 then tl (str_bytes s) else str_bytes s)"
    by (cases s) (auto simp: stored_def strip_marker_def str_bytes_def)
  moreover have "tl (str_bytes s) = str_bytes (tl s)" by (cases s) (simp_all add: str_bytes_def)
  then have "bytes_str (tl (str_bytes s)) = tl s" by simp
  moreover have "tl (str_bytes s) = [] \<longleftrightarrow> length s \<le> 1" by (cases s) (simp_all add: str_bytes_def)
  moreover have "length s \<le> 1 \<longleftrightarrow> s = [] \<or> length s = 1" by (cases s) auto
  ultimately show ?thesis using ev(2,3) by (auto simp: element_value_def)
qed

theorem string_column_roundtrip_witness:
  "read_column exact_host [\<lparr>Kind = BtString, ColScale = 0\<rparr>] [VString ''ab''] (sample_meta [15]) 0 15 =
     Ok (if ''ab'' = [] then VNil else if str_bytes ''ab'' ! 0 \<noteq> 0x80 then VString ''ab''
         else if length ''ab'' = 1 then VNil else VString (tl ''ab''))"
  by (rule string_column_roundtrip [where out = "[0, 2, 97, 98]"])
    (simp_all add: build_simps describes_def sample_meta_def ColTypes_def str_bytes_def)

subsection \<open>Numbers\<close>

text \<open>A decimal whose scale fits into 16 bits is read back from a DECIMAL column with the same unscaled
  value and the same scale, for every integer.\<close>

theorem decimal_column_roundtrip:
  assumes "BuildBinaryTuple H cols vals = Ok out" and "describes meta cols i 8"
    and "Kind (cols ! i) = BtDecimal" and "toDecimal H (vals ! i) (ColScale (cols ! i)) = Ok \<lparr>Unscaled = Some n, Scale = sc\<rparr>"
    and "- 32768 \<le> sc" and "sc \<le> 32767"
  shows "read_column H cols vals meta i 8 = Ok (VDecimal \<lparr>Unscaled = Some n, Scale = sc\<rparr>)"
proof -
  obtain e v where ev: "bt_element H (cols ! i) (vals ! i) = Ok e" "Value v = stored 8 e"
    "read_column H cols vals meta i 8 = (if stored 8 e = [] then Ok VNil else element_value (local_offset H) v 8)"
    using read_column_eq [OF assms(1,2)] by metis
  have "vals ! i \<noteq> VNil" using assms(4) by (auto simp: not_nil_of_conversion)
  then have e: "e = word_le (word_of_int sc :: 16 word) @ twosComplementBytes (Some n)"
    using ev(1) assms(3,4) by (auto simp: appendBinaryTupleValue_def)
  then have v: "Value v = word_le (word_of_int sc :: 16 word) @ twosComplementBytes (Some n)"
    using ev(2) by (simp add: stored_def)
  have "stored 8 e \<noteq> []" using e by (simp add: stored_Nil_iff)
  then show ?thesis
    using ev(3) element_decimal [OF v] assms(5,6) by (simp add: twosComplementBytes_value)
qed

theorem decimal_column_roundtrip_witness:
  "read_column exact_host [\<lparr>Kind = BtDecimal, ColScale = 3\<rparr>] [VInt 0] (sample_meta [8]) 0 8 =
     Ok (VDecimal \<lparr>Unscaled = Some 0, Scale = 3\<rparr>)"
  by (rule decimal_column_roundtrip [where out = "[0, 3, 3, 0, 0]"])
    (simp_all add: build_simps toDecimal_def describes_def sample_meta_def ColTypes_def twosComplementBytes_def big_Bytes_def)

lemma f32_roundtrip_element:
  "Value v = word_le (w :: 32 word) \<Longrightarrow> le_uint 4 (Value v) = Ok w"
  using le_uint_word_le [where 'a = 32 and w = w and k = 4 and r = "[]"] by simp

text \<open>Booleans survive; a REAL column keeps the value rounded to single precision; a DOUBLE column
  keeps the exact bits of a value that single precision cannot represent, and gives a single-precision
  float comparing equal to the value otherwise.\<close>

theorem bool_float_columns_roundtrip:
  assumes "BuildBinaryTuple H cols vals = Ok out" and "describes meta cols i ty"
  shows "(Kind (cols ! i) = BtBoolean \<and> ty = 1 \<longrightarrow> (\<forall>b. toBool (vals ! i) = Ok b \<longrightarrow>
            read_column H cols vals meta i ty = Ok (VBool b))) \<and>
    (Kind (cols ! i) = BtFloat \<and> ty = 6 \<longrightarrow> (\<forall>f. toFloat64 (vals ! i) = Ok f \<longrightarrow>
            read_column H cols vals meta i ty = Ok (VFloat32 (f64_to_f32 f)))) \<and>
    (Kind (cols ! i) = BtDouble \<and> ty = 7 \<longrightarrow> (\<forall>f. toFloat64 (vals ! i) = Ok f \<longrightarrow>
            read_column H cols vals meta i ty = Ok (VFloat64 f) \<or>
            (\<exists>g. read_column H cols vals meta i ty = Ok (VFloat32 g) \<and> f64_eq (f32_to_f64 g) f)))"
proof -
  obtain e v where ev: "bt_element H (cols ! i) (vals ! i) = Ok e" "Value v = stored ty e"
    "read_column H cols vals meta i ty = (if stored ty e = [] then Ok VNil else element_value (local_offset H) v ty)"
    using read_column_eq [OF assms(1,2)] by metis
  have ne: "word_le (w32 :: 32 word) \<noteq> []" "word_le (w64 :: 64 word) \<noteq> []" for w32 w64 by (simp_all add: word_le_def)
  have r64: "le_uint 8 (word_le (w :: 64 word)) = Ok w" for w
    using le_uint_word_le [where 'a = 64 and w = w and k = 8 and r = "[]"] by simp
  have r32: "le_uint 4 (word_le (w :: 32 word)) = Ok w" for w
    using le_uint_word_le [where 'a = 32 and w = w and k = 4 and r = "[]"] by simp
  have "read_column H cols vals meta i ty = Ok (VBool b)"
    if "Kind (cols ! i) = BtBoolean" "ty = 1" "toBool (vals ! i) = Ok b" for b
  proof -
    have "vals ! i \<noteq> VNil" using that(3) not_nil_of_conversion by auto
    then have "e = [if b then 1 else 0]" using ev(1) that by (auto simp: appendBinaryTupleValue_def)
    then show ?thesis using ev that(2) by (simp add: stored_def element_value_def index_at_def)
  qed
  moreover have "read_column H cols vals meta i ty = Ok (VFloat32 (f64_to_f32 f))"
    if "Kind (cols ! i) = BtFloat" "ty = 6" "toFloat64 (vals ! i) = Ok f" for f
  proof -
    have "vals ! i \<noteq> VNil" using that(3) not_nil_of_conversion by auto
    then have "e = word_le (f64_to_f32 f)" using ev(1) that by (auto simp: appendBinaryTupleValue_def putUint32_def)
    then show ?thesis using ev that(2) by (simp add: stored_def element_value_def r32 ne)
  qed
  moreover have "read_column H cols vals meta i ty = Ok (VFloat64 f) \<or>
      (\<exists>g. read_column H cols vals meta i ty = Ok (VFloat32 g) \<and> f64_eq (f32_to_f64 g) f)"
    if "Kind (cols ! i) = BtDouble" "ty = 7" "toFloat64 (vals ! i) = Ok f" for f
  proof -
    have "vals ! i \<noteq> VNil" using that(3) not_nil_of_conversion by auto
    then have "e = word_le (f64_to_f32 f) \<and> f64_eq (f32_to_f64 (f64_to_f32 f)) f \<or> e = word_le f"
      using ev(1) that by (auto simp: appendBinaryTupleValue_def putUint32_def putUint64_def split: if_splits)
    then show ?thesis
      using ev that(2) by (auto simp: stored_def element_value_def expandDoubleValue_def r32 r64 ne)
  qed
  ultimately show ?thesis by blast
qed

theorem bool_float_columns_roundtrip_witness:
  "toBool (VInt 5) = Ok True \<and>
   read_column exact_host [\<lparr>Kind = BtBoolean, ColScale = 0\<rparr>] [VInt 5] (sample_meta [1]) 0 1 = Ok (VBool True)"
proof -
  have b: "toBool (VInt 5) = Ok True" by (simp add: toBool_def)
  have "BuildBinaryTuple exact_host [\<lparr>Kind = BtBoolean, ColScale = 0\<rparr>] [VInt 5] = Ok [0, 1, 1]"
    by (simp add: build_simps b)
  moreover have "describes (sample_meta [1]) [\<lparr>Kind = BtBoolean, ColScale = 0\<rparr>] 0 1"
    by (simp add: describes_def sample_meta_def ColTypes_def)
  ultimately show ?thesis using b bool_float_columns_roundtrip [of exact_host _ _ _ "sample_meta [1]" 0 1] by simp
qed

subsection \<open>Dates, instants and UUIDs\<close>

lemma midnight_ymd:
  "time_ymd (time_Date (time_Year t) (time_Month t) (time_Day t) 0 0 0 0) = (time_Year t, time_Month t, time_Day t)"
proof -
  define u where "u = \<lparr>t_unix = time_local t div 86400 * 86400, t_nsec = 0, t_off = 0\<rparr>"
  have l: "time_local u = time_local t div 86400 * 86400" by (simp add: u_def time_local_def)
  have "(3600::int) dvd x * 86400" "(60::int) dvd x * 86400" for x by (rule dvd_mult, simp)+
  then have "time_local t div 86400 * 86400 mod 3600 = 0" "time_local t div 86400 * 86400 mod 60 = 0"
    by (simp_all only: dvd_eq_mod_eq_0)
  then have c: "time_Hour u = 0" "time_Minute u = 0" "time_Second u = 0"
    by (simp_all add: time_Hour_def time_Minute_def time_Second_def l)
  have y: "time_ymd u = time_ymd t" by (simp add: time_ymd_def l)
  have "time_Date (time_Year u) (time_Month u) (time_Day u) (time_Hour u) (time_Minute u) (time_Second u) (t_nsec u) = u"
    by (rule time_rebuild) (simp_all add: u_def wf_time_def)
  then have "time_Date (time_Year t) (time_Month t) (time_Day t) 0 0 0 0 = u"
    unfolding c by (simp add: time_Year_def time_Month_def time_Day_def y) (simp add: u_def)
  then show ?thesis using y by (simp add: time_Year_def time_Month_def time_Day_def)
qed

text \<open>The date of an instant (its calendar day in its own zone, years 0 to 16383) written into a DATE
  column is read back as midnight UTC of the same day.\<close>

theorem date_column_roundtrip:
  assumes "BuildBinaryTuple H cols vals = Ok out" and "describes meta cols i 9"
    and "Kind (cols ! i) = BtDate" and "toTime H (vals ! i) = Ok t"
    and "0 \<le> time_Year t"
  shows "read_column H cols vals meta i 9 =
    Ok (VStdTime (time_Date (time_Year t) (time_Month t) (time_Day t) 0 0 0 0))"
proof -
  obtain e v where ev: "bt_element H (cols ! i) (vals ! i) = Ok e" "Value v = stored 9 e"
    "read_column H cols vals meta i 9 = (if stored 9 e = [] then Ok VNil else element_value (local_offset H) v 9)"
    using read_column_eq [OF assms(1,2)] by metis
  define y m d where ymd: "y = time_Year t" "m = time_Month t" "d = time_Day t"
  have "vals ! i \<noteq> VNil" using assms(4) not_nil_of_conversion by auto
  then have e: "encodeDate y m d = Ok e" using ev(1) assms(3,4) by (auto simp: appendBinaryTupleValue_def ymd)
  then have "stored 9 e = e" "e \<noteq> []" by (auto simp: stored_def encodeDate_Ok_iff)
  moreover have "decodeDate e = Ok (time_Date y m d 0 0 0 0)"
    using decodeDate_encodeDate [OF e, of "[]"] assms(5) ymd(1) by simp
  moreover have "time_ymd (time_Date y m d 0 0 0 0) = (y, m, d)" unfolding ymd by (rule midnight_ymd)
  then have "time_Year (time_Date y m d 0 0 0 0) = y" "time_Month (time_Date y m d 0 0 0 0) = m"
    "time_Day (time_Date y m d 0 0 0 0) = d"
    by (simp_all add: time_Year_def time_Month_def time_Day_def)
  ultimately show ?thesis using ev(2,3) unfolding ymd [symmetric] by (simp add: element_value_def)
qed

theorem date_column_roundtrip_witness:
  "read_column exact_host [\<lparr>Kind = BtDate, ColScale = 0\<rparr>] [VDate (time_Date 1970 1 1 0 0 0 0)] (sample_meta [9]) 0 9 =
     Ok (VStdTime (time_Date (time_Year (time_Date 1970 1 1 0 0 0 0)) (time_Month (time_Date 1970 1 1 0 0 0 0))
            (time_Day (time_Date 1970 1 1 0 0 0 0)) 0 0 0 0))"
proof -
  have v: "valid_date 1970 1 1" by (simp add: valid_date_def days_in_month_def)
  then have f: "time_ymd (time_Date 1970 1 1 0 0 0 0) = (1970, 1, 1)" using time_Date_fields(1) by simp
  have "encodeDate 1970 1 1 = Ok [0x21, 0x64, 0x0f]" by (simp add: encodeDate_def)
  then have "BuildBinaryTuple exact_host [\<lparr>Kind = BtDate, ColScale = 0\<rparr>] [VDate (time_Date 1970 1 1 0 0 0 0)]
    = Ok [0, 3, 0x21, 0x64, 0x0f]"
    by (simp add: build_simps toTime_def time_Year_def time_Month_def time_Day_def f)
  then show ?thesis
    by (rule date_column_roundtrip)
      (simp_all add: describes_def sample_meta_def ColTypes_def toTime_def time_Year_def time_Month_def time_Day_def f)
qed

text \<open>C39: an instant of a 64-bit second count written into a TIMESTAMP column is read back as the same
  instant when it has nanoseconds; when it has none the writer leaves the nanosecond field out and the
  reader panics.\<close>

theorem timestamp_column_roundtrip:
  assumes "BuildBinaryTuple H cols vals = Ok out" and "describes meta cols i 12"
    and "Kind (cols ! i) = BtTimestamp" and "toTime H (vals ! i) = Ok t" and "wf_time t"
    and "- (2 ^ 63) \<le> t_unix t" and "t_unix t < 2 ^ 63"
  shows "read_column H cols vals meta i 12 =
    (if t_nsec t = 0 then Panic IndexOutOfRange
     else Ok (VStdTime \<lparr>t_unix = t_unix t, t_nsec = t_nsec t, t_off = local_offset H (t_unix t)\<rparr>))"
proof -
  obtain e v where ev: "bt_element H (cols ! i) (vals ! i) = Ok e" "Value v = stored 12 e"
    "read_column H cols vals meta i 12 = (if stored 12 e = [] then Ok VNil else element_value (local_offset H) v 12)"
    using read_column_eq [OF assms(1,2)] by metis
  define S :: "64 word" where "S = word_of_int (t_unix t)"
  define N :: "32 word" where "N = word_of_int (t_nsec t)"
  have n: "0 \<le> t_nsec t" "t_nsec t < 1000000000" using assms(5) by (simp_all add: wf_time_def)
  have "vals ! i \<noteq> VNil" using assms(4) not_nil_of_conversion by auto
  then have e: "e = word_le S @ (if t_nsec t \<noteq> 0 then word_le N else [])"
    using ev(1) assms(3,4) by (auto simp: appendBinaryTupleValue_def putUint32_def putUint64_def Let_def S_def N_def)
  have "word_le S \<noteq> []" by (simp add: word_le_def)
  then have r: "read_column H cols vals meta i 12 = rmap VStdTime (decodeTimestamp (local_offset H) e)"
    using ev(2,3) e by (simp add: stored_def element_value_def)
  have "sint S = t_unix t" using assms(6,7) by (simp add: S_def signed_of_int signed_take_bit_int_eq_self)
  moreover have "uint N = t_nsec t" using n by (simp add: N_def unsigned_of_int take_bit_int_eq_self)
  moreover have "word_le S = le_bytes 8 (unat S)" "word_le N = le_bytes 4 (unat N)" by (simp_all add: word_le_def)
  ultimately have "decodeTimestamp (local_offset H) (word_le S @ word_le N) =
      Ok (time_Unix (local_offset H) (t_unix t) (t_nsec t))"
    by (metis decodeTimestamp_bytes)
  moreover have "decodeTimestamp (local_offset H) (word_le S) = Panic IndexOutOfRange"
    by (rule decodeTimestamp_short) simp
  ultimately show ?thesis using n by (simp add: r e time_Unix_def Let_def div_pos_pos_trivial mod_pos_pos_trivial)
qed

theorem timestamp_column_roundtrip_witness:
  "read_column exact_host [\<lparr>Kind = BtTimestamp, ColScale = 0\<rparr>] [VTimestamp \<lparr>t_unix = 7, t_nsec = 0, t_off = 0\<rparr>]
     (sample_meta [12]) 0 12 =
   (if t_nsec \<lparr>t_unix = 7, t_nsec = 0, t_off = 0\<rparr> = 0 then Panic IndexOutOfRange
    else Ok (VStdTime \<lparr>t_unix = t_unix \<lparr>t_unix = 7, t_nsec = 0, t_off = 0\<rparr>,
                       t_nsec = t_nsec \<lparr>t_unix = 7, t_nsec = 0, t_off = 0\<rparr>,
                       t_off = local_offset exact_host (t_unix \<lparr>t_unix = 7, t_nsec = 0, t_off = 0\<rparr>)\<rparr>))"
  by (rule timestamp_column_roundtrip [where out = "[0, 8, 7, 0, 0, 0, 0, 0, 0, 0]"])
    (simp_all add: build_simps putUint64_def toTime_def describes_def sample_meta_def ColTypes_def wf_time_def)

lemma bt_uuid_element:
  assumes "wf_uuid u" and "Kind col = BtUuid"
  shows "bt_element H col (VUuid u) = Ok u"
proof -
  have l: "length (take 8 u) = 8" "length (drop 8 u) = 8" "length u = 16" using assms(1) by (simp_all add: wf_uuid_def)
  have w: "word_le (word_of_nat (le_nat b) :: 64 word) = b" if "length b = 8" for b
  proof -
    have "le_nat b < 256 ^ 8" using le_nat_bound [of b] that by simp
    then have "unat (word_of_nat (le_nat b) :: 64 word) = le_nat b" by (intro unat_word_of_nat_id) simp
    then show ?thesis using that by (simp add: word_le_def le_bytes_le_nat_len)
  qed
  have "take 8 (take 8 (drop 8 u)) = drop 8 u" "take 8 (take 8 u) = take 8 u" using l by simp_all
  then show ?thesis using l assms(2) by (simp add: appendBinaryTupleValue_def le_uint_def putUint64_def w)
qed

text \<open>A UUID written into a UUID column is read back with each of its halves reversed, so it is the
  same UUID only if both halves are palindromes.\<close>

theorem uuid_column_flipped:
  assumes "BuildBinaryTuple H cols vals = Ok out" and "describes meta cols i 13"
    and "Kind (cols ! i) = BtUuid" and "vals ! i = VUuid u" and "wf_uuid u"
  shows "read_column H cols vals meta i 13 = Ok (VUuid (uuid_Flip u)) \<and>
    (uuid_Flip u = u) = (rev (take 8 u) = take 8 u \<and> rev (drop 8 u) = drop 8 u)"
proof -
  obtain e v where ev: "bt_element H (cols ! i) (vals ! i) = Ok e" "Value v = stored 13 e"
    "read_column H cols vals meta i 13 = (if stored 13 e = [] then Ok VNil else element_value (local_offset H) v 13)"
    using read_column_eq [OF assms(1,2)] by metis
  have l: "length (take 8 u) = 8" "length (drop 8 u) = 8" "length u = 16" using assms(5) by (simp_all add: wf_uuid_def)
  have e: "e = u" using ev(1) bt_uuid_element [OF assms(5,3)] assms(4) by simp
  have "u \<noteq> []" using l(3) by auto
  then have "read_column H cols vals meta i 13 = Ok (VUuid (uuid_Flip u))"
    using ev(2,3) e l(3) by (simp add: stored_def element_value_def)
  moreover have "u = take 8 u @ drop 8 u" by simp
  then have "(uuid_Flip u = u) = (rev (take 8 u) = take 8 u \<and> rev (drop 8 u) = drop 8 u)"
    unfolding uuid_Flip_halves [OF assms(5)] using l by (metis append_eq_append_conv length_rev)
  ultimately show ?thesis by blast
qed

theorem uuid_column_flipped_witness:
  "read_column exact_host [\<lparr>Kind = BtUuid, ColScale = 0\<rparr>] [VUuid (replicate 16 3)] (sample_meta [13]) 0 13 =
     Ok (VUuid (uuid_Flip (replicate 16 3))) \<and>
   (uuid_Flip (replicate 16 3) = replicate 16 3) =
     (rev (take 8 (replicate 16 (3 :: byte))) = take 8 (replicate 16 3) \<and> rev (drop 8 (replicate 16 (3 :: byte))) = drop 8 (replicate 16 3))"
proof (rule uuid_column_flipped)
  show "BuildBinaryTuple exact_host [\<lparr>Kind = BtUuid, ColScale = 0\<rparr>] [VUuid (replicate 16 3)] = Ok ([0, 16] @ replicate 16 3)"
    by (simp add: BuildBinaryTuple_def bt_finish_def bt_uuid_element wf_uuid_def word_le_def le_bytes_widths Let_def)
qed (simp_all add: describes_def sample_meta_def ColTypes_def wf_uuid_def)

subsection \<open>NULL and the index guard\<close>

text \<open>A nil value is read back as NULL from a column of every type.\<close>

theorem null_column_roundtrip:
  assumes "BuildBinaryTuple H cols vals = Ok out" and "describes meta cols i ty" and "vals ! i = VNil"
  shows "read_column H cols vals meta i ty = Ok VNil"
proof -
  obtain e v where "bt_element H (cols ! i) (vals ! i) = Ok e"
    "read_column H cols vals meta i ty = (if stored ty e = [] then Ok VNil else element_value (local_offset H) v ty)"
    using read_column_eq [OF assms(1,2)] by metis
  then show ?thesis using assms(3) by (simp add: stored_Nil_iff)
qed

theorem null_column_roundtrip_witness:
  "read_column exact_host [\<lparr>Kind = BtDouble, ColScale = 0\<rparr>] [VNil] (sample_meta [7]) 0 7 = Ok VNil"
  by (rule null_column_roundtrip [where out = "[0, 0]"])
    (simp_all add: build_simps describes_def sample_meta_def ColTypes_def)

text \<open>\<^verbatim>\<open>GetValue\<close> reports every index outside the tuple as an error, except the one just past the end,
  which its guard lets through to a panic.\<close>

theorem GetValue_index_guard:
  "ty \<noteq> 0 \<Longrightarrow>
   GetValue loc t (int (length (tvalues t))) ty = Panic IndexOutOfRange \<and>
   (index < 0 \<or> int (length (tvalues t)) < index \<longrightarrow> GetValue loc t index ty = Err (Errorf ''Index is invalid''))"
  by (simp add: GetValue_def index_at_def)

theorem GetValue_index_guard_witness:
  "GetValue (\<lambda>_. 0) empty_tuple (int (length (tvalues empty_tuple))) 4 = Panic IndexOutOfRange \<and>
   ((1::int) < 0 \<or> int (length (tvalues empty_tuple)) < 1 \<longrightarrow>
      GetValue (\<lambda>_. 0) empty_tuple 1 4 = Err (Errorf ''Index is invalid''))"
  by (rule GetValue_index_guard) simp

end
