(* ===== verification/TupleWriter.thy ===== *)
theory TupleWriter
  imports TupleReader
begin

text \<open>
  The tuple of SQL arguments (tuple.go): \<^verbatim>\<open>AddValue\<close> appends one typed value, \<^verbatim>\<open>Bytes\<close> writes the
  tuple. An argument is three elements of the binary tuple format: type id, scale and value. The
  reference is \<open>arg_layout\<close>, the layout of those elements; \<^verbatim>\<open>Bytes\<close> agrees with it as long as no
  argument is NULL and no scale needs two bytes.
\<close>

subsection \<open>AddValue\<close>

definition scale_getLength :: "int \<Rightarrow> int" where
  "scale_getLength s = (if s < 255 then 1 else 2)"

definition tsv_getLength :: "tsv \<Rightarrow> int" where
  "tsv_getLength v =
     (if Type v = typeNULL then 0 else tsvTypeSize + scale_getLength (TScale v) + int (length (Value v)))"

definition addTsv :: "tuple \<Rightarrow> tsv \<Rightarrow> tuple" where
  "addTsv t v = t\<lparr>tvalues := tvalues t @ [v]\<rparr>"

definition mk_tsv :: "int \<Rightarrow> int \<Rightarrow> byte list \<Rightarrow> tsv" where
  "mk_tsv ty sc v = \<lparr>Type = ty, TScale = sc, TPrecision = 0, Value = v\<rparr>"

definition setNil :: "tuple \<Rightarrow> tuple res" where
  "setNil t = Ok (addTsv t (mk_tsv typeNULL 0 []))"

definition setBool :: "tuple \<Rightarrow> bool \<Rightarrow> tuple res" where
  "setBool t b = Ok (addTsv t (mk_tsv typeBOOLEAN 0 (if b then [1] else [0])))"

definition setByte :: "tuple \<Rightarrow> byte \<Rightarrow> tuple res" where
  "setByte t b = Ok (addTsv t (mk_tsv typeTINYINT 0 [b]))"

definition setByteArray :: "tuple \<Rightarrow> byte list \<Rightarrow> tuple res" where
  "setByteArray t b = Ok (addTsv t (mk_tsv typeVARBINARY 0 b))"

definition setString :: "tuple \<Rightarrow> string \<Rightarrow> tuple res" where
  "setString t b = Ok (addTsv t (mk_tsv typeVARCHAR 0 (str_bytes b)))"

definition setInt8 :: "tuple \<Rightarrow> 8 word \<Rightarrow> tuple res" where
  "setInt8 t v = setByte t v"

definition setInt16 :: "tuple \<Rightarrow> 16 word \<Rightarrow> tuple res" where
  "setInt16 t v = Ok (addTsv t (mk_tsv typeSMALLINT 0 (encodeIntLe (scast v))))"

definition setInt32 :: "tuple \<Rightarrow> 32 word \<Rightarrow> tuple res" where
  "setInt32 t v = Ok (addTsv t (mk_tsv typeINT 0 (encodeIntLe (scast v))))"

definition setInt64 :: "tuple \<Rightarrow> 64 word \<Rightarrow> tuple res" where
  "setInt64 t v = Ok (addTsv t (mk_tsv typeBIGINT 0 (encodeIntLe v)))"

definition setFloat32 :: "tuple \<Rightarrow> float32 \<Rightarrow> tuple res" where
  "setFloat32 t v = Ok (addTsv t (mk_tsv typeREAL 0 (word_le v)))"

definition setFloat64 :: "tuple \<Rightarrow> float64 \<Rightarrow> tuple res" where
  "setFloat64 t v = Ok (addTsv t (mk_tsv typeDOUBLE 0 (word_le v)))"

definition setDecimal :: "tuple \<Rightarrow> decimal \<Rightarrow> tuple res" where
  "setDecimal t v =
     (if 32767 < Scale v then Err (Errorf ''Decimal scale is too large'')
      else if Scale v < -32768 then Err (Errorf ''Decimal scale is too small'')
      else let val = word_le (word_of_int (Scale v) :: 16 word)
           in rbind (encodeDecimalUnscaled (Unscaled v)) (\<lambda>u.
                Ok (addTsv t (mk_tsv typeDECIMAL (Scale v) (val @ u)))))"

definition setUuid :: "tuple \<Rightarrow> uuid \<Rightarrow> tuple res" where
  "setUuid t v = Ok (addTsv t (mk_tsv typeUUID 0 (uuid_Flip v)))"

definition setDateTime :: "tuple \<Rightarrow> gotime \<Rightarrow> tuple res" where
  "setDateTime t v =
     rbind (encodeDate (time_Year v) (time_Month v) (time_Day v)) (\<lambda>dat.
     rbind (encodeTime (time_Hour v) (time_Minute v) (time_Second v) (t_nsec v)) (\<lambda>tim.
       Ok (addTsv t (mk_tsv typeDATETIME 0 (dat @ tim)))))"

definition setTimestamp :: "tuple \<Rightarrow> gotime \<Rightarrow> tuple res" where
  "setTimestamp t v =
     (let ts = word_of_int (t_unix v) :: 64 word; nsec = word_of_int (t_nsec v) :: 32 word
      in Ok (addTsv t (mk_tsv typeTIMESTAMP 0 (word_le ts @ word_le nsec))))"

definition setDate :: "tuple \<Rightarrow> gotime \<Rightarrow> tuple res" where
  "setDate t v =
     rbind (encodeDate (time_Year v) (time_Month v) (time_Day v)) (\<lambda>dat. Ok (addTsv t (mk_tsv typeDATE 0 dat)))"

definition setTime :: "tuple \<Rightarrow> gotime \<Rightarrow> tuple res" where
  "setTime t v =
     rbind (encodeTime (time_Hour v) (time_Minute v) (time_Second v) (t_nsec v))
       (\<lambda>tim. Ok (addTsv t (mk_tsv typeTIME 0 tim)))"

definition AddValue :: "tuple \<Rightarrow> goval \<Rightarrow> tuple res" where
  "AddValue t v =
     (case v of
        VInt n \<Rightarrow> setInt64 t n
      | VInt64 n \<Rightarrow> setInt64 t n
      | VInt32 n \<Rightarrow> setInt32 t n
      | VInt16 n \<Rightarrow> setInt16 t n
      | VInt8 n \<Rightarrow> setInt8 t n
      | VFloat64 f \<Rightarrow> setFloat64 t f
      | VFloat32 f \<Rightarrow> setFloat32 t f
      | VBool b \<Rightarrow> setBool t b
      | VUint8 b \<Rightarrow> setByte t b
      | VBytes b \<Rightarrow> setByteArray t b
      | VString s \<Rightarrow> setString t s
      | VDecimal d \<Rightarrow> setDecimal t d
      | VUuid u \<Rightarrow> setUuid t u
      | VDateTime x \<Rightarrow> setDateTime t x
      | VDate x \<Rightarrow> setDate t x
      | VTime x \<Rightarrow> setTime t x
      | VTimestamp x \<Rightarrow> setTimestamp t x
      | VNil \<Rightarrow> setNil t
      | _ \<Rightarrow> Err (Errorf (''Unsupported type: '' @ type_text v)))"

subsection \<open>Bytes\<close>

definition total_length :: "tsv list \<Rightarrow> int" where
  "total_length vs = foldl (\<lambda>total v. total + tsv_getLength v) 0 vs"

definition bytes_entry_size :: "int \<Rightarrow> nat" where
  "bytes_entry_size n =
     (if n < 255 then 1 else if n < 65535 then 2 else if n < 4294967295 then 4 else 8)"

text \<open>A number written little-endian in \<open>k\<close> bytes, as the conversion to an unsigned type does.\<close>

definition le_int :: "nat \<Rightarrow> int \<Rightarrow> byte list" where
  "le_int k i = le_bytes k (nat (i mod 256 ^ k))"

text \<open>The two loops of \<^verbatim>\<open>Bytes\<close>: the offset table and the elements.\<close>

fun write_offsets :: "nat \<Rightarrow> int \<Rightarrow> tsv list \<Rightarrow> byte list" where
  "write_offsets k prev [] = []"
| "write_offsets k prev (v # vs) =
     le_int k (prev + 1) @ le_int k (prev + 2) @ le_int k (prev + tsv_getLength v) @
     write_offsets k (prev + tsv_getLength v) vs"

definition write_value :: "tsv \<Rightarrow> byte list" where
  "write_value v =
     [word_of_int (Type v)] @
     (if scale_getLength (TScale v) = 1 then [word_of_int (TScale v)] else le_int 2 (TScale v)) @ Value v"

definition Bytes :: "tuple \<Rightarrow> tuple \<times> byte list" where
  "Bytes t =
     (let k = bytes_entry_size (total_length (tvalues t));
          t = t\<lparr>entrySize := int k\<rparr>
      in (t, [toHeader (entrySize t)] @ write_offsets k 0 (tvalues t) @ concat (map write_value (tvalues t))))"

subsection \<open>Arguments as elements\<close>

definition arg_elements :: "tsv \<Rightarrow> byte list list" where
  "arg_elements v = [[word_of_int (Type v)], [word_of_int (TScale v)], Value v]"

definition short_scale :: "tsv \<Rightarrow> bool" where
  "short_scale v \<longleftrightarrow> TScale v < 255"

lemma le_int_nat:
  assumes "0 \<le> i"
  shows "le_int k i = le_bytes k (nat i)"
proof -
  obtain n where "i = int n" using assms nonneg_int_cases by blast
  moreover have "int n mod 256 ^ k = int (n mod 256 ^ k)" by (simp add: zmod_int)
  ultimately show ?thesis by (simp only: le_int_def nat_int le_bytes_mod)
qed

lemma total_length_sum: "total_length vs = sum_list (map tsv_getLength vs)"
proof -
  have "foldl (\<lambda>n v. n + tsv_getLength v) n vs = n + sum_list (map tsv_getLength vs)" for n
    by (induction vs arbitrary: n) simp_all
  then show ?thesis by (simp add: total_length_def)
qed

lemma tsv_getLength_elements:
  "Type v \<noteq> typeNULL \<Longrightarrow> short_scale v \<Longrightarrow> tsv_getLength v = int (length (concat (arg_elements v)))"
  by (simp add: tsv_getLength_def tsvTypeSize_def scale_getLength_def short_scale_def arg_elements_def)

lemma write_value_elements: "short_scale v \<Longrightarrow> write_value v = concat (arg_elements v)"
  by (simp add: write_value_def scale_getLength_def short_scale_def arg_elements_def)

lemma write_offsets_elements:
  assumes "\<forall>v \<in> set vs. Type v \<noteq> typeNULL \<and> short_scale v"
  shows "write_offsets k (int p) vs = concat (map (le_bytes k) (ends p (concat (map arg_elements vs))))"
  using assms
proof (induction vs arbitrary: p)
  case (Cons v vs)
  have l: "tsv_getLength v = 2 + int (length (Value v))"
    using Cons.prems by (simp add: tsv_getLength_elements) (simp add: arg_elements_def)
  define q where "q = p + 2 + length (Value v)"
  have q: "int p + tsv_getLength v = int q" by (simp add: l q_def)
  have n: "nat (int p + 1) = p + 1" "nat (int p + 2) = p + 1 + 1" by simp_all
  have "ends p (concat (map arg_elements (v # vs))) = (p + 1) # (p + 1 + 1) # q # ends q (concat (map arg_elements vs))"
    by (simp add: arg_elements_def q_def)
  moreover have "write_offsets k (int q) vs = concat (map (le_bytes k) (ends q (concat (map arg_elements vs))))"
    using Cons by simp
  ultimately show ?case by (simp only: write_offsets.simps q) (simp add: le_int_nat n)
qed simp

lemma total_length_elements:
  "\<forall>v \<in> set vs. Type v \<noteq> typeNULL \<and> short_scale v \<Longrightarrow>
   total_length vs = int (length (concat (concat (map arg_elements vs))))"
  unfolding total_length_sum by (induction vs) (simp_all add: tsv_getLength_elements)

lemma write_values_elements:
  "\<forall>v \<in> set vs. short_scale v \<Longrightarrow> concat (map write_value vs) = concat (concat (map arg_elements vs))"
  by (induction vs) (simp_all add: write_value_elements)

text \<open>What every argument looks like after \<^verbatim>\<open>AddValue\<close>.\<close>

definition fixed_width :: "int \<Rightarrow> nat option" where
  "fixed_width ty =
     (if ty = typeNULL then Some 0 else if ty = typeBOOLEAN \<or> ty = typeTINYINT then Some 1
      else if ty = typeREAL then Some 4 else if ty = typeDOUBLE then Some 8 else if ty = typeDATE then Some 3
      else if ty = typeTIME then Some 6 else if ty = typeDATETIME then Some 9 else if ty = typeTIMESTAMP then Some 12
      else if ty = typeUUID then Some 16 else None)"

definition wf_tsv :: "tsv \<Rightarrow> bool" where
  "wf_tsv v \<longleftrightarrow>
     0 \<le> Type v \<and> Type v \<le> 16 \<and> (Type v \<noteq> typeDECIMAL \<longrightarrow> TScale v = 0) \<and>
     - 32768 \<le> TScale v \<and> TScale v \<le> 32767 \<and>
     (case fixed_width (Type v) of Some n \<Rightarrow> length (Value v) = n | None \<Rightarrow> True) \<and>
     (Type v \<in> {typeSMALLINT, typeINT, typeBIGINT} \<longrightarrow> length (Value v) \<in> {1, 2, 4, 8}) \<and>
     (Type v = typeDECIMAL \<longrightarrow> 2 < length (Value v))"

lemma length_encodeIntLe: "length (encodeIntLe v) \<in> {1, 2, 4, 8}"
  by (simp add: encodeIntLe_def)

lemma encodeDecimalUnscaled_not_Nil:
  assumes "encodeDecimalUnscaled u = Ok b"
  shows "b \<noteq> []"
proof -
  obtain n where u: "u = Some n" using assms by (cases u) (simp_all add: encodeDecimalUnscaled_def)
  show ?thesis
  proof (cases "0 \<le> n")
    case True
    then show ?thesis using assms u encodeDecimalUnscaled_nonneg [OF True] by auto
  next
    case False
    define L where "L = length (big_Bytes n)"
    define c where "c = big_Bytes (256 ^ L + n)"
    have "n < 0" using False by simp
    note e = encodeDecimalUnscaled_neg [OF this L_def c_def]
    have "0 < 256 ^ L + n" using e(4) by linarith
    then have "c \<noteq> []" by (simp add: c_def big_Bytes_def)
    then show ?thesis using assms u e(1) by (auto split: if_splits)
  qed
qed

lemma wf_int_tsv:
  "ty \<in> {typeSMALLINT, typeINT, typeBIGINT} \<Longrightarrow> wf_tsv (mk_tsv ty 0 (encodeIntLe n))"
  using length_encodeIntLe [of n] by (auto simp: wf_tsv_def mk_tsv_def fixed_width_def)

lemma wf_fixed_tsv:
  "0 \<le> ty \<Longrightarrow> ty \<le> 16 \<Longrightarrow> fixed_width ty = Some (length b) \<Longrightarrow> wf_tsv (mk_tsv ty 0 b)"
  by (auto simp: wf_tsv_def mk_tsv_def fixed_width_def split: if_splits)

lemma mk_tsv_sel [simp]: "Type (mk_tsv ty sc b) = ty" "TScale (mk_tsv ty sc b) = sc" "Value (mk_tsv ty sc b) = b"
  by (simp_all add: mk_tsv_def)

lemmas set_defs = setNil_def setBool_def setByte_def setByteArray_def setString_def setInt8_def setInt16_def
  setInt32_def setInt64_def setFloat32_def setFloat64_def setUuid_def setDateTime_def setTimestamp_def
  setDate_def setTime_def Let_def

lemma AddValue_cases:
  assumes "AddValue t val = Ok t'" and "wf_goval val"
  shows "\<exists>v. t' = addTsv t v \<and> wf_tsv v \<and> (Type v = typeNULL) = (val = VNil)"
proof (cases val)
  case (VDecimal d)
  then obtain u where u: "encodeDecimalUnscaled (Unscaled d) = Ok u" "- 32768 \<le> Scale d" "Scale d \<le> 32767"
    "t' = addTsv t (mk_tsv typeDECIMAL (Scale d) (word_le (word_of_int (Scale d) :: 16 word) @ u))"
    using assms(1) by (auto simp: AddValue_def setDecimal_def Let_def split: if_splits)
  have "u \<noteq> []" using u(1) by (rule encodeDecimalUnscaled_not_Nil)
  then have "wf_tsv (mk_tsv typeDECIMAL (Scale d) (word_le (word_of_int (Scale d) :: 16 word) @ u))"
    using u(2,3) by (simp add: wf_tsv_def fixed_width_def)
  with u(4) VDecimal show ?thesis by auto
next
  case (VUuid u)
  then have "length (uuid_Flip u) = 16" using assms(2) wf_uuid_Flip [of u] by (simp add: wf_uuid_def)
  with VUuid show ?thesis using assms(1)
    by (auto simp: AddValue_def setUuid_def fixed_width_def intro!: exI wf_fixed_tsv)
next
  case (VString s)
  then show ?thesis using assms(1) by (auto simp: AddValue_def set_defs wf_tsv_def fixed_width_def intro!: exI)
next
  case (VBytes b)
  then show ?thesis using assms(1) by (auto simp: AddValue_def set_defs wf_tsv_def fixed_width_def intro!: exI)
qed (use assms(1) in \<open>auto simp: AddValue_def set_defs encodeDate_Ok_iff encodeTime_Ok_iff fixed_width_def
       intro!: exI wf_fixed_tsv wf_int_tsv\<close>)

fun AddValues :: "tuple \<Rightarrow> goval list \<Rightarrow> tuple res" where
  "AddValues t [] = Ok t"
| "AddValues t (v # vs) = rbind (AddValue t v) (\<lambda>t. AddValues t vs)"

lemma AddValues_elements:
  assumes "AddValues t vals = Ok t'" and "list_all wf_goval vals"
  shows "\<exists>vs. tvalues t' = tvalues t @ vs \<and> list_all2 (\<lambda>v val. wf_tsv v \<and> (Type v = typeNULL) = (val = VNil)) vs vals"
  using assms
proof (induction vals arbitrary: t)
  case (Cons val vals)
  then obtain t1 where t1: "AddValue t val = Ok t1" "AddValues t1 vals = Ok t'" by auto
  obtain v where v: "t1 = addTsv t v" "wf_tsv v" "(Type v = typeNULL) = (val = VNil)"
    using AddValue_cases [OF t1(1)] Cons.prems(2) by auto
  obtain vs where "tvalues t' = tvalues t1 @ vs"
    "list_all2 (\<lambda>v val. wf_tsv v \<and> (Type v = typeNULL) = (val = VNil)) vs vals"
    using Cons.IH [OF t1(2)] Cons.prems(2) by auto
  with v show ?case by (intro exI [of _ "v # vs"]) (simp add: addTsv_def)
qed simp

lemma wf_tsv_null: "wf_tsv v \<Longrightarrow> Type v = typeNULL \<Longrightarrow> Value v = [] \<and> TScale v = 0"
  by (simp add: wf_tsv_def fixed_width_def)

lemma value_area_length:
  assumes "\<forall>v \<in> set vs. wf_tsv v \<and> short_scale v"
  shows "int (length (concat (map write_value vs))) = total_length vs + 2 * int (length (filter (\<lambda>v. Type v = typeNULL) vs))"
proof -
  have "int (length (write_value v)) = tsv_getLength v + (if Type v = typeNULL then 2 else 0)" if "v \<in> set vs" for v
    using assms that wf_tsv_null [of v]
    by (auto simp: write_value_def tsv_getLength_def tsvTypeSize_def scale_getLength_def short_scale_def)
  then show ?thesis unfolding total_length_sum by (induction vs) auto
qed

subsection \<open>Properties\<close>

text \<open>Every argument that \<^verbatim>\<open>AddValue\<close> accepts is appended, in order, as one well-formed typed value:
  a type id of the protocol, a scale that is zero outside DECIMAL, and a payload of the width its type
  prescribes; it is a NULL entry exactly for a nil argument.\<close>

theorem AddValues_well_formed:
  assumes "AddValues empty_tuple vals = Ok t" and "list_all wf_goval vals"
  shows "list_all2 (\<lambda>v val. wf_tsv v \<and> (Type v = 0) = (val = VNil)) (tvalues t) vals"
  using AddValues_elements [OF assms] by (simp add: empty_tuple_def)

theorem AddValues_well_formed_witness:
  "list_all2 (\<lambda>v val. wf_tsv v \<and> (Type v = 0) = (val = VNil))
     (tvalues (addTsv (addTsv empty_tuple (mk_tsv 1 0 [1])) (mk_tsv 0 0 []))) [VBool True, VNil]"
  by (rule AddValues_well_formed) (simp_all add: AddValue_def set_defs)

text \<open>C37: for arguments that are not NULL, with scales below 255, \<^verbatim>\<open>Bytes\<close> writes the binary tuple of three
  elements per argument (type id, scale, value): header, the end offset of each element, and the
  elements; the entry size is 1, 2, 4 or 8.\<close>

theorem Bytes_layout:
  assumes "\<forall>v \<in> set (tvalues t). Type v \<noteq> 0 \<and> TScale v < 255"
  shows "\<exists>es sz hd. es = concat (map (\<lambda>v. [[word_of_int (Type v)], [word_of_int (TScale v)], Value v]) (tvalues t)) \<and>
    (sz, hd) = (if length (concat es) < 255 then (1, 0) else if length (concat es) < 65535 then (2, 1)
                else if length (concat es) < 2 ^ 32 - 1 then (4, 2) else (8, 3)) \<and>
    snd (Bytes t) = hd # concat (map (\<lambda>i. le_bytes sz (length (concat (take (Suc i) es)))) [0..<length es]) @ concat es"
proof -
  define es where "es = concat (map arg_elements (tvalues t))"
  define n where "n = length (concat es)"
  define k where "k = bytes_entry_size (int n)"
  have v: "\<forall>v \<in> set (tvalues t). Type v \<noteq> typeNULL \<and> short_scale v" using assms by (simp add: short_scale_def)
  then have n: "total_length (tvalues t) = int n" by (simp add: total_length_elements n_def es_def)
  have off: "write_offsets k 0 (tvalues t) = concat (map (le_bytes k) (ends 0 es))"
    using write_offsets_elements [OF v, of k 0] by (simp add: es_def)
  have "ends 0 es = map (\<lambda>i. length (concat (take (Suc i) es))) [0..<length es]"
    by (intro nth_equalityI) (simp_all add: ends_nth)
  then have "snd (Bytes t) = toHeader (int k) # concat (map (\<lambda>i. le_bytes k (length (concat (take (Suc i) es)))) [0..<length es]) @ concat es"
    using v write_values_elements [of "tvalues t"] off
    by (simp add: Bytes_def Let_def n o_def flip: k_def es_def)
  moreover have "(k, toHeader (int k)) = (if n < 255 then (1, 0) else if n < 65535 then (2, 1)
      else if n < 2 ^ 32 - 1 then (4, 2) else (8, 3))"
    by (simp add: k_def bytes_entry_size_def toHeader_def)
  moreover have "es = concat (map (\<lambda>v. [[word_of_int (Type v)], [word_of_int (TScale v)], Value v]) (tvalues t))"
    by (simp add: es_def arg_elements_def [abs_def])
  ultimately show ?thesis unfolding n_def by blast
qed

theorem Bytes_layout_witness:
  "\<exists>es sz hd. es = concat (map (\<lambda>v. [[word_of_int (Type v)], [word_of_int (TScale v)], Value v])
        (tvalues (addTsv empty_tuple (mk_tsv 2 0 [5])))) \<and>
    (sz, hd) = (if length (concat es) < 255 then (1, 0) else if length (concat es) < 65535 then (2, 1)
                else if length (concat es) < 2 ^ 32 - 1 then (4, 2) else (8, 3)) \<and>
    snd (Bytes (addTsv empty_tuple (mk_tsv 2 0 [5]))) =
      hd # concat (map (\<lambda>i. le_bytes sz (length (concat (take (Suc i) es)))) [0..<length es]) @ concat es"
  by (rule Bytes_layout) (simp add: addTsv_def empty_tuple_def)

text \<open>A NULL argument breaks the layout: its three offsets claim no bytes, but its type id and scale are
  written all the same, so the value area is two bytes longer per NULL than the last offset says.\<close>

theorem null_argument_misaligns:
  assumes "AddValues empty_tuple vals = Ok t" and "list_all wf_goval vals" and "\<forall>v \<in> set (tvalues t). TScale v < 255"
  shows "\<exists>k area. snd (Bytes t) = toHeader (int k) # write_offsets k 0 (tvalues t) @ area \<and>
    int (length area) = total_length (tvalues t) + 2 * int (count_list vals VNil)"
proof -
  have l: "list_all2 (\<lambda>v val. wf_tsv v \<and> (Type v = typeNULL) = (val = VNil)) (tvalues t) vals"
    using AddValues_elements [OF assms(1,2)] by (simp add: empty_tuple_def)
  then have "\<forall>v \<in> set (tvalues t). wf_tsv v" by (auto simp: list_all2_conv_all_nth in_set_conv_nth)
  then have "int (length (concat (map write_value (tvalues t)))) =
    total_length (tvalues t) + 2 * int (length (filter (\<lambda>v. Type v = typeNULL) (tvalues t)))"
    using assms(3) by (intro value_area_length) (simp add: short_scale_def)
  moreover have "length (filter (\<lambda>v. Type v = typeNULL) (tvalues t)) = count_list vals VNil"
    using l by (induction rule: list_all2_induct) auto
  ultimately show ?thesis
    by (intro exI [of _ "bytes_entry_size (total_length (tvalues t))"]
        exI [of _ "concat (map write_value (tvalues t))"]) (simp add: Bytes_def Let_def)
qed

theorem null_argument_misaligns_witness:
  "\<exists>k area. snd (Bytes (addTsv empty_tuple (mk_tsv 0 0 []))) =
      toHeader (int k) # write_offsets k 0 (tvalues (addTsv empty_tuple (mk_tsv 0 0 []))) @ area \<and>
    int (length area) = total_length (tvalues (addTsv empty_tuple (mk_tsv 0 0 []))) + 2 * int (count_list [VNil] VNil)"
  by (rule null_argument_misaligns) (simp_all add: AddValue_def set_defs addTsv_def empty_tuple_def)

end
