(* ===== verification/DecimalText.thy ===== *)
theory DecimalText
  imports Values
begin

text \<open>
  The text of a decimal (types.go): \<^verbatim>\<open>Decimal.BigRat\<close> and \<^verbatim>\<open>Decimal.String\<close>, over the parts of \<^verbatim>\<open>math/big\<close> they
  use: a \<^verbatim>\<open>big.Rat\<close> is a numerator and a positive denominator without common factor, and \<^verbatim>\<open>FloatString\<close>
  rounds the last digit half away from zero. The texts are shown to be exact by reading them back.
\<close>

subsection \<open>Rationals\<close>

type_synonym bigrat = "int \<times> int"

definition rat_SetFrac :: "int \<Rightarrow> int \<Rightarrow> bigrat" where
  "rat_SetFrac a b = (if a = 0 then (0, 1) else let g = gcd a b in (a div g, b div g))"

definition zeros :: "nat \<Rightarrow> string" where
  "zeros n = replicate n CHR ''0''"

definition rat_FloatString :: "bigrat \<Rightarrow> nat \<Rightarrow> string" where
  "rat_FloatString x prec =
     (let (a, b) = x in
      if b = 1 then int_text a @ (if 0 < prec then CHR ''.'' # zeros prec else [])
      else
        let q = nat \<bar>a\<bar> div nat b; p = 10 ^ prec;
            r = (nat \<bar>a\<bar> mod nat b) * p div nat b; r2 = (nat \<bar>a\<bar> mod nat b) * p mod nat b;
            (q, r) = (if nat b \<le> 2 * r2 then if p \<le> r + 1 then (q + 1, r + 1 - p) else (q, r + 1) else (q, r))
        in (if a < 0 then ''-'' else []) @ nat_text q @
           (if 0 < prec then CHR ''.'' # zeros (prec - length (nat_text r)) @ nat_text r else []))"

subsection \<open>Decimals\<close>

definition Decimal_BigRat :: "decimal \<Rightarrow> bigrat res" where
  "Decimal_BigRat d =
     (case Unscaled d of
        None \<Rightarrow> Panic NilDereference
      | Some n \<Rightarrow> if Scale d < 0 then Ok (n * 10 ^ nat (- Scale d), 1) else Ok (rat_SetFrac n (10 ^ nat (Scale d))))"

definition Decimal_String :: "decimal \<Rightarrow> string res" where
  "Decimal_String d =
     (if Scale d < 0
      then Ok ((case Unscaled d of None \<Rightarrow> ''<nil>'' | Some n \<Rightarrow> int_text n) @ zeros (nat (- Scale d)))
      else rmap (\<lambda>x. rat_FloatString x (nat (Scale d))) (Decimal_BigRat d))"

subsection \<open>Reading digits\<close>

definition digits_nat :: "string \<Rightarrow> nat" where
  "digits_nat s = foldl (\<lambda>a c. a * 10 + (of_char c - 48)) 0 s"

text \<open>The value a decimal text denotes: all its digits as an integer, and how many follow the point.\<close>

definition read_decimal :: "string \<Rightarrow> int \<times> nat" where
  "read_decimal s =
     (let neg = (s \<noteq> [] \<and> hd s = CHR ''-''); t = (if neg then tl s else s);
          ip = takeWhile (\<lambda>c. c \<noteq> CHR ''.'') t; fp = drop 1 (dropWhile (\<lambda>c. c \<noteq> CHR ''.'') t)
      in ((if neg then - int (digits_nat (ip @ fp)) else int (digits_nat (ip @ fp))), length fp))"

lemma digits_acc:
  "foldl (\<lambda>a c. a * 10 + (of_char c - 48 :: nat)) k s = k * 10 ^ length s + foldl (\<lambda>a c. a * 10 + (of_char c - 48)) 0 s"
proof (induction s arbitrary: k)
  case (Cons c s)
  show ?case by (simp only: foldl_Cons Cons.IH [of "k * 10 + _"] Cons.IH [of "0 * 10 + _"]) (simp add: algebra_simps)
qed simp

lemma digits_append: "digits_nat (s @ t) = digits_nat s * 10 ^ length t + digits_nat t"
  by (simp add: digits_nat_def digits_acc [of "foldl _ _ _"])

lemma digits_zeros [simp]: "digits_nat (zeros n) = 0"
  by (induction n) (simp_all add: zeros_def digits_nat_def)

lemma length_zeros [simp]: "length (zeros n) = n"
  by (simp add: zeros_def)

lemma digits_one: "d < 10 \<Longrightarrow> digits_nat [char_of (48 + d)] = d"
  by (simp add: digits_nat_def of_char_of)

lemma digits_nat_text [simp]: "digits_nat (nat_text n) = n"
proof (induction n rule: nat_text.induct)
  case (1 n)
  show ?case
    by (subst nat_text.simps) (use 1 in \<open>simp add: digits_append digits_one\<close>)
qed

lemma length_nat_text: "n < 10 ^ s \<Longrightarrow> 0 < s \<Longrightarrow> length (nat_text n) \<le> s"
proof (induction n arbitrary: s rule: nat_text.induct)
  case (1 n)
  show ?case
  proof (cases "n < 10")
    case True
    with 1 show ?thesis by (simp add: nat_text.simps [of n])
  next
    case False
    then obtain k where k: "s = Suc k" "0 < k" using "1.prems" by (cases s; cases "s - 1") auto
    then have "n div 10 < 10 ^ k" using "1.prems" by (simp add: div_less_iff_less_mult mult.commute)
    from "1.IH" [OF False this k(2)] show ?thesis using False k by (subst nat_text.simps) simp
  qed
qed

definition digit_chars :: "char set" where
  "digit_chars = {c. 48 \<le> (of_char c :: nat) \<and> (of_char c :: nat) \<le> 57}"

lemma nat_text_digits: "set (nat_text n) \<subseteq> digit_chars"
proof (induction n rule: nat_text.induct)
  case (1 n)
  have "char_of (48 + d) \<in> digit_chars" if "d < 10" for d :: nat using that by (simp add: digit_chars_def of_char_of)
  with 1 show ?case by (subst nat_text.simps) auto
qed

lemma zeros_digits: "set (zeros n) \<subseteq> digit_chars"
  by (auto simp: zeros_def digit_chars_def)

lemma digit_chars_no: "CHR ''.'' \<notin> digit_chars" "CHR ''-'' \<notin> digit_chars"
  by (simp_all add: digit_chars_def)

lemma nat_text_not_Nil [simp]: "nat_text n \<noteq> []"
  by (subst nat_text.simps) simp

text \<open>Reading a text made of a sign, digits, and digits after a point.\<close>

lemma read_decimal_text:
  assumes "set ip \<subseteq> digit_chars" "set fp \<subseteq> digit_chars" "ip \<noteq> []"
  shows "read_decimal ((if neg then ''-'' else []) @ ip @ (if pt then CHR ''.'' # fp else [])) =
    (let v = digits_nat (ip @ (if pt then fp else [])) in if neg then - int v else int v, if pt then length fp else 0)"
proof -
  have i: "\<forall>c \<in> set ip. c \<noteq> CHR ''.''" using assms(1) digit_chars_no by auto
  have t: "takeWhile (\<lambda>c. c \<noteq> CHR ''.'') (ip @ CHR ''.'' # fp) = ip"
    "dropWhile (\<lambda>c. c \<noteq> CHR ''.'') (ip @ CHR ''.'' # fp) = CHR ''.'' # fp"
    "takeWhile (\<lambda>c. c \<noteq> CHR ''.'') ip = ip" "dropWhile (\<lambda>c. c \<noteq> CHR ''.'') ip = []"
    using i by (simp_all add: takeWhile_append2 dropWhile_append2 takeWhile_eq_all_conv)
  have h: "hd ip \<noteq> CHR ''-''" using assms(1,3) digit_chars_no by (cases ip) auto
  show ?thesis
    by (cases pt; cases neg) (use assms(3) in \<open>simp_all add: read_decimal_def Let_def t h\<close>)
qed

subsection \<open>FloatString of an exact quotient\<close>

lemma rat_normal_int:
  assumes "snd (rat_SetFrac n (10 ^ s)) = 1"
  shows "n = fst (rat_SetFrac n (10 ^ s)) * 10 ^ s"
proof (cases "n = 0")
  case False
  then have "10 ^ s div gcd n (10 ^ s) = 1" using assms by (simp add: rat_SetFrac_def Let_def)
  then have "gcd n (10 ^ s) = 10 ^ s" by (metis dvd_mult_div_cancel gcd_dvd2 mult.right_neutral)
  then show ?thesis using False by (simp add: rat_SetFrac_def Let_def) (metis dvd_div_mult_self gcd_dvd1)
qed (simp add: rat_SetFrac_def)

lemma exact_quotient:
  assumes "rat_SetFrac n (10 ^ s) = (a, b)"
  shows "nat \<bar>a\<bar> div nat b = nat \<bar>n\<bar> div 10 ^ s"
    and "(nat \<bar>a\<bar> mod nat b) * 10 ^ s div nat b = nat \<bar>n\<bar> mod 10 ^ s"
    and "(nat \<bar>a\<bar> mod nat b) * 10 ^ s mod nat b = 0"
    and "0 < nat b" and "a < 0 \<longleftrightarrow> n < 0"
proof -
  define g where "g = (if n = 0 then 10 ^ s else gcd n (10 ^ s))"
  have ab: "a * g = n" "b * g = 10 ^ s" and g: "0 < g"
    using assms by (auto simp: rat_SetFrac_def g_def Let_def split: if_splits)
  have "nat \<bar>n\<bar> = nat \<bar>a\<bar> * nat g" using g by (simp add: abs_mult nat_mult_distrib flip: ab(1))
  moreover have b: "0 < b" using ab(2) g by (metis zero_less_mult_pos2 zero_less_numeral zero_less_power)
  then have p: "10 ^ s = nat b * nat g"
    using g by (metis ab(2) nat_mult_distrib nat_numeral nat_power_eq order_less_imp_le zero_le_numeral)
  ultimately show "nat \<bar>a\<bar> div nat b = nat \<bar>n\<bar> div 10 ^ s"
    and "(nat \<bar>a\<bar> mod nat b) * 10 ^ s div nat b = nat \<bar>n\<bar> mod 10 ^ s"
    using g b by (simp_all add: mult.left_commute)
  show "(nat \<bar>a\<bar> mod nat b) * 10 ^ s mod nat b = 0" by (simp add: p)
  show "0 < nat b" using b by simp
  show "a < 0 \<longleftrightarrow> n < 0" using g by (simp add: mult_less_0_iff flip: ab(1))
qed

lemma FloatString_fraction:
  assumes "snd (rat_SetFrac n (10 ^ s)) \<noteq> 1"
  shows "rat_FloatString (rat_SetFrac n (10 ^ s)) s =
    (if n < 0 then ''-'' else []) @ nat_text (nat \<bar>n\<bar> div 10 ^ s) @
    (if 0 < s then CHR ''.'' # zeros (s - length (nat_text (nat \<bar>n\<bar> mod 10 ^ s))) @ nat_text (nat \<bar>n\<bar> mod 10 ^ s) else [])"
proof -
  obtain a b where ab: "rat_SetFrac n (10 ^ s) = (a, b)" by fastforce
  note q = exact_quotient [OF ab]
  have "b \<noteq> 1" using assms ab by simp
  then show ?thesis unfolding ab rat_FloatString_def Let_def prod.case q(1-3,5) using q(4) by simp
qed

lemma int_text_parts: "int_text n = (if n < 0 then ''-'' else []) @ nat_text (nat \<bar>n\<bar>)"
  by (simp add: int_text_def)

lemma FloatString_reads_back: "read_decimal (rat_FloatString (rat_SetFrac n (10 ^ s)) s) = (n, s)"
proof (cases "snd (rat_SetFrac n (10 ^ s)) = 1")
  case True
  define k where "k = fst (rat_SetFrac n (10 ^ s))"
  have k: "n = k * 10 ^ s" using rat_normal_int [OF True] by (simp add: k_def)
  have "rat_SetFrac n (10 ^ s) = (k, 1)" using True by (simp add: k_def prod_eq_iff)
  then have "rat_FloatString (rat_SetFrac n (10 ^ s)) s =
    (if k < 0 then ''-'' else []) @ nat_text (nat \<bar>k\<bar>) @ (if 0 < s then CHR ''.'' # zeros s else [])"
    by (simp add: rat_FloatString_def int_text_parts)
  then show ?thesis using k
    by (simp add: read_decimal_text [OF nat_text_digits zeros_digits] digits_append Let_def nat_mult_distrib abs_mult digits_nat_def [of "[]"])
next
  case False
  then have s: "0 < s" by (cases s; cases "n = 0") (simp_all add: rat_SetFrac_def)
  define q where "q = nat \<bar>n\<bar> div 10 ^ s"
  define r where "r = nat \<bar>n\<bar> mod 10 ^ s"
  have "length (nat_text r) \<le> s" using s by (intro length_nat_text) (simp_all add: r_def)
  then have "digits_nat (nat_text q @ zeros (s - length (nat_text r)) @ nat_text r) = q * 10 ^ s + r"
    by (simp add: digits_append)
  also have "\<dots> = nat \<bar>n\<bar>" unfolding q_def r_def by (rule div_mult_mod_eq)
  finally have v: "digits_nat (nat_text q @ zeros (s - length (nat_text r)) @ nat_text r) = nat \<bar>n\<bar>" .
  have d: "set (zeros (s - length (nat_text r)) @ nat_text r) \<subseteq> digit_chars" using zeros_digits nat_text_digits by simp
  have l: "length (zeros (s - length (nat_text r)) @ nat_text r) = s" using \<open>length (nat_text r) \<le> s\<close> by simp
  have "rat_FloatString (rat_SetFrac n (10 ^ s)) s = (if n < 0 then ''-'' else []) @ nat_text q @
    (CHR ''.'' # (zeros (s - length (nat_text r)) @ nat_text r))"
    using s by (simp add: FloatString_fraction [OF False] q_def r_def)
  then show ?thesis
    using read_decimal_text [OF nat_text_digits d nat_text_not_Nil, of "n < 0" q True]
    by (simp only: if_True v l Let_def) simp
qed

subsection \<open>Properties\<close>

text \<open>C21: The text of a decimal is exact: read back, its digits are the unscaled value and as many of them follow the
  point as the scale says; for a negative scale they are the value multiplied out, with no point. Nothing is rounded.\<close>

theorem decimal_text_exact:
  assumes "Unscaled d = Some n"
  shows "\<exists>s. Decimal_String d = Ok s \<and>
    read_decimal s = (if Scale d < 0 then (n * 10 ^ nat (- Scale d), 0) else (n, nat (Scale d)))"
proof (cases "Scale d < 0")
  case True
  have "read_decimal ((if n < 0 then ''-'' else []) @ (nat_text (nat \<bar>n\<bar>) @ zeros (nat (- Scale d))) @ (if False then CHR ''.'' # [] else [])) =
    (n * 10 ^ nat (- Scale d), 0)"
    using nat_text_digits zeros_digits by (subst read_decimal_text) (auto simp: digits_append Let_def)
  with True assms show ?thesis by (simp add: Decimal_String_def int_text_parts)
next
  case False
  with assms FloatString_reads_back show ?thesis by (simp add: Decimal_String_def Decimal_BigRat_def)
qed

theorem decimal_text_exact_witness:
  "\<exists>s. Decimal_String \<lparr>Unscaled = Some (-12345), Scale = 3\<rparr> = Ok s \<and>
    read_decimal s = (if Scale \<lparr>Unscaled = Some (-12345), Scale = 3\<rparr> < 0
      then (-12345 * 10 ^ nat (- Scale \<lparr>Unscaled = Some (-12345), Scale = 3\<rparr>), 0)
      else (-12345, nat (Scale \<lparr>Unscaled = Some (-12345), Scale = 3\<rparr>)))"
  by (rule decimal_text_exact) simp

end
