(* ===== verification/Queries.thy ===== *)
theory Queries
  imports ResultSet Schemas ColumnValues TupleWriter DecimalText
begin

text \<open>
  SQL queries (client-sql-and-scan-queries.go): the request \<^verbatim>\<open>QuerySQL\<close> and \<^verbatim>\<open>QuerySQLFieldsRaw\<close> build, the header,
  metadata and rows of the answer, \<^verbatim>\<open>QuerySQL\<close>, \<^verbatim>\<open>QuerySQLFields\<close>, \<^verbatim>\<open>QuerySQLCursorGetPage\<close> and \<^verbatim>\<open>ResourceClose\<close>.
  \<open>now\<close> is the result of \<^verbatim>\<open>time.Now()\<close>. \<^verbatim>\<open>QuerySQL\<close> and \<^verbatim>\<open>QuerySQLFields\<close> are two copies of the same code, and so they are
  here. Like the code, the operations return a result beside the error: \<^verbatim>\<open>QuerySQL\<close> an empty one, the others what they
  have read so far. Beside a panic the result means nothing.
\<close>

subsection \<open>Data\<close>

record query_data =
  qd_Schema :: string
  PageSize :: "64 word"
  Query :: string
  QueryArgs :: "goval list"
  Timeout :: "64 word"

type_synonym row = "string \<Rightarrow> goval option"

record query_result =
  ResponseId :: "64 word"
  ResourceId :: "64 word"
  Metadata :: "result_metadata option"
  HasRowSet :: bool
  wasApplied :: bool
  AffectedRows :: "64 word"
  Rows :: "int \<Rightarrow> row option"
  HasMore :: bool

definition empty_result :: query_result where
  "empty_result = \<lparr>ResponseId = 0, ResourceId = 0, Metadata = None, HasRowSet = False, wasApplied = False,
                    AffectedRows = 0, Rows = Map.empty, HasMore = False\<rparr>"

definition DEFAULT_SCHEMA :: string where
  "DEFAULT_SCHEMA = ''PUBLIC''"

subsection \<open>The request\<close>

fun add_args :: "tuple \<Rightarrow> nat \<Rightarrow> goval list \<Rightarrow> tuple res" where
  "add_args t i [] = Ok t"
| "add_args t i (v # vs) =
     rbind (wrap_err (''failed to encode args '' @ int_text (int i)) (AddValue t v)) (\<lambda>t. add_args t (i + 1) vs)"

definition query_payload :: "msgpack \<Rightarrow> query_data \<Rightarrow> gotime \<Rightarrow> byte list res" where
  "query_payload M query now =
     (let schema = (if length (qd_Schema query) = 0 then DEFAULT_SCHEMA else qd_Schema query);
          bufr = WritePackedNull M @ WritePackedString M schema @ WritePackedInt64 M (PageSize query) @
                 WritePackedInt64 M (Timeout query) @ WritePackedNull M @ WritePackedNull M @
                 WritePackedInt64 M 0 @ WritePackedBytes M [0] @ WritePackedString M (Query query)
      in rmap (\<lambda>args. bufr @ args @ WritePackedTimestamp M now)
           (if 0 < length (QueryArgs query)
            then rmap (\<lambda>t. WritePackedInt64 M (word_of_nat (length (QueryArgs query))) @ WritePackedBytes M (snd (Bytes t)))
                   (add_args empty_tuple 0 (QueryArgs query))
            else Ok (WritePackedNull M)))"

text \<open>The same request as \<^verbatim>\<open>QuerySQLFieldsRaw\<close> builds it.\<close>

fun fields_args :: "tuple \<Rightarrow> nat \<Rightarrow> goval list \<Rightarrow> tuple res" where
  "fields_args t i [] = Ok t"
| "fields_args t i (v # vs) =
     rbind (wrap_err (''failed to encode args '' @ int_text (int i)) (AddValue t v)) (\<lambda>t. fields_args t (i + 1) vs)"

definition fields_payload :: "msgpack \<Rightarrow> query_data \<Rightarrow> gotime \<Rightarrow> byte list res" where
  "fields_payload M data now =
     (let schema = (if length (qd_Schema data) = 0 then DEFAULT_SCHEMA else qd_Schema data);
          bufr = WritePackedNull M @ WritePackedString M schema @ WritePackedInt64 M (PageSize data) @
                 WritePackedInt64 M (Timeout data) @ WritePackedNull M @ WritePackedNull M @
                 WritePackedInt64 M 0 @ WritePackedBytes M [0] @ WritePackedString M (Query data)
      in rmap (\<lambda>args. bufr @ args @ WritePackedTimestamp M now)
           (if 0 < length (QueryArgs data)
            then rmap (\<lambda>t. WritePackedInt64 M (word_of_nat (length (QueryArgs data))) @ WritePackedBytes M (snd (Bytes t)))
                   (fields_args empty_tuple 0 (QueryArgs data))
            else Ok (WritePackedNull M)))"

subsection \<open>The answer\<close>

text \<open>Reading on with \<open>k\<close> after a call that may fail, \<open>r\<close> being the result returned beside its error; and the outcome of
  such a reader, which has a result only when there is no error. A reader of the library gives the zero value of
  its type beside its error.\<close>

definition keep :: "'r \<Rightarrow> 'a res \<Rightarrow> ('a \<Rightarrow> 'r \<times> 'b res) \<Rightarrow> 'r \<times> 'b res" where
  "keep r x k = (case x of Ok a \<Rightarrow> k a | Err e \<Rightarrow> (r, Err e) | Panic p \<Rightarrow> (r, Panic p))"

definition readq :: "'r \<Rightarrow> string \<Rightarrow> (byte list \<Rightarrow> ('a \<times> byte list) res) \<Rightarrow> byte list \<Rightarrow>
    ('a \<Rightarrow> byte list \<Rightarrow> 'r \<times> 'b res) \<Rightarrow> 'r \<times> 'b res" where
  "readq r ctxt rd msg k = keep r (wrap_err ctxt (rd msg)) (\<lambda>(a, msg). k a msg)"

definition outcome :: "'r \<times> 'a res \<Rightarrow> ('r \<times> 'a) res" where
  "outcome p = rmap (Pair (fst p)) (snd p)"

definition ReadQuerySQLResponseHeader :: "msgpack \<Rightarrow> query_result \<Rightarrow> byte list \<Rightarrow> query_result \<times> byte list res" where
  "ReadQuerySQLResponseHeader M result msg =
     readq result ''failed to read resource id existence'' (TryReadPackedNil M) msg (\<lambda>isnil msg.
     let rest = (\<lambda>resrcId msg.
           let result = result\<lparr>ResourceId := resrcId\<rparr> in
           readq (result\<lparr>HasRowSet := False\<rparr>) ''failed to read has row set'' (ReadPackedBool M) msg (\<lambda>hasRowSet msg.
           let result = result\<lparr>HasRowSet := hasRowSet\<rparr> in
           readq (result\<lparr>HasMore := False\<rparr>) ''failed to read has more pages'' (ReadPackedBool M) msg (\<lambda>hasMore msg.
           let result = result\<lparr>HasMore := hasMore\<rparr> in
           readq (result\<lparr>wasApplied := False\<rparr>) ''failed to read was applied'' (ReadPackedBool M) msg (\<lambda>applied msg.
           let result = result\<lparr>wasApplied := applied\<rparr> in
           readq (result\<lparr>AffectedRows := 0\<rparr>) ''failed to read affected rows qty'' (ReadPackedInt64 M) msg (\<lambda>affected msg.
             (result\<lparr>AffectedRows := affected\<rparr>, Ok msg))))))
     in if \<not> isnil then readq result ''failed to read resource id value'' (ReadPackedInt64 M) msg rest else rest 0 msg)"

text \<open>The conversion of a value; \<open>timeTypes\<close> are the SQL types the switch lists for times. A type assertion on a
  value of another type (NULL included) panics.\<close>

definition convert_value :: "host \<Rightarrow> string list \<Rightarrow> column_type \<Rightarrow> nat \<Rightarrow> goval \<Rightarrow> goval res" where
  "convert_value H timeTypes ty j value =
     (if GoKind ty = reflect_Struct
      then if SQLTypeName ty = ''DECIMAL''
           then (case value of VDecimal d \<Rightarrow> rmap VString (Decimal_String d) | _ \<Rightarrow> Panic BadTypeAssertion)
           else if SQLTypeName ty = ''UUID''
           then (case value of VUuid u \<Rightarrow> Ok (VString (uuid_String u)) | _ \<Rightarrow> Panic BadTypeAssertion)
           else if SQLTypeName ty \<in> set timeTypes
           then (case value of VStdTime t \<Rightarrow> Ok (VString (time_text H t)) | _ \<Rightarrow> Panic BadTypeAssertion)
           else Err (Errorf (''Unsupported column type: '' @ SQLTypeName ty @ '' at '' @ int_text (int j)))
      else Ok value)"

text \<open>Column \<open>j\<close> of a row: its type, its name, its value.\<close>

definition read_cell :: "host \<Rightarrow> string \<Rightarrow> string list \<Rightarrow> result_metadata \<Rightarrow> tuple \<Rightarrow> nat \<Rightarrow> (string \<times> goval) res" where
  "read_cell H ctxt timeTypes meta t j =
     rbind (wrap_err ctxt (meta_GetColumnTypeById meta (int j))) (\<lambda>colType.
     rbind (wrap_err ''failed to get column name'' (GetColumnOriginNameById meta (int j))) (\<lambda>colName.
     rbind (deref colType) (\<lambda>colType.
     rbind (wrap_err (''failed to parse column '' @ int_text (int j)) (GetValue (local_offset H) t (int j) (TypeId colType))) (\<lambda>value.
     rmap (\<lambda>value. (colName, value)) (convert_value H timeTypes colType j value)))))"

fun read_cells :: "host \<Rightarrow> string \<Rightarrow> string list \<Rightarrow> result_metadata \<Rightarrow> tuple \<Rightarrow> nat list \<Rightarrow> row \<Rightarrow> row res" where
  "read_cells H ctxt timeTypes meta t [] row = Ok row"
| "read_cells H ctxt timeTypes meta t (j # js) row =
     rbind (read_cell H ctxt timeTypes meta t j) (\<lambda>(colName, value). read_cells H ctxt timeTypes meta t js (row(colName \<mapsto> value)))"

definition decode_row :: "host \<Rightarrow> string \<Rightarrow> string list \<Rightarrow> result_metadata \<Rightarrow> byte list \<Rightarrow> row res" where
  "decode_row H ctxt timeTypes meta bytes =
     rbind (wrap_err ''failed to parse row tuple'' (NewTupleFromByteArrayWithMetadata meta bytes)) (\<lambda>t.
       read_cells H ctxt timeTypes meta t [0..<length (Columns meta)] Map.empty)"

text \<open>The loop over \<open>n\<close> more rows, the next one being number \<open>i\<close>.\<close>

fun read_rows :: "host \<Rightarrow> msgpack \<Rightarrow> string \<Rightarrow> string list \<Rightarrow> result_metadata \<Rightarrow> nat \<Rightarrow> int \<Rightarrow> (int \<Rightarrow> row option) \<Rightarrow>
    byte list \<Rightarrow> ((int \<Rightarrow> row option) \<times> byte list) res" where
  "read_rows H M ctxt timeTypes meta 0 i rows msg = Ok (rows, msg)"
| "read_rows H M ctxt timeTypes meta (Suc n) i rows msg =
     readf ''failed to read row tuple'' (ReadPackedBytes M) msg (\<lambda>bytes msg.
     rbind (decode_row H ctxt timeTypes meta bytes) (\<lambda>row.
       read_rows H M ctxt timeTypes meta n (i + 1) (rows(i \<mapsto> row)) msg))"

definition read_page :: "host \<Rightarrow> msgpack \<Rightarrow> string \<Rightarrow> string list \<Rightarrow> result_metadata \<Rightarrow> byte list \<Rightarrow>
    ((int \<Rightarrow> row option) \<times> byte list) res" where
  "read_page H M ctxt timeTypes meta msg =
     readf ''failed to read row count'' (ReadPackedInt64 M) msg (\<lambda>rowCount msg.
       read_rows H M ctxt timeTypes meta (nat (sint rowCount)) 0 Map.empty msg)"

text \<open>Header, metadata, (no) partition awareness, and the rows if there are any.\<close>

definition read_answer :: "host \<Rightarrow> msgpack \<Rightarrow> string \<Rightarrow> string list \<Rightarrow> query_result \<Rightarrow> byte list \<Rightarrow> query_result res" where
  "read_answer H M ctxt timeTypes result msg =
     rbind (outcome (ReadQuerySQLResponseHeader M result msg)) (\<lambda>(result, msg).
     rbind (NewResultSetMetadataFromReader M msg) (\<lambda>(meta, msg).
     rbind (ReadPartitionAwareness M msg False False) (\<lambda>(pa, msg).
       let result = result\<lparr>Metadata := Some meta\<rparr> in
       if HasRowSet result
       then rmap (\<lambda>(rows, msg). result\<lparr>Rows := rows\<rparr>) (read_page H M ctxt timeTypes meta msg)
       else Ok result)))"

subsection \<open>The operations\<close>

definition QuerySQL :: "host \<Rightarrow> msgpack \<Rightarrow> client \<Rightarrow> query_data \<Rightarrow> gotime \<Rightarrow> reply \<Rightarrow> client \<times> query_result \<times> unit res" where
  "QuerySQL H M c query now rep =
     (case query_payload M query now of
        Ok payload \<Rightarrow>
          let (c, r) = operate M c OpSqlExecute payload ''failed to execute SQL_EXECUTE operation'' rep
          in (c, case rbind r (\<lambda>res.
                        read_answer H M ''failed to get column type'' [''DATETIME'', ''TIMESTAMP'']
                          (empty_result\<lparr>ResponseId := ro_RequestId res\<rparr>) (ro_message res)) of
                   Ok queryRes \<Rightarrow> (queryRes, Ok ())
                 | Err e \<Rightarrow> (empty_result, Err e)
                 | Panic p \<Rightarrow> (empty_result, Panic p))
      | Err e \<Rightarrow> (c, empty_result, Err e)
      | Panic p \<Rightarrow> (c, empty_result, Panic p))"

definition QuerySQLFieldsRaw :: "msgpack \<Rightarrow> client \<Rightarrow> query_data \<Rightarrow> gotime \<Rightarrow> reply \<Rightarrow> client \<times> response_operation res" where
  "QuerySQLFieldsRaw M c data now rep =
     (case fields_payload M data now of
        Ok payload \<Rightarrow> operate M c OpSqlExecute payload ''failed to execute SQL_EXECUTE operation'' rep
      | Err e \<Rightarrow> (c, Err e)
      | Panic p \<Rightarrow> (c, Panic p))"

text \<open>The row loop of \<^verbatim>\<open>QuerySQLFields\<close> and \<^verbatim>\<open>QuerySQLCursorGetPage\<close>, which differ in the text \<open>ctxt\<close> of one error. It
  returns the result \<open>r\<close> read so far with every error but that of an unsupported type.\<close>

definition fields_cell :: "host \<Rightarrow> string \<Rightarrow> result_metadata \<Rightarrow> tuple \<Rightarrow> nat \<Rightarrow> query_result \<Rightarrow>
    query_result \<times> (string \<times> goval) res" where
  "fields_cell H ctxt meta t j r =
     keep r (wrap_err ctxt (meta_GetColumnTypeById meta (int j))) (\<lambda>colType.
     keep r (wrap_err ''failed to get column name'' (GetColumnOriginNameById meta (int j))) (\<lambda>colName.
     keep r (deref colType) (\<lambda>colType.
     keep r (wrap_err (''failed to parse column '' @ int_text (int j)) (GetValue (local_offset H) t (int j) (TypeId colType))) (\<lambda>value.
       if GoKind colType = reflect_Struct
       then if SQLTypeName colType = ''DECIMAL''
            then (r, case value of VDecimal d \<Rightarrow> rmap (\<lambda>s. (colName, VString s)) (Decimal_String d) | _ \<Rightarrow> Panic BadTypeAssertion)
            else if SQLTypeName colType = ''UUID''
            then (r, case value of VUuid u \<Rightarrow> Ok (colName, VString (uuid_String u)) | _ \<Rightarrow> Panic BadTypeAssertion)
            else if SQLTypeName colType \<in> {''DATE'', ''TIME'', ''DATETIME'', ''TIMESTAMP''}
            then (r, case value of VStdTime t \<Rightarrow> Ok (colName, VString (time_text H t)) | _ \<Rightarrow> Panic BadTypeAssertion)
            else (empty_result, Err (Errorf (''Unsupported column type: '' @ SQLTypeName colType @ '' at '' @ int_text (int j))))
       else (r, Ok (colName, value))))))"

fun fields_cells :: "host \<Rightarrow> string \<Rightarrow> result_metadata \<Rightarrow> tuple \<Rightarrow> nat list \<Rightarrow> row \<Rightarrow> query_result \<Rightarrow> query_result \<times> row res" where
  "fields_cells H ctxt meta t [] row r = (r, Ok row)"
| "fields_cells H ctxt meta t (j # js) row r =
     (let (r, x) = fields_cell H ctxt meta t j r
      in keep r x (\<lambda>(colName, value). fields_cells H ctxt meta t js (row(colName \<mapsto> value)) r))"

fun fields_rows :: "host \<Rightarrow> msgpack \<Rightarrow> string \<Rightarrow> result_metadata \<Rightarrow> nat \<Rightarrow> int \<Rightarrow> query_result \<Rightarrow> byte list \<Rightarrow>
    query_result \<times> byte list res" where
  "fields_rows H M ctxt meta 0 i r msg = (r, Ok msg)"
| "fields_rows H M ctxt meta (Suc n) i r msg =
     readq r ''failed to read row tuple'' (ReadPackedBytes M) msg (\<lambda>bytes msg.
     keep r (wrap_err ''failed to parse row tuple'' (NewTupleFromByteArrayWithMetadata meta bytes)) (\<lambda>t.
     let (r, x) = fields_cells H ctxt meta t [0..<length (Columns meta)] Map.empty r
     in keep r x (\<lambda>row. fields_rows H M ctxt meta n (i + 1) (r\<lparr>Rows := (Rows r)(i \<mapsto> row)\<rparr>) msg)))"

definition fields_page :: "host \<Rightarrow> msgpack \<Rightarrow> string \<Rightarrow> result_metadata \<Rightarrow> query_result \<Rightarrow> byte list \<Rightarrow>
    query_result \<times> byte list res" where
  "fields_page H M ctxt meta r msg =
     (let r = r\<lparr>Rows := Map.empty\<rparr>
      in readq r ''failed to read row count'' (ReadPackedInt64 M) msg (\<lambda>rowCount msg.
           fields_rows H M ctxt meta (nat (sint rowCount)) 0 r msg))"

definition fields_answer :: "host \<Rightarrow> msgpack \<Rightarrow> query_result \<Rightarrow> byte list \<Rightarrow> query_result \<times> byte list res" where
  "fields_answer H M r msg =
     (let (r, x) = ReadQuerySQLResponseHeader M r msg
      in keep r x (\<lambda>msg.
         keep (r\<lparr>Metadata := None\<rparr>) (NewResultSetMetadataFromReader M msg) (\<lambda>(meta, msg).
         let r = r\<lparr>Metadata := Some meta\<rparr>
         in keep r (ReadPartitionAwareness M msg False False) (\<lambda>(pa, msg).
            if HasRowSet r then fields_page H M ''failed to get column type parsing rows'' meta r msg else (r, Ok msg)))))"

definition QuerySQLFields :: "host \<Rightarrow> msgpack \<Rightarrow> client \<Rightarrow> query_data \<Rightarrow> gotime \<Rightarrow> reply \<Rightarrow> client \<times> query_result \<times> unit res" where
  "QuerySQLFields H M c data now rep =
     (let (c, x) = QuerySQLFieldsRaw M c data now rep
      in (c, keep empty_result x (\<lambda>res.
           let (r, y) = fields_answer H M (empty_result\<lparr>ResponseId := ro_RequestId res\<rparr>) (ro_message res)
           in (r, rmap (\<lambda>_. ()) y))))"

definition QuerySQLCursorGetPage :: "host \<Rightarrow> msgpack \<Rightarrow> client \<Rightarrow> 64 word \<Rightarrow> result_metadata \<Rightarrow> reply \<Rightarrow>
    client \<times> query_result \<times> unit res" where
  "QuerySQLCursorGetPage H M c cursor meta rep =
     (let r = empty_result\<lparr>ResourceId := cursor\<rparr>;
          (c, x) = operate M c OpSqlCursorNextPage (WritePackedInt64 M cursor) ''failed to execute SQL_CURSOR_NEXT_PAGE operation'' rep
      in (c, keep r x (\<lambda>res.
           let (r, y) = fields_page H M ''failed to get column type'' meta r (ro_message res)
           in keep r y (\<lambda>msg.
              readq r ''failed to read has more pages'' (ReadPackedBool M) msg (\<lambda>hasMorePages msg.
                (r\<lparr>HasMore := hasMorePages\<rparr>, Ok ()))))))"

definition ResourceClose :: "msgpack \<Rightarrow> client \<Rightarrow> 64 word \<Rightarrow> reply \<Rightarrow> client \<times> unit res" where
  "ResourceClose M c resourceId rep =
     (if resourceId = 0 then (c, Ok ())
      else let (c, r) = operate M c OpSqlCursorClose [] ''failed to execute SQL_CURSOR_CLOSE operation'' rep
           in (c, rmap (\<lambda>_. ()) r))"

subsection \<open>Outcomes\<close>

lemma rbind_assoc: "rbind (rbind x f) g = rbind x (\<lambda>a. rbind (f a) g)"
  by (cases x) simp_all

lemma rmap_rmap: "rmap f (rmap g x) = rmap (\<lambda>a. f (g a)) x"
  by (cases x) simp_all

lemma rbind_rmap: "rbind (rmap f x) k = rbind x (\<lambda>a. k (f a))"
  by (cases x) simp_all

lemma keep_simps [simp]:
  "keep r (Ok a) k = k a" "keep r (Err e) k = (r, Err e)" "keep r (Panic p) k = (r, Panic p)"
  by (simp_all add: keep_def)

lemma outcome_simps [simp]:
  "outcome (r, Ok a) = Ok (r, a)" "outcome (r, Err e) = Err e" "outcome (r, Panic p) = Panic p"
  by (simp_all add: outcome_def)

lemma outcome_Ok_iff: "outcome p = Ok (r, a) \<longleftrightarrow> p = (r, Ok a)"
  by (cases p; cases "snd p") auto

lemma outcome_keep: "outcome (keep r x k) = rbind x (\<lambda>a. outcome (k a))"
  by (cases x) simp_all

lemma outcome_readq: "outcome (readq r ctxt rd msg k) = readf ctxt rd msg (\<lambda>a msg. outcome (k a msg))"
  by (cases "rd msg") (auto simp: readq_def readf_def)

lemma outcome_case: "outcome (case p of (r, x) \<Rightarrow> keep r x (k r)) = rbind (outcome p) (\<lambda>(r, a). outcome (k r a))"
  by (cases p; cases "snd p") simp_all

lemma outcome_if: "outcome (if b then p else q) = (if b then outcome p else outcome q)"
  by simp

subsection \<open>A server's answer\<close>

definition enc_header :: "msgpack \<Rightarrow> query_result \<Rightarrow> byte list" where
  "enc_header M q =
     (if ResourceId q = 0 then WritePackedNull M else WritePackedInt64 M (ResourceId q)) @
     enc_bool (HasRowSet q) @ enc_bool (HasMore q) @ enc_bool (wasApplied q) @ WritePackedInt64 M (AffectedRows q)"

definition enc_rows :: "msgpack \<Rightarrow> byte list list \<Rightarrow> byte list" where
  "enc_rows M outs = WritePackedInt64 M (word_of_nat (length outs)) @ concat (map (WritePackedBytes M) outs)"

definition enc_answer :: "msgpack \<Rightarrow> query_result \<Rightarrow> described_column list \<Rightarrow> byte list list \<Rightarrow> byte list" where
  "enc_answer M q ds outs = enc_header M q @ enc_metadata M ds @ (if HasRowSet q then enc_rows M outs else [])"

text \<open>The rows of a page under their numbers.\<close>

definition page_rows :: "row list \<Rightarrow> int \<Rightarrow> row option" where
  "page_rows rs k = (if 0 \<le> k \<and> k < int (length rs) then Some (rs ! nat k) else None)"

definition rows_from :: "int \<Rightarrow> row list \<Rightarrow> (int \<Rightarrow> row option) \<Rightarrow> int \<Rightarrow> row option" where
  "rows_from i rs rows k = (if i \<le> k \<and> k < i + int (length rs) then Some (rs ! nat (k - i)) else rows k)"

lemma rows_from_Cons: "rows_from (i + 1) rs (rows(i \<mapsto> r)) = rows_from i (r # rs) rows"
proof
  fix k
  consider "k = i" | "i + 1 \<le> k" "k < i + 1 + int (length rs)" | "k < i \<or> i + 1 + int (length rs) \<le> k" by linarith
  then show "rows_from (i + 1) rs (rows(i \<mapsto> r)) k = rows_from i (r # rs) rows k"
  proof cases
    case 2
    then have "nat (k - i) = Suc (nat (k - (i + 1)))" by linarith
    with 2 show ?thesis by (simp add: rows_from_def)
  qed (auto simp: rows_from_def)
qed

lemma rows_from_page: "rows_from 0 rs Map.empty = page_rows rs"
  by (simp add: fun_eq_iff rows_from_def page_rows_def)

context msgpack_codec
begin

lemma read_enc_bool: "ReadPackedBool M (enc_bool v @ r) = Ok (v, r)"
  using readf_enc_bool [of "[]" v r "\<lambda>v r. Ok (v, r)"]
  by (cases "ReadPackedBool M (enc_bool v @ r)") (auto simp: readf_def)

lemma read_header_enc:
  "ReadQuerySQLResponseHeader M result (enc_header M q @ r) =
    (result\<lparr>ResourceId := ResourceId q, HasRowSet := HasRowSet q, HasMore := HasMore q, wasApplied := wasApplied q,
            AffectedRows := AffectedRows q\<rparr>, Ok r)"
proof -
  have "outcome (ReadQuerySQLResponseHeader M result (enc_header M q @ r)) =
    Ok (result\<lparr>ResourceId := ResourceId q, HasRowSet := HasRowSet q, HasMore := HasMore q, wasApplied := wasApplied q,
               AffectedRows := AffectedRows q\<rparr>, r)"
    by (simp add: ReadQuerySQLResponseHeader_def enc_header_def outcome_readq outcome_if readf_Ok try_nil try_nil_int Let_def)
  then show ?thesis by (simp add: outcome_Ok_iff)
qed

lemma read_rows_enc:
  assumes "\<forall>b \<in> set outs. length b < 2 ^ 32"
  shows "read_rows H M ctxt tts meta (length outs) i rows (concat (map (WritePackedBytes M) outs) @ r) =
    rmap (\<lambda>rs. (rows_from i rs rows, r)) (mapR (decode_row H ctxt tts meta) outs)"
  using assms
proof (induction outs arbitrary: i rows)
  case Nil
  then show ?case by (auto simp: rows_from_def fun_eq_iff)
next
  case (Cons b outs)
  then have IH: "read_rows H M ctxt tts meta (length outs) (i + 1) (rows(i \<mapsto> row)) (concat (map (WritePackedBytes M) outs) @ r) =
    rmap (\<lambda>rs. (rows_from (i + 1) rs (rows(i \<mapsto> row)), r)) (mapR (decode_row H ctxt tts meta) outs)" for row
    by simp
  have "readf c (ReadPackedBytes M) (WritePackedBytes M b @ s) k = k b s"
    for c s and k :: "byte list \<Rightarrow> byte list \<Rightarrow> ((int \<Rightarrow> row option) \<times> byte list) res"
    using Cons.prems by simp
  then show ?case
    by (cases "decode_row H ctxt tts meta b"; cases "mapR (decode_row H ctxt tts meta) outs")
      (simp_all add: IH rows_from_Cons)
qed

lemma read_page_enc:
  assumes "\<forall>b \<in> set outs. length b < 2 ^ 32" "length outs < 2 ^ 63"
  shows "read_page H M ctxt tts meta (enc_rows M outs @ r) =
    rmap (\<lambda>rs. (page_rows rs, r)) (mapR (decode_row H ctxt tts meta) outs)"
proof -
  have "sint (word_of_nat (length outs) :: 64 word) = int (length outs)"
    using assms(2) by (simp add: signed_of_nat signed_take_bit_int_eq_self)
  then show ?thesis using read_rows_enc [OF assms(1), of H ctxt tts meta 0 Map.empty r]
    by (simp add: read_page_def enc_rows_def rows_from_page)
qed

lemma read_answer_enc:
  assumes "wf_described [] ds" "length ds < 2 ^ 63" "\<forall>b \<in> set outs. length b < 2 ^ 32" "length outs < 2 ^ 63"
    "mapR (decode_row H ctxt tts \<lparr>Columns = map fst ds\<rparr>) outs = Ok rs"
  shows "read_answer H M ctxt tts result (enc_answer M q ds outs) =
    Ok (result\<lparr>ResourceId := ResourceId q, HasRowSet := HasRowSet q, HasMore := HasMore q, wasApplied := wasApplied q,
               AffectedRows := AffectedRows q, Metadata := Some \<lparr>Columns = map fst ds\<rparr>,
               Rows := if HasRowSet q then page_rows rs else Rows result\<rparr>)"
proof -
  note m = read_metadata_enc [OF assms(1,2)]
  show ?thesis
  proof (cases "HasRowSet q")
    case True
    then show ?thesis using read_page_enc [OF assms(3,4), of H ctxt tts _ "[]"] assms(5)
      by (simp add: read_answer_def enc_answer_def read_header_enc m ReadPartitionAwareness_def Let_def)
  next
    case False
    then show ?thesis using m [of "[]"]
      by (simp add: read_answer_def enc_answer_def read_header_enc ReadPartitionAwareness_def Let_def)
  qed
qed

end

subsection \<open>The two decoders agree\<close>

lemma rbind_eqI: "(\<And>x. m = Ok x \<Longrightarrow> f x = g x) \<Longrightarrow> rbind m f = rbind m g"
  by (cases m) auto

lemma convert_value_table:
  assumes "ty \<in> set ColTypes"
  shows "convert_value H [''DATETIME'', ''TIMESTAMP''] ty j v =
    convert_value H [''DATE'', ''TIME'', ''DATETIME'', ''TIMESTAMP''] ty j v"
  using assms by (auto simp: convert_value_def ColTypes_def)

lemma read_cells_agree:
  assumes "wf_metadata meta" "set js \<subseteq> {..<length (Columns meta)}"
  shows "read_cells H ctxt [''DATETIME'', ''TIMESTAMP''] meta t js row =
    read_cells H ctxt' [''DATE'', ''TIME'', ''DATETIME'', ''TIMESTAMP''] meta t js row"
  using assms(2)
proof (induction js arbitrary: row)
  case (Cons j js)
  then have j: "j < length (Columns meta)" by simp
  obtain ty where ty: "ty \<in> set ColTypes" "CType (Columns meta ! j) = Some ty" "meta_GetColumnTypeById meta (int j) = Ok (Some ty)"
    using wf_metadata_type [OF assms(1) j] by blast
  have "read_cell H ctxt [''DATETIME'', ''TIMESTAMP''] meta t j =
    read_cell H ctxt' [''DATE'', ''TIME'', ''DATETIME'', ''TIMESTAMP''] meta t j"
    using convert_value_table [OF ty(1)] by (simp add: read_cell_def ty(3) deref_def)
  with Cons show ?case by (simp only: read_cells.simps set_simps insert_subset simp_thms)
qed simp

lemma read_answer_agree:
  "read_answer H M ctxt [''DATETIME'', ''TIMESTAMP''] result msg =
   read_answer H M ctxt' [''DATE'', ''TIME'', ''DATETIME'', ''TIMESTAMP''] result msg"
proof -
  have d: "decode_row H ctxt [''DATETIME'', ''TIMESTAMP''] meta = decode_row H ctxt' [''DATE'', ''TIME'', ''DATETIME'', ''TIMESTAMP''] meta"
    if "wf_metadata meta" for meta
    using read_cells_agree [OF that, where js = "[0..<length (Columns meta)]" and ctxt = ctxt and ctxt' = ctxt']
    by (simp add: decode_row_def fun_eq_iff lessThan_atLeast0)
  have r: "read_rows H M ctxt [''DATETIME'', ''TIMESTAMP''] meta n i rows msg =
      read_rows H M ctxt' [''DATE'', ''TIME'', ''DATETIME'', ''TIMESTAMP''] meta n i rows msg"
    if "wf_metadata meta" for meta n i rows msg
    by (induction n arbitrary: i rows msg) (simp_all add: d [OF that])
  then have p: "read_page H M ctxt [''DATETIME'', ''TIMESTAMP''] meta msg = read_page H M ctxt' [''DATE'', ''TIME'', ''DATETIME'', ''TIMESTAMP''] meta msg"
    if "wf_metadata meta" for meta msg
    using that by (simp add: read_page_def)
  have k: "rbind (ReadPartitionAwareness M msg False False) (\<lambda>(pa, msg).
        let result = result\<lparr>Metadata := Some meta\<rparr> in
        if HasRowSet result
        then rmap (\<lambda>(rows, msg). result\<lparr>Rows := rows\<rparr>) (read_page H M ctxt [''DATETIME'', ''TIMESTAMP''] meta msg) else Ok result) =
      rbind (ReadPartitionAwareness M msg False False) (\<lambda>(pa, msg).
        let result = result\<lparr>Metadata := Some meta\<rparr> in
        if HasRowSet result
        then rmap (\<lambda>(rows, msg). result\<lparr>Rows := rows\<rparr>) (read_page H M ctxt' [''DATE'', ''TIME'', ''DATETIME'', ''TIMESTAMP''] meta msg)
        else Ok result)"
    if "NewResultSetMetadataFromReader M msg' = Ok (meta, msg)" for msg' meta msg and result :: query_result
    using p [OF NewResultSetMetadata_wf [OF that]] by (simp add: Let_def ReadPartitionAwareness_def)
  show ?thesis
    unfolding read_answer_def
    by (rule rbind_eqI, clarify, rule rbind_eqI, clarify, rule k)
qed

text \<open>The copies of \<^verbatim>\<open>QuerySQLFields\<close> have the outcome of those of \<^verbatim>\<open>QuerySQL\<close> over the longer list of time types.\<close>

lemma fields_args_eq: "fields_args t i vs = add_args t i vs"
  by (induction vs arbitrary: t i) (auto intro: rbind_eqI)

lemma fields_payload_eq: "fields_payload M data now = query_payload M data now"
  by (simp add: fields_payload_def query_payload_def fields_args_eq)

lemma fields_cell_outcome:
  "outcome (fields_cell H ctxt meta t j r) =
    rmap (Pair r) (read_cell H ctxt [''DATE'', ''TIME'', ''DATETIME'', ''TIMESTAMP''] meta t j)"
proof -
  have v: "outcome (if GoKind ty = reflect_Struct
       then if SQLTypeName ty = ''DECIMAL''
            then (r, case w of VDecimal d \<Rightarrow> rmap (\<lambda>s. (colName, VString s)) (Decimal_String d) | _ \<Rightarrow> Panic BadTypeAssertion)
            else if SQLTypeName ty = ''UUID''
            then (r, case w of VUuid u \<Rightarrow> Ok (colName, VString (uuid_String u)) | _ \<Rightarrow> Panic BadTypeAssertion)
            else if SQLTypeName ty \<in> {''DATE'', ''TIME'', ''DATETIME'', ''TIMESTAMP''}
            then (r, case w of VStdTime t \<Rightarrow> Ok (colName, VString (time_text H t)) | _ \<Rightarrow> Panic BadTypeAssertion)
            else (empty_result, Err (Errorf (''Unsupported column type: '' @ SQLTypeName ty @ '' at '' @ int_text (int j))))
       else (r, Ok (colName, w))) =
     rmap (Pair r) (rmap (Pair colName) (convert_value H [''DATE'', ''TIME'', ''DATETIME'', ''TIMESTAMP''] ty j w))"
    for ty colName w
    unfolding convert_value_def list.set
    by (simp add: outcome_def rmap_rmap split: goval.split)
  show ?thesis
    unfolding fields_cell_def read_cell_def outcome_keep rmap_rbind by (intro rbind_eqI v)
qed

lemma fields_cells_outcome:
  "outcome (fields_cells H ctxt meta t js row r) =
    rmap (Pair r) (read_cells H ctxt [''DATE'', ''TIME'', ''DATETIME'', ''TIMESTAMP''] meta t js row)"
proof (induction js arbitrary: row)
  case (Cons j js)
  show ?case
    by (cases "read_cell H ctxt [''DATE'', ''TIME'', ''DATETIME'', ''TIMESTAMP''] meta t j")
      (auto simp: outcome_case fields_cell_outcome Cons.IH fun_upd_def split: prod.split)
qed simp

lemma fields_rows_outcome:
  "outcome (fields_rows H M ctxt meta n i r msg) =
    rmap (\<lambda>(rows, msg). (r\<lparr>Rows := rows\<rparr>, msg)) (read_rows H M ctxt [''DATE'', ''TIME'', ''DATETIME'', ''TIMESTAMP''] meta n i (Rows r) msg)"
proof (induction n arbitrary: i r msg)
  case (Suc n)
  have row: "outcome (let (r, x) = fields_cells H ctxt meta t [0..<length (Columns meta)] Map.empty r
       in keep r x (\<lambda>row. fields_rows H M ctxt meta n (i + 1) (r\<lparr>Rows := (Rows r)(i \<mapsto> row)\<rparr>) msg)) =
     rbind (read_cells H ctxt [''DATE'', ''TIME'', ''DATETIME'', ''TIMESTAMP''] meta t [0..<length (Columns meta)] Map.empty) (\<lambda>row.
       rmap (\<lambda>(rows, msg). (r\<lparr>Rows := rows\<rparr>, msg))
         (read_rows H M ctxt [''DATE'', ''TIME'', ''DATETIME'', ''TIMESTAMP''] meta n (i + 1) ((Rows r)(i \<mapsto> row)) msg))" for t msg
    by (simp add: Let_def outcome_case fields_cells_outcome rbind_rmap Suc.IH fun_upd_def)
  show ?case
  proof (cases "ReadPackedBytes M msg")
    case (Ok p)
    obtain bytes msg' where p: "p = (bytes, msg')" by fastforce
    show ?thesis
      by (cases "NewTupleFromByteArrayWithMetadata meta bytes")
        (simp_all only: fields_rows.simps read_rows.simps Ok p readq_def readf_def decode_row_def map_err.simps keep_simps rbind.simps
          prod.case outcome_simps rmap.simps row rmap_rbind rbind_assoc)
  qed (simp_all add: readq_def readf_def)
qed simp

lemma fields_page_outcome:
  "outcome (fields_page H M ctxt meta r msg) =
    rmap (\<lambda>(rows, msg). (r\<lparr>Rows := rows\<rparr>, msg)) (read_page H M ctxt [''DATE'', ''TIME'', ''DATETIME'', ''TIMESTAMP''] meta msg)"
  by (simp add: fields_page_def read_page_def Let_def outcome_readq fields_rows_outcome readf_def rmap_rbind split_def)

lemma fields_answer_outcome:
  "rmap fst (outcome (fields_answer H M r msg)) =
    read_answer H M ''failed to get column type parsing rows'' [''DATE'', ''TIME'', ''DATETIME'', ''TIMESTAMP''] r msg"
proof -
  show ?thesis
  proof (cases "outcome (ReadQuerySQLResponseHeader M r msg)")
    case (Ok p)
    obtain r' m where h: "ReadQuerySQLResponseHeader M r msg = (r', Ok m)" using Ok by (cases p) (auto simp: outcome_Ok_iff)
    show ?thesis
      by (cases "NewResultSetMetadataFromReader M m")
        (auto simp: fields_answer_def read_answer_def h Let_def ReadPartitionAwareness_def fields_page_outcome rmap_rmap split_def)
  qed (cases "ReadQuerySQLResponseHeader M r msg"; cases "snd (ReadQuerySQLResponseHeader M r msg)";
       auto simp: fields_answer_def read_answer_def)+
qed

lemma query_copies_agree:
  "case (QuerySQL H M c query now rep, QuerySQLFields H M c query now rep) of ((c1, r1, x1), (c2, r2, x2)) \<Rightarrow>
     c1 = c2 \<and> x1 = x2 \<and> (case x1 of Ok _ \<Rightarrow> r1 = r2 | Err _ \<Rightarrow> r1 = empty_result | Panic _ \<Rightarrow> True)"
proof -
  have a: "rmap fst (outcome (fields_answer H M r msg)) =
      read_answer H M ''failed to get column type'' [''DATETIME'', ''TIMESTAMP''] r msg" for r msg
    unfolding fields_answer_outcome by (rule read_answer_agree [symmetric])
  have "case read_answer H M ''failed to get column type'' [''DATETIME'', ''TIMESTAMP''] r msg of
      Ok q \<Rightarrow> (\<exists>m. fields_answer H M r msg = (q, Ok m))
    | Err e \<Rightarrow> (\<exists>q. fields_answer H M r msg = (q, Err e))
    | Panic e \<Rightarrow> (\<exists>q. fields_answer H M r msg = (q, Panic e))" for r msg
  proof -
    obtain q y where f: "fields_answer H M r msg = (q, y)" by fastforce
    show ?thesis by (cases y) (simp_all add: f flip: a)
  qed
  note agree = this
  show ?thesis
  proof (cases "query_payload M query now")
    case (Ok payload)
    obtain c' x where o: "operate M c OpSqlExecute payload ''failed to execute SQL_EXECUTE operation'' rep = (c', x)" by fastforce
    show ?thesis
    proof (cases x)
      case x: (Ok res)
      show ?thesis
        using agree [of "empty_result\<lparr>ResponseId := ro_RequestId res\<rparr>" "ro_message res"]
        by (auto simp: QuerySQL_def QuerySQLFields_def QuerySQLFieldsRaw_def fields_payload_eq Ok o x split: res.splits prod.splits)
    qed (simp_all add: QuerySQL_def QuerySQLFields_def QuerySQLFieldsRaw_def fields_payload_eq Ok o)
  qed (simp_all add: QuerySQL_def QuerySQLFields_def QuerySQLFieldsRaw_def fields_payload_eq)
qed

context msgpack_codec
begin

lemma fields_answer_enc:
  assumes "wf_described [] ds" "length ds < 2 ^ 63" "\<forall>b \<in> set outs. length b < 2 ^ 32" "length outs < 2 ^ 63"
    "mapR (decode_row H ''failed to get column type parsing rows'' [''DATE'', ''TIME'', ''DATETIME'', ''TIMESTAMP'']
      \<lparr>Columns = map fst ds\<rparr>) outs = Ok rs"
  shows "\<exists>m. fields_answer H M result (enc_answer M q ds outs) =
    (result\<lparr>ResourceId := ResourceId q, HasRowSet := HasRowSet q, HasMore := HasMore q, wasApplied := wasApplied q,
            AffectedRows := AffectedRows q, Metadata := Some \<lparr>Columns = map fst ds\<rparr>,
            Rows := if HasRowSet q then page_rows rs else Rows result\<rparr>, Ok m)"
  using read_answer_enc [OF assms, of result q] fields_answer_outcome [of H M result "enc_answer M q ds outs"]
  by (auto simp: outcome_Ok_iff)

end

subsection \<open>Rows that were written as binary tuples\<close>

text \<open>The value of column \<open>j\<close> as the row loop stores it.\<close>

definition selected_value :: "host \<Rightarrow> string list \<Rightarrow> bt_column list \<Rightarrow> goval list \<Rightarrow> result_metadata \<Rightarrow> nat \<Rightarrow> goval res" where
  "selected_value H timeTypes cols vals meta j =
     rbind (deref (CType (Columns meta ! j))) (\<lambda>t.
     rbind (read_column H cols vals meta j (TypeId t)) (convert_value H timeTypes t j))"

definition origin_names :: "result_metadata \<Rightarrow> string list" where
  "origin_names meta = map (\<lambda>c. case Origin c of Some org \<Rightarrow> Column org | None \<Rightarrow> []) (Columns meta)"

text \<open>The metadata describes the columns, and every column has an origin.\<close>

definition describes_all :: "result_metadata \<Rightarrow> bt_column list \<Rightarrow> bool" where
  "describes_all meta cols \<longleftrightarrow>
     wf_metadata meta \<and> length (Columns meta) = length cols \<and> list_all (\<lambda>c. Origin c \<noteq> None) (Columns meta)"

lemma built_tuple_reads:
  assumes "BuildBinaryTuple H cols vals = Ok out" "describes_all meta cols"
  obtains t where "NewTupleFromByteArrayWithMetadata meta out = Ok t"
    "\<And>j ty. GetValue (local_offset H) t (int j) ty = read_column H cols vals meta j ty"
proof -
  obtain es where es: "list_all2 (\<lambda>cv e. bt_element H (fst cv) (snd cv) = Ok e) (zip cols vals) es"
    "length (concat es) \<le> 2 ^ 31 - 1" "out = bt_layout es" "length cols = length vals"
    using assms(1) by (auto simp: BuildBinaryTuple_Ok_iff)
  have l: "length (Columns meta) = length es"
    using es(4) list_all2_lengthD [OF es(1)] assms(2) by (simp add: describes_all_def)
  have "CType (Columns meta ! j) = Some (the (CType (Columns meta ! j)))" if "j < length es" for j
    using assms(2) l that by (auto simp: describes_all_def wf_metadata_def dest!: bspec [OF _ nth_mem])
  then obtain t where t: "NewTupleFromByteArrayWithMetadata meta out = Ok t"
    using NewTuple_layout [OF l es(2), of "\<lambda>j. the (CType (Columns meta ! j))"] es(3) by auto
  show ?thesis by (rule that [OF t]) (simp add: read_column_def assms(1) t)
qed

lemma origin_name_lookup:
  assumes "describes_all meta cols" "j < length cols"
  shows "GetColumnOriginNameById meta (int j) = Ok (origin_names meta ! j)"
  using assms
  by (auto simp: describes_all_def wf_metadata_def GetColumnOriginNameById_def first_match_indexed origin_names_def
      deref_def list_all_length)

lemma read_cell_selected:
  assumes "describes_all meta cols" "j < length cols"
    and "\<And>ty. GetValue (local_offset H) t (int j) ty = read_column H cols vals meta j ty"
  shows "selected_value H timeTypes cols vals meta j = Ok w \<Longrightarrow>
      read_cell H ctxt timeTypes meta t j = Ok (origin_names meta ! j, w)"
    and "selected_value H timeTypes cols vals meta j = Panic p \<Longrightarrow> read_cell H ctxt timeTypes meta t j = Panic p"
proof -
  have m: "wf_metadata meta" "j < length (Columns meta)" using assms(1,2) by (simp_all add: describes_all_def)
  then obtain ty where ty: "CType (Columns meta ! j) = Some ty" "meta_GetColumnTypeById meta (int j) = Ok (Some ty)"
    by (rule wf_metadata_type)
  have c: "read_cell H ctxt timeTypes meta t j =
      rbind (wrap_err (''failed to parse column '' @ int_text (int j)) (read_column H cols vals meta j (TypeId ty))) (\<lambda>v.
        rmap (\<lambda>v. (origin_names meta ! j, v)) (convert_value H timeTypes ty j v))"
    using ty origin_name_lookup [OF assms(1,2)] assms(3) by (simp add: read_cell_def deref_def)
  show "selected_value H timeTypes cols vals meta j = Ok w \<Longrightarrow>
      read_cell H ctxt timeTypes meta t j = Ok (origin_names meta ! j, w)"
    unfolding c using ty by (auto simp: selected_value_def deref_def)
  show "selected_value H timeTypes cols vals meta j = Panic p \<Longrightarrow> read_cell H ctxt timeTypes meta t j = Panic p"
    unfolding c using ty
    by (cases "read_column H cols vals meta j (TypeId ty)") (auto simp: selected_value_def deref_def)
qed

lemma read_cells_selected:
  assumes "describes_all meta cols" "set js \<subseteq> {..<length cols}"
    and "\<And>j ty. GetValue (local_offset H) t (int j) ty = read_column H cols vals meta j ty"
    and "\<And>j. j \<in> set js \<Longrightarrow> selected_value H timeTypes cols vals meta j = Ok (ws ! j)"
  shows "read_cells H ctxt timeTypes meta t (js @ ks) row =
    read_cells H ctxt timeTypes meta t ks (row ++ map_of (rev (map (\<lambda>j. (origin_names meta ! j, ws ! j)) js)))"
  using assms(2,4)
proof (induction js arbitrary: row)
  case (Cons j js)
  have "read_cell H ctxt timeTypes meta t j = Ok (origin_names meta ! j, ws ! j)"
    using Cons.prems by (intro read_cell_selected(1) [OF assms(1) _ assms(3)]) simp_all
  with Cons show ?case by simp
qed simp

subsection \<open>Arguments\<close>

lemma add_args_Ok_iff: "add_args t i vals = Ok t' \<longleftrightarrow> AddValues t vals = Ok t'"
  by (induction vals arbitrary: t i) auto

lemma add_args_first_error:
  assumes "AddValues t (take k vals) = Ok t1" "k < length vals" "AddValue t1 (vals ! k) = Err e"
  shows "add_args t i vals = Err (Wrapf e (''failed to encode args '' @ int_text (int (i + k))))"
  using assms
proof (induction vals arbitrary: t i k)
  case (Cons v vals)
  show ?case
  proof (cases k)
    case 0
    with Cons.prems show ?thesis by simp
  next
    case (Suc m)
    then obtain t2 where "AddValue t v = Ok t2" "AddValues t2 (take m vals) = Ok t1" using Cons.prems(1) by auto
    with Cons.IH [of t2 m "i + 1"] Suc Cons.prems(2,3) show ?thesis by simp
  qed
qed simp

text \<open>A table with one INT column, and one row of it, for the examples.\<close>

definition sample_result_table :: result_metadata where
  "sample_result_table = \<lparr>Columns = [sample_result_column ''A'' 0 4]\<rparr>"

definition sample_query :: query_data where
  "sample_query = \<lparr>qd_Schema = [], PageSize = 10, Query = ''Q'', QueryArgs = [], Timeout = 0\<rparr>"

definition sample_payload :: "byte list" where
  "sample_payload = (case query_payload ref_codec sample_query epoch of Ok p \<Rightarrow> p | _ \<Rightarrow> [])"

definition sample_result :: query_result where
  "sample_result = empty_result\<lparr>HasRowSet := True\<rparr>"

lemma sample_query_payload: "query_payload ref_codec sample_query epoch = Ok sample_payload"
  by (simp add: sample_payload_def query_payload_def sample_query_def Let_def)

lemma sample_described: "wf_described [] [(sample_result_column ''A'' 0 4, None, None)]"
  by (simp add: wf_result_column_def sample_result_column_def ref_ok_def int_in_def) (simp add: ColTypes_def)

lemma sample_reply_length:
  "length (reply_payload ref_codec (RequestId sample_client) 0 epoch epoch
     (enc_answer ref_codec sample_result [(sample_result_column ''A'' 0 4, None, None)] [[0, 1, 5]])) < 2 ^ 31"
  by (simp add: enc_answer_def enc_header_def enc_metadata_def enc_result_column_def enc_origin_def enc_origin_name_def
      enc_rows_def enc_bool_def sample_result_def empty_result_def sample_result_column_def sample_client_def sample_simps
      ColTypes_def)

lemma sample_selected_row:
  "decode_row H ctxt tts sample_result_table [0, 1, 5] = Ok [''A'' \<mapsto> VInt32 5]"
  by (simp add: sample_result_table_def decode_row_def NewTupleFromByteArrayWithMetadata_def headerSize_def fromHeader_def read_element_def entryOffset_def
      sample_result_column_def ColTypes_def wrap_def deref_def Let_def index_at_def slice_of_def upt_rec strip_marker_def
      read_cell_def meta_GetColumnTypeById_def GetColumnOriginNameById_def first_match_def GetValue_def element_value_def
      expandIntValue_def decodeBigEndianTwosComplement_def convert_value_def)

lemma sample_describes: "describes_all sample_result_table [\<lparr>Kind = BtInt32, ColScale = 0\<rparr>]"
  by (simp add: describes_all_def wf_metadata_def indexed_def sample_result_table_def sample_result_column_def) (simp add: ColTypes_def)

subsection \<open>Properties\<close>

text \<open>C9: \<^verbatim>\<open>QuerySQL\<close> and \<^verbatim>\<open>QuerySQLFields\<close>, two copies of the same code, are the same operation: for every client,
  query, time and answer they leave the client the same, having sent the same bytes, and end the same way; when they
  succeed they give the same result, although only one of them lists DATE and TIME among the time types: those columns
  never reach that switch. They differ in what they return beside an error: \<^verbatim>\<open>QuerySQL\<close> an empty result.\<close>

theorem QuerySQL_is_QuerySQLFields:
  "case (QuerySQL H M c query now rep, QuerySQLFields H M c query now rep) of ((c1, r1, x1), (c2, r2, x2)) \<Rightarrow>
     c1 = c2 \<and> x1 = x2 \<and> (case x1 of Ok _ \<Rightarrow> r1 = r2 | Err _ \<Rightarrow> r1 = empty_result | Panic _ \<Rightarrow> True)"
  by (rule query_copies_agree)

text \<open>C4: A query that can be encoded and is answered without flags, with rows that can be decoded, completes: one request is sent, with the id the answer must carry,
  and the result is the answer's header, the metadata, and, under the numbers 0, 1, 2, \<dots>, the rows of the page decoded
  one by one; there are none when the answer has no row set.\<close>

theorem query_completes:
  assumes "msgpack_codec M" and "conn c" and "query_payload M query now = Ok payload" and "short_time ts"
    and "wf_described [] ds" and "length ds < 2 ^ 63" and "\<forall>b \<in> set outs. length b < 2 ^ 32" and "length outs < 2 ^ 63"
    and "length (reply_payload M (RequestId c) 0 ts ts (enc_answer M q ds outs)) < 2 ^ 31"
    and "mapR (decode_row H ''failed to get column type'' [''DATETIME'', ''TIMESTAMP''] \<lparr>Columns = map fst ds\<rparr>) outs = Ok rs"
  shows "QuerySQL H M c query now (Arrives (frame (reply_payload M (RequestId c) 0 ts ts (enc_answer M q ds outs)))) =
    (c\<lparr>RequestId := RequestId c + 1, sent := sent c @ [RequestOperation_WriteTo M OpSqlExecute (RequestId c) payload]\<rparr>,
     \<lparr>ResponseId = RequestId c, ResourceId = ResourceId q, Metadata = Some \<lparr>Columns = map fst ds\<rparr>,
      HasRowSet = HasRowSet q, wasApplied = wasApplied q, AffectedRows = AffectedRows q,
      Rows = (if HasRowSet q then page_rows rs else Map.empty), HasMore = HasMore q\<rparr>, Ok ())"
  using msgpack_codec.operate_success [OF assms(1,2,4,4) _ assms(9), of OpSqlExecute payload]
    msgpack_codec.read_answer_enc [OF assms(1,5-8,10), of _ q]
  by (simp add: QuerySQL_def assms(3) empty_result_def NewResponseOperation_def)

text \<open>A row stored as a binary tuple is selected column by column: under each column's name the row holds what the
  tuple reader gives for that column (so the round trips of the column types apply), as text for the decimal, UUID
  and time types.\<close>

theorem stored_row_selected:
  assumes "BuildBinaryTuple H cols vals = Ok out" and "describes_all meta cols" and "distinct (origin_names meta)"
    and "length ws = length cols"
    and "\<And>j. j < length cols \<Longrightarrow> selected_value H timeTypes cols vals meta j = Ok (ws ! j)"
  shows "decode_row H ctxt timeTypes meta out = Ok (map_of (zip (origin_names meta) ws))"
proof -
  obtain t where t: "NewTupleFromByteArrayWithMetadata meta out = Ok t"
    "\<And>j ty. GetValue (local_offset H) t (int j) ty = read_column H cols vals meta j ty"
    using built_tuple_reads [OF assms(1,2)] by blast
  have n: "length (Columns meta) = length cols" "length (origin_names meta) = length cols"
    using assms(2) by (simp_all add: describes_all_def origin_names_def)
  have "read_cells H ctxt timeTypes meta t ([0..<length cols] @ []) Map.empty =
    read_cells H ctxt timeTypes meta t [] (Map.empty ++ map_of (rev (map (\<lambda>j. (origin_names meta ! j, ws ! j)) [0..<length cols])))"
    by (rule read_cells_selected [OF assms(2) _ t(2)]) (simp_all add: assms(5) lessThan_atLeast0)
  moreover have "map (\<lambda>j. (origin_names meta ! j, ws ! j)) [0..<length cols] = zip (origin_names meta) ws"
    using n assms(4) by (intro nth_equalityI) simp_all
  moreover have "map_of (rev (zip (origin_names meta) ws)) = map_of (zip (origin_names meta) ws)"
    using assms(3,4) n by (intro map_of_inject_set [THEN iffD2]) (simp_all add: rev_map [symmetric])
  ultimately show ?thesis using t(1) n by (simp add: decode_row_def)
qed

text \<open>C30: A NULL in a DECIMAL, UUID, DATETIME or TIMESTAMP column cannot be selected: reading its row, once
  the columns before it have been read, panics on the type assertion.\<close>

theorem null_column_panics:
  assumes "BuildBinaryTuple H cols vals = Ok out" and "describes_all meta cols"
    and "j < length cols" and "vals ! j = VNil"
    and "map_option TypeId (CType (Columns meta ! j)) \<in> {Some 8, Some 11, Some 12, Some 13}"
    and "\<And>i. i < j \<Longrightarrow> selected_value H [''DATETIME'', ''TIMESTAMP''] cols vals meta i = Ok (ws ! i)"
  shows "decode_row H ctxt [''DATETIME'', ''TIMESTAMP''] meta out = Panic BadTypeAssertion"
proof -
  obtain t where t: "NewTupleFromByteArrayWithMetadata meta out = Ok t"
    "\<And>j ty. GetValue (local_offset H) t (int j) ty = read_column H cols vals meta j ty"
    using built_tuple_reads [OF assms(1,2)] by blast
  have n: "length (Columns meta) = length cols" using assms(2) by (simp add: describes_all_def)
  obtain ty where ty: "ty \<in> set ColTypes" "CType (Columns meta ! j) = Some ty"
    using assms(2,3) n by (auto simp: describes_all_def wf_metadata_def dest!: bspec [OF _ nth_mem])
  have d: "describes meta cols j (TypeId ty)"
    using assms(2,3,5) n ty by (auto simp: describes_def describes_all_def wf_metadata_def list_all_iff)
  obtain e v where ev: "bt_element H (cols ! j) (vals ! j) = Ok e"
    "read_column H cols vals meta j (TypeId ty) = (if stored (TypeId ty) e = [] then Ok VNil else element_value (local_offset H) v (TypeId ty))"
    using read_column_eq [OF assms(1) d] by metis
  then have "read_column H cols vals meta j (TypeId ty) = Ok VNil" using assms(4) by (simp add: stored_Nil_iff)
  then have "selected_value H [''DATETIME'', ''TIMESTAMP''] cols vals meta j = Panic BadTypeAssertion"
    using ty assms(5) by (auto simp: selected_value_def deref_def convert_value_def ColTypes_def)
  then have p: "read_cell H ctxt [''DATETIME'', ''TIMESTAMP''] meta t j = Panic BadTypeAssertion"
    by (rule read_cell_selected(2) [OF assms(2,3) t(2)])
  have "[0..<length cols] = [0..<j] @ j # [Suc j..<length cols]" 
    using upt_add_eq_append [of 0 j "length cols - j"] assms(3) by (simp add: upt_conv_Cons)
  moreover have "read_cells H ctxt [''DATETIME'', ''TIMESTAMP''] meta t ([0..<j] @ j # [Suc j..<length cols]) Map.empty = Panic BadTypeAssertion"
    using assms(3,6) by (subst read_cells_selected [OF assms(2) _ t(2)]) (auto simp: p)
  ultimately show ?thesis using t(1) n by (simp add: decode_row_def)
qed

text \<open>C29: An argument that cannot be encoded stops the query before anything is sent, and the error names its
  position.\<close>

theorem bad_argument_sends_nothing:
  assumes "AddValues empty_tuple (take k (QueryArgs query)) = Ok t" and "k < length (QueryArgs query)"
    and "AddValue t (QueryArgs query ! k) = Err e"
  shows "QuerySQL H M c query now rep = (c, empty_result, Err (Wrapf e (''failed to encode args '' @ int_text (int k))))"
  using add_args_first_error [OF assms, of 0] assms(2)
  by (cases "QueryArgs query") (auto simp: QuerySQL_def query_payload_def Let_def)

text \<open>The next page of a cursor is requested with the cursor's id alone, and its rows and its flag are returned as
  the server sent them.\<close>

theorem cursor_page_completes:
  assumes "msgpack_codec M" and "conn c" and "short_time ts"
    and "\<forall>b \<in> set outs. length b < 2 ^ 32" and "length outs < 2 ^ 63"
    and "length (reply_payload M (RequestId c) 0 ts ts (enc_rows M outs @ enc_bool hasMore)) < 2 ^ 31"
    and "mapR (decode_row H ''failed to get column type'' [''DATE'', ''TIME'', ''DATETIME'', ''TIMESTAMP''] meta) outs = Ok rs"
  shows "QuerySQLCursorGetPage H M c cursor meta
      (Arrives (frame (reply_payload M (RequestId c) 0 ts ts (enc_rows M outs @ enc_bool hasMore)))) =
    (c\<lparr>RequestId := RequestId c + 1,
       sent := sent c @ [RequestOperation_WriteTo M OpSqlCursorNextPage (RequestId c) (WritePackedInt64 M cursor)]\<rparr>,
     empty_result\<lparr>ResourceId := cursor, Rows := page_rows rs, HasMore := hasMore\<rparr>, Ok ())"
proof -
  have p: "fields_page H M ''failed to get column type'' meta r (enc_rows M outs @ enc_bool hasMore) =
      (r\<lparr>Rows := page_rows rs\<rparr>, Ok (enc_bool hasMore))" for r
    using msgpack_codec.read_page_enc [OF assms(1,4,5), of H "''failed to get column type''" _ meta "enc_bool hasMore"] assms(7)
    by (simp add: fields_page_outcome flip: outcome_Ok_iff)
  show ?thesis
    using msgpack_codec.operate_success [OF assms(1,2,3,3) _ assms(6), of OpSqlCursorNextPage "WritePackedInt64 M cursor"]
      msgpack_codec.read_enc_bool [OF assms(1), of hasMore "[]"]
    by (simp add: QuerySQLCursorGetPage_def Let_def p readq_def)
qed


text \<open>Closing a cursor does not say which one: the request is the same for every cursor id but 0, and for 0
  nothing is sent.\<close>

theorem ResourceClose_ignores_id:
  assumes "i \<noteq> 0" and "j \<noteq> 0"
  shows "ResourceClose M c i rep = ResourceClose M c j rep \<and> ResourceClose M c 0 rep = (c, Ok ())"
  using assms by (simp add: ResourceClose_def)

theorem ResourceClose_ignores_id_witness:
  "ResourceClose ref_codec sample_client 5 (Arrives []) = ResourceClose ref_codec sample_client 6 (Arrives []) \<and>
   ResourceClose ref_codec sample_client 0 (Arrives []) = (sample_client, Ok ())"
  by (rule ResourceClose_ignores_id) simp_all

theorem query_completes_witness:
  "QuerySQL exact_host ref_codec sample_client sample_query epoch
     (Arrives (frame (reply_payload ref_codec (RequestId sample_client) 0 epoch epoch
       (enc_answer ref_codec sample_result [(sample_result_column ''A'' 0 4, None, None)] [[0, 1, 5]])))) =
   (sample_client\<lparr>RequestId := RequestId sample_client + 1,
      sent := sent sample_client @ [RequestOperation_WriteTo ref_codec OpSqlExecute (RequestId sample_client) sample_payload]\<rparr>,
    \<lparr>ResponseId = RequestId sample_client, ResourceId = ResourceId sample_result,
        Metadata = Some \<lparr>Columns = map fst [(sample_result_column ''A'' 0 4, None :: nat option, None :: nat option)]\<rparr>,
        HasRowSet = HasRowSet sample_result, wasApplied = wasApplied sample_result, AffectedRows = AffectedRows sample_result,
        Rows = (if HasRowSet sample_result then page_rows [[''A'' \<mapsto> VInt32 5]] else Map.empty), HasMore = HasMore sample_result\<rparr>, Ok ())"
proof (rule query_completes [OF ref.msgpack_codec_axioms _ sample_query_payload short_epoch sample_described _ _ _ sample_reply_length])
  show "mapR (decode_row exact_host ''failed to get column type'' [''DATETIME'', ''TIMESTAMP'']
      \<lparr>Columns = map fst [(sample_result_column ''A'' 0 4, None :: nat option, None :: nat option)]\<rparr>) [[0, 1, 5]] = Ok [[''A'' \<mapsto> VInt32 5]]"
    using sample_selected_row by (simp add: sample_result_table_def)
qed (simp_all add: sample_client_def)

theorem stored_row_selected_witness:
  "decode_row exact_host ''ctx'' [] sample_result_table [0, 1, 5] = Ok (map_of (zip (origin_names sample_result_table) [VInt32 5]))"
proof (rule stored_row_selected [OF _ sample_describes, where vals = "[VInt 5]"])
  show b: "BuildBinaryTuple exact_host [\<lparr>Kind = BtInt32, ColScale = 0\<rparr>] [VInt 5] = Ok [0, 1, 5]"
    by (simp add: build_simps toInt64_def putBinaryTupleInt_bytes int_in_def)
  show "selected_value exact_host [] [\<lparr>Kind = BtInt32, ColScale = 0\<rparr>] [VInt 5] sample_result_table j = Ok ([VInt32 5] ! j)"
    if "j < length [\<lparr>Kind = BtInt32, ColScale = 0\<rparr>]" for j
    using that b
    by (simp add: selected_value_def read_column_def sample_result_table_def sample_result_column_def ColTypes_def
        NewTupleFromByteArrayWithMetadata_def headerSize_def fromHeader_def read_element_def entryOffset_def wrap_def deref_def
        Let_def index_at_def slice_of_def upt_rec strip_marker_def GetValue_def element_value_def expandIntValue_def decodeBigEndianTwosComplement_def convert_value_def)
qed (simp_all add: origin_names_def sample_result_table_def sample_result_column_def)

theorem null_column_panics_witness:
  "decode_row exact_host ''ctx'' [''DATETIME'', ''TIMESTAMP''] \<lparr>Columns = [sample_result_column ''D'' 0 8]\<rparr> [0, 0] = Panic BadTypeAssertion"
proof (rule null_column_panics [where cols = "[\<lparr>Kind = BtDecimal, ColScale = 0\<rparr>]" and vals = "[VNil]" and j = 0])
  show "describes_all \<lparr>Columns = [sample_result_column ''D'' 0 8]\<rparr> [\<lparr>Kind = BtDecimal, ColScale = 0\<rparr>]"
    by (simp add: describes_all_def wf_metadata_def indexed_def sample_result_column_def) (simp add: ColTypes_def)
qed (simp_all add: build_simps sample_result_column_def ColTypes_def)

theorem bad_argument_sends_nothing_witness:
  "QuerySQL exact_host ref_codec sample_client (sample_query\<lparr>QueryArgs := [VBool True, VOther ''x'']\<rparr>) epoch (Arrives []) =
   (sample_client, empty_result, Err (Wrapf (Errorf ''Unsupported type: x'') (''failed to encode args '' @ int_text (int 1))))"
  by (rule bad_argument_sends_nothing [where t = "addTsv empty_tuple (mk_tsv 1 0 [1])"]) (simp_all add: AddValue_def set_defs)

theorem cursor_page_completes_witness:
  "QuerySQLCursorGetPage exact_host ref_codec sample_client 7 sample_result_table
     (Arrives (frame (reply_payload ref_codec (RequestId sample_client) 0 epoch epoch (enc_rows ref_codec [[0, 1, 5]] @ enc_bool True)))) =
   (sample_client\<lparr>RequestId := RequestId sample_client + 1,
      sent := sent sample_client @ [RequestOperation_WriteTo ref_codec OpSqlCursorNextPage (RequestId sample_client) (WritePackedInt64 ref_codec 7)]\<rparr>,
    empty_result\<lparr>ResourceId := 7, Rows := page_rows [[''A'' \<mapsto> VInt32 5]], HasMore := True\<rparr>, Ok ())"
proof (rule cursor_page_completes [OF ref.msgpack_codec_axioms _ short_epoch])
  show "length (reply_payload ref_codec (RequestId sample_client) 0 epoch epoch (enc_rows ref_codec [[0, 1, 5]] @ enc_bool True)) < 2 ^ 31"
    by (simp add: enc_rows_def enc_bool_def sample_client_def sample_simps)
qed (simp_all add: sample_client_def sample_selected_row)

end
