(* ===== verification/SqlConn.thy ===== *)
theory SqlConn
  imports Queries
begin

text \<open>
  The connection, statements, results and rows of the database/sql driver (sql/v1). A connection holds the client, if it
  is still open; statements and rows refer to their connection, so their operations take it and return it. The text of
  \<^verbatim>\<open>driver.ErrBadConn\<close> and \<^verbatim>\<open>io.EOF\<close> is the standard library's. After a failed read database/sql closes the rows, so
  what is left of the message then is not kept. \<open>sorter\<close> is \<^verbatim>\<open>sort.Slice\<close>, given the comparison the code gives it.
\<close>

subsection \<open>Connection\<close>

record sql_info = conn_info +
  URL :: string
  Network :: string
  Host :: string
  Port :: int
  TLSConfig :: "bool option"
  Cache :: string
  si_Schema :: string
  si_PageSize :: "64 word"
  si_Timeout :: "64 word"

text \<open>\<open>released\<close> is not a field of the code's struct: it is the client, as \<^verbatim>\<open>Close\<close> left it, that the connection no
  longer refers to.\<close>

record sql_conn =
  info :: sql_info
  sql_client :: "client option"
  released :: "client option"

definition ErrBadConn :: gerror where
  "ErrBadConn = GoError ''driver: bad connection''"

definition isConnected :: "sql_conn \<Rightarrow> bool" where
  "isConnected c = (case sql_client c of None \<Rightarrow> False | Some cl \<Rightarrow> Connected cl)"

text \<open>An operation of the connection's client, when it is connected.\<close>

definition with_client :: "sql_conn \<Rightarrow> (client \<Rightarrow> client \<times> 'a res) \<Rightarrow> sql_conn \<times> 'a res" where
  "with_client c f =
     (case sql_client c of
        None \<Rightarrow> (c, Err ErrBadConn)
      | Some cl \<Rightarrow> if \<not> Connected cl then (c, Err ErrBadConn)
                   else let (cl, r) = f cl in (c\<lparr>sql_client := Some cl\<rparr>, r))"

definition resourceClose :: "msgpack \<Rightarrow> sql_conn \<Rightarrow> 64 word \<Rightarrow> reply \<Rightarrow> sql_conn \<times> unit res" where
  "resourceClose M c i rep = with_client c (\<lambda>cl. ResourceClose M cl i rep)"

definition conn_Close :: "sql_conn \<Rightarrow> gerror option \<Rightarrow> sql_conn \<times> gerror option" where
  "conn_Close c e =
     (case sql_client c of
        None \<Rightarrow> (c, None)
      | Some cl \<Rightarrow> let (cl, e) = Close cl e in (c\<lparr>sql_client := None, released := Some cl\<rparr>, e))"

definition connFinalizer :: "sql_conn \<Rightarrow> gerror option \<Rightarrow> sql_conn" where
  "connFinalizer c e = (if isConnected c then fst (conn_Close c e) else c)"

definition Begin :: "sql_conn \<Rightarrow> unit res" where
  "Begin c = Err (Errorf0 ''Transactions are currently not supported by Ignite3 driver'')"

definition CheckNamedValue :: "sql_conn \<Rightarrow> goval \<Rightarrow> gerror option" where
  "CheckNamedValue c val = None"

text \<open>\<^verbatim>\<open>Connect\<close>: the client's error is rendered with \%v. The client is what is left of it after a failure.\<close>

definition v1_Connect :: "host \<Rightarrow> msgpack \<Rightarrow> ((string \<times> string) list \<Rightarrow> (string \<times> string) list) \<Rightarrow> sql_info \<Rightarrow>
    gerror option \<Rightarrow> reply \<Rightarrow> client \<times> sql_conn res" where
  "v1_Connect H M iter ci dial rep =
     (let (cl, r) = Connect H M iter (conn_info.truncate ci) dial rep
      in (cl, case r of
                Ok cl' \<Rightarrow> Ok \<lparr>info = ci, sql_client = Some cl', released = None\<rparr>
              | Err e \<Rightarrow> Err (GoError (''failed to create client: '' @ err_text e))
              | Panic p \<Rightarrow> Panic p))"

text \<open>\<^verbatim>\<open>QuerySQLFieldsCursorGetPageRaw\<close> is declared by the interface \<^verbatim>\<open>Client\<close> but not implemented by \<^verbatim>\<open>*client\<close>: the call
  goes to the nil interface the struct embeds.\<close>

definition QuerySQLFieldsCursorGetPageRaw :: "client \<Rightarrow> 64 word \<Rightarrow> client \<times> response_operation res" where
  "QuerySQLFieldsCursorGetPageRaw cl i = (cl, Panic NilDereference)"

definition QueryNexPageContext :: "sql_conn \<Rightarrow> 64 word \<Rightarrow> sql_conn \<times> response_operation res" where
  "QueryNexPageContext c cursorID = with_client c (\<lambda>cl. QuerySQLFieldsCursorGetPageRaw cl cursorID)"

subsection \<open>Rows\<close>

record sql_column =
  sc_name :: string
  sqlType :: string

record sql_rows =
  rw_message :: "byte list"
  rw_metadata :: result_metadata
  rw_id :: "64 word"
  rw_fields :: "sql_column list"
  rowsLeft :: int
  hasMore :: bool

definition rows_Columns :: "sql_rows \<Rightarrow> string list" where
  "rows_Columns r = map sc_name (rw_fields r)"

definition ColumnTypeDatabaseTypeName :: "sql_rows \<Rightarrow> int \<Rightarrow> string res" where
  "ColumnTypeDatabaseTypeName r i = rmap sqlType (index_at (rw_fields r) i)"

definition newRows :: "msgpack \<Rightarrow> response_operation \<Rightarrow> sql_rows res" where
  "newRows M response =
     rbind (outcome (ReadQuerySQLResponseHeader M empty_result (ro_message response))) (\<lambda>(result, msg).
     rbind (NewResultSetMetadataFromReader M msg) (\<lambda>(meta, msg).
     rbind (mapR (\<lambda>c. rmap (\<lambda>t. \<lparr>sc_name = Name c, sqlType = SQLTypeName t\<rparr>) (deref (CType c))) (Columns meta)) (\<lambda>fields.
     let rs = (\<lambda>rowCount msg. Ok \<lparr>rw_message = msg, rw_metadata = meta, rw_id = ResponseId result, rw_fields = fields,
                                  rowsLeft = rowCount, hasMore = HasMore result\<rparr>)
     in if HasRowSet result
        then readf ''failed to read row count'' (ReadPackedInt64 M) msg (\<lambda>rowCount msg. rs (sint rowCount) msg)
        else rs 0 msg)))"

definition rows_Close :: "msgpack \<Rightarrow> sql_conn \<Rightarrow> sql_rows \<Rightarrow> reply \<Rightarrow> sql_conn \<times> sql_rows \<times> unit res" where
  "rows_Close M c r rep =
     (if 0 < rowsLeft r
      then let r = r\<lparr>rowsLeft := 0\<rparr>; (c, e) = resourceClose M c (rw_id r) rep in (c, r, e)
      else (c, r, Ok ()))"

definition rowsFinalizer :: "msgpack \<Rightarrow> sql_conn \<Rightarrow> sql_rows \<Rightarrow> reply \<Rightarrow> sql_conn \<times> sql_rows" where
  "rowsFinalizer M c r rep =
     (if 0 < rowsLeft r then let (c, r, _) = rows_Close M c r rep in (c, r) else (c, r))"

text \<open>The values of one row, in the order of the columns.\<close>

definition read_value :: "host \<Rightarrow> result_metadata \<Rightarrow> tuple \<Rightarrow> nat \<Rightarrow> goval res" where
  "read_value H meta t i =
     rbind (wrap_err ''failed to get column type parsing rows'' (meta_GetColumnTypeById meta (int i))) (\<lambda>ctype.
     rbind (deref ctype) (\<lambda>ctype.
     rbind (wrap_err (''failed to parse column '' @ int_text (int i)) (GetValue (local_offset H) t (int i) (TypeId ctype))) (\<lambda>value.
       convert_value H [''DATETIME'', ''TIMESTAMP''] ctype i value)))"

definition read_row :: "host \<Rightarrow> result_metadata \<Rightarrow> byte list \<Rightarrow> goval list res" where
  "read_row H meta bytes =
     rbind (wrap_err ''failed to parse row tuple'' (NewTupleFromByteArrayWithMetadata meta bytes)) (\<lambda>t.
       mapR (read_value H meta t) [0..<length (Columns meta)])"

text \<open>One row of a page that is at hand, into a destination of \<open>n\<close> values.\<close>

definition next_row :: "host \<Rightarrow> msgpack \<Rightarrow> sql_rows \<Rightarrow> nat \<Rightarrow> sql_rows \<times> goval list res" where
  "next_row H M r n =
     (if length (rw_fields r) \<noteq> n
      then (r, Err (Errorf (''destination slice size must be '' @ int_text (int (length (rw_fields r))) @ '' but got '' @ int_text (int n))))
      else case wrap_err ''failed to read row tuple'' (ReadPackedBytes M (rw_message r)) of
             Ok (bytes, msg) \<Rightarrow>
               let r = r\<lparr>rw_message := msg\<rparr>
               in (case read_row H (rw_metadata r) bytes of
                     Ok vs \<Rightarrow> (r\<lparr>rowsLeft := rowsLeft r - 1\<rparr>, Ok vs)
                   | Err e \<Rightarrow> (r, Err e)
                   | Panic p \<Rightarrow> (r, Panic p))
           | Err e \<Rightarrow> (r, Err e)
           | Panic p \<Rightarrow> (r, Panic p))"

definition Next :: "host \<Rightarrow> msgpack \<Rightarrow> sql_conn \<Rightarrow> sql_rows \<Rightarrow> nat \<Rightarrow> reply \<Rightarrow> sql_conn \<times> sql_rows \<times> goval list res" where
  "Next H M c r n rep =
     (if rowsLeft r = 0
      then if \<not> hasMore r then (c, r, Err EOF)
           else let (c, page) = QueryNexPageContext c (rw_id r)
                in (case page of
                      Panic p \<Rightarrow> (c, r, Panic p)
                    | Err e \<Rightarrow> let (c, r, _) = rows_Close M c r rep in (c, r, Err (Wrapf e ''failed to read cursor page''))
                    | Ok response \<Rightarrow>
                        (case ReadPackedInt M (ro_message response) of
                           Panic p \<Rightarrow> (c, r, Panic p)
                         | Err e \<Rightarrow> let (c, r, _) = rows_Close M c r rep in (c, r, Err (Wrapf e ''failed to read row count''))
                         | Ok (rowCount, msg) \<Rightarrow>
                             (c, next_row H M (r\<lparr>rw_message := msg, rowsLeft := sint rowCount\<rparr>) n)))
      else (c, next_row H M r n))"

subsection \<open>Queries over a connection\<close>

record named_value =
  nv_Name :: string
  Ordinal :: int
  nv_Value :: goval

text \<open>The arguments in the order of their ordinals.\<close>

definition ordered_args :: "named_value slice_sort \<Rightarrow> named_value list \<Rightarrow> goval list" where
  "ordered_args sorter args = map nv_Value (sorter (\<lambda>a b. Ordinal a < Ordinal b) args)"

datatype exec_result = NewResult "64 word" | ResultNoRows

definition LastInsertId :: "exec_result \<Rightarrow> 64 word res" where
  "LastInsertId r =
     (case r of
        NewResult _ \<Rightarrow> Err (Errorf0 ''LastInsertId is not supported by Apache Ignite binary client v1.x'')
      | ResultNoRows \<Rightarrow> Err (GoError ''no LastInsertId available after DDL statement''))"

definition RowsAffected :: "exec_result \<Rightarrow> 64 word res" where
  "RowsAffected r =
     (case r of NewResult ra \<Rightarrow> Ok ra | ResultNoRows \<Rightarrow> Err (GoError ''no RowsAffected available after DDL statement''))"

definition ExecContext :: "host \<Rightarrow> msgpack \<Rightarrow> named_value slice_sort \<Rightarrow> sql_conn \<Rightarrow> string \<Rightarrow>
    named_value list \<Rightarrow> gotime \<Rightarrow> reply \<Rightarrow> reply \<Rightarrow> sql_conn \<times> exec_result res" where
  "ExecContext H M sorter c query args now rep1 rep2 =
     (if \<not> isConnected c then (c, Err ErrBadConn)
      else
        let d = \<lparr>qd_Schema = si_Schema (info c), PageSize = 10000, Query = query, QueryArgs = ordered_args sorter args,
                 Timeout = si_Timeout (info c)\<rparr>;
            (c, r) = with_client c (\<lambda>cl. let (cl, res, err) = QuerySQLFields H M cl d now rep1 in (cl, rmap (\<lambda>_. res) err))
        in (case r of
              Panic p \<Rightarrow> (c, Panic p)
            | Err e \<Rightarrow> (c, Err (Wrapf e ''failed to execute query''))
            | Ok res \<Rightarrow>
                let (c, closed) = (if HasMore res then resourceClose M c (ResponseId res) rep2 else (c, Ok ()))
                in (c, rmap (\<lambda>_. if 0 < sint (AffectedRows res) then NewResult (AffectedRows res) else ResultNoRows)
                         (wrap_err ''failed to close server cursor'' closed))))"

definition QueryContext :: "msgpack \<Rightarrow> named_value slice_sort \<Rightarrow> sql_conn \<Rightarrow> string \<Rightarrow>
    named_value list \<Rightarrow> gotime \<Rightarrow> reply \<Rightarrow> sql_conn \<times> sql_rows res" where
  "QueryContext M sorter c query args now rep =
     (if \<not> isConnected c then (c, Err ErrBadConn)
      else
        let d = \<lparr>qd_Schema = si_Schema (info c), PageSize = si_PageSize (info c), Query = query,
                 QueryArgs = ordered_args sorter args, Timeout = si_Timeout (info c)\<rparr>;
            (c, r) = with_client c (\<lambda>cl. QuerySQLFieldsRaw M cl d now rep)
        in (c, rbind (wrap_err ''failed to execute query'' r) (newRows M)))"

text \<open>\<^verbatim>\<open>Ping\<close>: when the value read is not 1 it wraps a nil error, and \<^verbatim>\<open>Wrapf\<close> dereferences it.\<close>

definition Ping :: "host \<Rightarrow> msgpack \<Rightarrow> sql_conn \<Rightarrow> gotime \<Rightarrow> reply \<Rightarrow> reply \<Rightarrow> sql_conn \<times> unit res" where
  "Ping H M c now rep1 rep2 =
     (let (c, r) = QueryContext M (\<lambda>_ args. args) c ''SELECT 1'' [] now rep1
      in (case r of
            Panic p \<Rightarrow> (c, Panic p)
          | Err e \<Rightarrow> (c, Err (Wrapf e ''failed to execute ping query''))
          | Ok rows \<Rightarrow>
              let (c, rows, r) = Next H M c rows 1 rep2
              in (c, rbind (wrap_err ''failed to read ping query response'' r) (\<lambda>dest.
                       if ''1'' \<noteq> sprint_v H (dest ! 0) then Panic NilDereference else Ok ()))))"

subsection \<open>Statements\<close>

text \<open>A statement is its query; it runs on the connection it was prepared on.\<close>

record stmt =
  stmt_query :: string

definition Prepare :: "sql_conn \<Rightarrow> string \<Rightarrow> stmt res" where
  "Prepare c query = (if \<not> isConnected c then Err ErrBadConn else Ok \<lparr>stmt_query = query\<rparr>)"

definition stmt_Close :: "stmt \<Rightarrow> gerror option" where "stmt_Close s = None"
definition NumInput :: "stmt \<Rightarrow> int" where "NumInput s = -1"

definition stmt_Exec :: "stmt \<Rightarrow> goval list \<Rightarrow> exec_result res" where
  "stmt_Exec s args = Err (Errorf0 ''Deprecated: Drivers should implement StmtExecContext instead (or additionally)'')"

definition stmt_Query :: "stmt \<Rightarrow> goval list \<Rightarrow> sql_rows res" where
  "stmt_Query s args = Err (Errorf0 ''Deprecated: Drivers should implement StmtQueryContext instead (or additionally)'')"

definition stmt_ExecContext :: "host \<Rightarrow> msgpack \<Rightarrow> named_value slice_sort \<Rightarrow> sql_conn \<Rightarrow> stmt \<Rightarrow>
    named_value list \<Rightarrow> gotime \<Rightarrow> reply \<Rightarrow> reply \<Rightarrow> sql_conn \<times> exec_result res" where
  "stmt_ExecContext H M sorter c s args now rep1 rep2 = ExecContext H M sorter c (stmt_query s) args now rep1 rep2"

definition stmt_QueryContext :: "msgpack \<Rightarrow> named_value slice_sort \<Rightarrow> sql_conn \<Rightarrow> stmt \<Rightarrow>
    named_value list \<Rightarrow> gotime \<Rightarrow> reply \<Rightarrow> sql_conn \<times> sql_rows res" where
  "stmt_QueryContext M sorter c s args now rep = QueryContext M sorter c (stmt_query s) args now rep"

subsection \<open>Iterating over rows\<close>

text \<open>The loop of database/sql: \<^verbatim>\<open>Next\<close> until it gives an error (\<^verbatim>\<open>io.EOF\<close> at the end) or panics. A loop that does not
  end is None.\<close>

partial_function (option) drain :: "host \<Rightarrow> msgpack \<Rightarrow> reply \<Rightarrow> sql_conn \<Rightarrow> sql_rows \<Rightarrow> (goval list list \<times> unit res) option" where
  "drain H M rep c r =
     (case Next H M c r (length (rw_fields r)) rep of
        (c, r, v) \<Rightarrow>
          (case v of
             Ok vs \<Rightarrow> Option.bind (drain H M rep c r) (\<lambda>(vss, e). Some (vs # vss, e))
           | Err e \<Rightarrow> Some ([], Err e)
           | Panic p \<Rightarrow> Some ([], Panic p)))"

lemma with_client_None_iff: "\<not> isConnected c \<Longrightarrow> with_client c f = (c, Err ErrBadConn)"
  by (auto simp: with_client_def isConnected_def split: option.splits)

lemma QueryNexPage_fails: "\<exists>c' e. QueryNexPageContext c i = (c', e) \<and> (e = Err ErrBadConn \<or> e = Panic NilDereference)"
  by (auto simp: QueryNexPageContext_def with_client_def QuerySQLFieldsCursorGetPageRaw_def split: option.splits)

lemma next_row_Ok:
  "next_row H M r n = (r', Ok vs) \<Longrightarrow> rowsLeft r' = rowsLeft r - 1 \<and>
     (\<exists>b. ReadPackedBytes M (rw_message r) = Ok (b, rw_message r'))"
  by (auto simp: next_row_def Let_def split: if_splits res.splits)

lemma Next_Ok:
  assumes "Next H M c r n rep = (c', r', Ok vs)"
  shows "rowsLeft r \<noteq> 0 \<and> rowsLeft r' = rowsLeft r - 1 \<and> (\<exists>b. ReadPackedBytes M (rw_message r) = Ok (b, rw_message r'))"
proof -
  have "rowsLeft r \<noteq> 0"
  proof
    assume "rowsLeft r = 0"
    then show False using assms QueryNexPage_fails [of c "rw_id r"]
      by (auto simp: Next_def rows_Close_def split: if_splits)
  qed
  then show ?thesis using assms next_row_Ok by (auto simp: Next_def)
qed

text \<open>Every row delivered shortens the message, and counts the rows left down.\<close>

definition rows_bound :: "sql_rows \<Rightarrow> nat" where
  "rows_bound r =
     (if 0 \<le> rowsLeft r then min (nat (rowsLeft r)) (length (rw_message r)) else length (rw_message r))"

context msgpack_codec
begin

lemma drain_ends:
  "\<exists>vss e. drain H M rep c r = Some (vss, e) \<and> length vss \<le> rows_bound r"
proof (induction "length (rw_message r)" arbitrary: c r rule: less_induct)
  case less
  show ?case
  proof (cases "\<exists>c' r' vs. Next H M c r (length (rw_fields r)) rep = (c', r', Ok vs)")
    case True
    then obtain c' r' vs where n: "Next H M c r (length (rw_fields r)) rep = (c', r', Ok vs)" by blast
    then have l: "rowsLeft r \<noteq> 0" "rowsLeft r' = rowsLeft r - 1" "length (rw_message r') < length (rw_message r)"
      using Next_Ok [OF n] by (auto simp: ReadPackedBytes_def dest: bytes_consume)
    then obtain vss e where d: "drain H M rep c' r' = Some (vss, e)" "length vss \<le> rows_bound r'"
      using less [OF l(3)] by blast
    have "Suc (length vss) \<le> rows_bound r" using d(2) l by (auto simp: rows_bound_def split: if_splits)
    with d(1) show ?thesis by (subst drain.simps) (simp add: n)
  next
    case False
    then show ?thesis by (subst drain.simps) (auto split: prod.split res.split)
  qed
qed

subsection \<open>Rows of an answer\<close>

lemma next_row_enc:
  assumes "length b < 2 ^ 32" "rw_message r = WritePackedBytes M b @ msg" "read_row H (rw_metadata r) b = Ok vs"
  shows "next_row H M r (length (rw_fields r)) = (r\<lparr>rw_message := msg, rowsLeft := rowsLeft r - 1\<rparr>, Ok vs)"
  using assms by (simp add: next_row_def read_write_bytes)

lemma drain_enc:
  assumes "\<forall>b \<in> set outs. length b < 2 ^ 32" "mapR (read_row H (rw_metadata r)) outs = Ok vss"
    "rowsLeft r = int (length outs)" "rw_message r = concat (map (WritePackedBytes M) outs)" "isConnected c"
  shows "drain H M rep c r = Some (vss, if hasMore r then Panic NilDereference else Err EOF)"
  using assms
proof (induction outs arbitrary: r vss)
  case Nil
  then have "Next H M c r (length (rw_fields r)) rep = (c, r, if hasMore r then Panic NilDereference else Err EOF)"
    by (auto simp: Next_def QueryNexPageContext_def with_client_def isConnected_def QuerySQLFieldsCursorGetPageRaw_def
        split: option.splits)
  then show ?case using Nil.prems(2) by (subst drain.simps) simp
next
  case (Cons b outs)
  obtain vs vss' where v: "read_row H (rw_metadata r) b = Ok vs" "mapR (read_row H (rw_metadata r)) outs = Ok vss'" "vss = vs # vss'"
    using Cons.prems(2) by auto
  define r' where "r' = r\<lparr>rw_message := concat (map (WritePackedBytes M) outs), rowsLeft := rowsLeft r - 1\<rparr>"
  have "next_row H M r (length (rw_fields r)) = (r', Ok vs)"
    unfolding r'_def using Cons.prems v(1) by (intro next_row_enc [of b]) simp_all
  then have "Next H M c r (length (rw_fields r)) rep = (c, r', Ok vs)" using Cons.prems(3) by (simp add: Next_def)
  moreover have "drain H M rep c r' = Some (vss', if hasMore r' then Panic NilDereference else Err EOF)"
    using Cons.prems v(2) by (intro Cons.IH) (simp_all add: r'_def)
  ultimately show ?case using v(3) by (subst drain.simps) (simp add: r'_def)
qed

text \<open>With a negative count no row is the last one: every row of the message is delivered, and then the reader fails.\<close>

lemma negative_row_count:
  assumes "\<forall>b \<in> set outs. length b < 2 ^ 32" "mapR (read_row H (rw_metadata r)) outs = Ok vss"
    "rowsLeft r < 0" "rw_message r = concat (map (WritePackedBytes M) outs)"
  shows "\<exists>e. drain H M rep c r = Some (vss, e)"
  using assms
proof (induction outs arbitrary: r vss)
  case Nil
  have "Next H M c r (length (rw_fields r)) rep \<noteq> (c', r', Ok vs)" for c' r' vs
    using Nil.prems(4) Next_Ok [of H M c r "length (rw_fields r)" rep c' r' vs] bytes_consume [of "rw_message r"]
    by (auto simp: ReadPackedBytes_def)
  then show ?case using Nil.prems(2) by (subst drain.simps) (auto split: prod.split res.split)
next
  case (Cons b outs)
  obtain vs vss' where v: "read_row H (rw_metadata r) b = Ok vs" "mapR (read_row H (rw_metadata r)) outs = Ok vss'" "vss = vs # vss'"
    using Cons.prems(2) by auto
  define r' where "r' = r\<lparr>rw_message := concat (map (WritePackedBytes M) outs), rowsLeft := rowsLeft r - 1\<rparr>"
  have "next_row H M r (length (rw_fields r)) = (r', Ok vs)"
    unfolding r'_def using Cons.prems v(1) by (intro next_row_enc [of b]) simp_all
  then have "Next H M c r (length (rw_fields r)) rep = (c, r', Ok vs)" using Cons.prems(3) by (simp add: Next_def)
  moreover obtain e where "drain H M rep c r' = Some (vss', e)"
    using Cons.IH [of r' vss'] Cons.prems v(2) by (auto simp: r'_def)
  ultimately show ?case using v(3) by (subst drain.simps) simp
qed

lemma newRows_enc:
  assumes "wf_described [] ds" "length ds < 2 ^ 63" "length outs < 2 ^ 63" "ro_message res = enc_answer M q ds outs"
  shows "\<exists>r. newRows M res = Ok r \<and> rows_Columns r = map (Name \<circ> fst) ds \<and> rw_metadata r = \<lparr>Columns = map fst ds\<rparr> \<and>
    rw_id r = 0 \<and> hasMore r = HasMore q \<and>
    rw_message r = (if HasRowSet q then concat (map (WritePackedBytes M) outs) else []) \<and>
    rowsLeft r = (if HasRowSet q then int (length outs) else 0)"
proof -
  have m: "NewResultSetMetadataFromReader M (enc_metadata M ds @ r) = Ok (\<lparr>Columns = map fst ds\<rparr>, r)" for r
    by (rule read_metadata_enc [OF assms(1,2)])
  have "wf_metadata \<lparr>Columns = map fst ds\<rparr>" using NewResultSetMetadata_wf [OF m] .
  then have "mapR (\<lambda>c. rmap (\<lambda>t. \<lparr>sc_name = Name c, sqlType = SQLTypeName t\<rparr>) (deref (CType c))) (map fst ds) =
    Ok (map (\<lambda>c. \<lparr>sc_name = Name c, sqlType = SQLTypeName (the (CType c))\<rparr>) (map fst ds))"
    by (intro mapR_Ok) (force simp: wf_metadata_def deref_def)
  moreover have "sint (word_of_nat (length outs) :: 64 word) = int (length outs)"
    using assms(3) by (simp add: signed_of_nat signed_take_bit_int_eq_self)
  ultimately show ?thesis using m [of "[]"]
    by (cases "HasRowSet q")
      (simp_all add: newRows_def assms(4) enc_answer_def read_header_enc m enc_rows_def rows_Columns_def empty_result_def o_def Let_def)
qed

end

subsection \<open>Rows and named rows\<close>

definition all_origins :: "result_metadata \<Rightarrow> bool" where
  "all_origins meta \<longleftrightarrow> wf_metadata meta \<and> list_all (\<lambda>c. Origin c \<noteq> None) (Columns meta)"

lemma rmap_cong_Ok: "(\<And>x. m = Ok x \<Longrightarrow> f x = g x) \<Longrightarrow> rmap f m = rmap g m"
  by (cases m) auto

lemma read_cell_value:
  assumes "all_origins meta" "j < length (Columns meta)"
  shows "read_cell H ctxt [''DATETIME'', ''TIMESTAMP''] meta t j = rmap (Pair (origin_names meta ! j)) (read_value H meta t j)"
proof -
  have m: "wf_metadata meta" using assms(1) by (simp add: all_origins_def)
  obtain ty where ty: "meta_GetColumnTypeById meta (int j) = Ok (Some ty)" using wf_metadata_type [OF m assms(2)] by blast
  have "describes_all meta (replicate (length (Columns meta)) c)" for c using assms(1) by (simp add: describes_all_def all_origins_def)
  from origin_name_lookup [OF this] have "GetColumnOriginNameById meta (int j) = Ok (origin_names meta ! j)" using assms(2) by simp
  then show ?thesis
    by (cases "GetValue (local_offset H) t (int j) (TypeId ty)") (simp_all add: read_cell_def read_value_def ty deref_def)
qed

lemma read_cells_values:
  assumes "all_origins meta" "set js \<subseteq> {..<length (Columns meta)}"
  shows "read_cells H ctxt [''DATETIME'', ''TIMESTAMP''] meta t js row =
    rmap (\<lambda>vs. row ++ map_of (rev (zip (map (\<lambda>j. origin_names meta ! j) js) vs))) (mapR (read_value H meta t) js)"
  using assms(2)
proof (induction js arbitrary: row)
  case (Cons j js)
  then have c: "read_cell H ctxt [''DATETIME'', ''TIMESTAMP''] meta t j = rmap (Pair (origin_names meta ! j)) (read_value H meta t j)"
    by (intro read_cell_value [OF assms(1)]) simp
  from Cons have IH: "read_cells H ctxt [''DATETIME'', ''TIMESTAMP''] meta t js row' =
    rmap (\<lambda>vs. row' ++ map_of (rev (zip (map (\<lambda>j. origin_names meta ! j) js) vs))) (mapR (read_value H meta t) js)" for row'
    by simp
  show ?case
    by (cases "read_value H meta t j"; cases "mapR (read_value H meta t) js") (simp_all add: c IH)
qed simp

lemma decode_row_values:
  assumes "all_origins meta" "distinct (origin_names meta)"
  shows "decode_row H ctxt [''DATETIME'', ''TIMESTAMP''] meta bytes = rmap (\<lambda>vs. map_of (zip (origin_names meta) vs)) (read_row H meta bytes)"
proof (cases "NewTupleFromByteArrayWithMetadata meta bytes")
  case (Ok t)
  have l: "length (origin_names meta) = length (Columns meta)" by (simp add: origin_names_def)
  then have n: "map (\<lambda>j. origin_names meta ! j) [0..<length (Columns meta)] = origin_names meta" by (metis map_nth)
  have "map_of (rev (zip (origin_names meta) vs)) = map_of (zip (origin_names meta) vs)"
    if "mapR (read_value H meta t) [0..<length (Columns meta)] = Ok vs" for vs
    using assms(2) mapR_length [OF that] l
    by (intro map_of_inject_set [THEN iffD2]) (simp_all add: rev_map [symmetric])
  then show ?thesis
    using Ok read_cells_values [OF assms(1), of "[0..<length (Columns meta)]" H ctxt t Map.empty]
    by (auto simp: decode_row_def read_row_def n lessThan_atLeast0 intro!: rmap_cong_Ok)
qed (simp_all add: decode_row_def read_row_def)

lemma read_cells_prefix:
  assumes "\<And>i. i \<in> set js \<Longrightarrow> \<exists>x. read_cell H ctxt timeTypes meta t i = Ok x"
  shows "\<exists>row'. read_cells H ctxt timeTypes meta t (js @ ks) row = read_cells H ctxt timeTypes meta t ks row'"
  using assms
proof (induction js arbitrary: row)
  case (Cons j js)
  then obtain x where "read_cell H ctxt timeTypes meta t j = Ok x" by (meson list.set_intros(1))
  with Cons show ?case by (cases x) simp
qed auto

subsection \<open>Arguments\<close>

lemma ordered_args_determined:
  assumes "slice_sorter sorter" "distinct (map Ordinal args)"
  shows "ordered_args sorter args = map nv_Value (sort_key Ordinal args)"
  by (simp add: ordered_args_def slice_sorter.sorter_determined [OF assms])

lemma sort_key_perm:
  assumes "mset xs = mset ys" "distinct (map key xs)"
  shows "sort_key key xs = sort_key (key :: _ \<Rightarrow> int) ys"
proof -
  have "inj_on key (set xs)" using assms(2) by (simp add: distinct_map)
  moreover have "mset (sort_key key ys) = mset xs" using assms(1) by simp
  ultimately show ?thesis by (metis sort_key_inj_key_eq sorted_sort_key)
qed

lemma resourceClose_zero: "fst (resourceClose M c 0 rep) = c"
  by (cases c; cases "sql_client c") (simp_all add: resourceClose_def with_client_def ResourceClose_def)

lemma conn_Close_disconnects: "\<not> isConnected (fst (conn_Close c e))"
  by (auto simp: conn_Close_def isConnected_def split: option.split prod.split)

text \<open>Values for the examples: a connected connection, and rows whose message is cut short.\<close>

definition sample_info :: sql_info where
  "sample_info = \<lparr>ci_Major = 3, ci_Minor = 0, ci_Patch = 0, Username = [], Password = [], URL = [], Network = ''tcp'',
                  Host = [], Port = 10800, TLSConfig = None, Cache = [], si_Schema = ''PUBLIC'', si_PageSize = 10000, si_Timeout = 0\<rparr>"

definition sample_conn :: sql_conn where
  "sample_conn = \<lparr>info = sample_info, sql_client = Some sample_client, released = None\<rparr>"

definition sample_rows :: sql_rows where
  "sample_rows = \<lparr>rw_message = [], rw_metadata = sample_result_table, rw_id = 0, rw_fields = [\<lparr>sc_name = ''A'', sqlType = ''INT''\<rparr>],
                  rowsLeft = 3, hasMore = False\<rparr>"

subsection \<open>Properties\<close>

text \<open>C12: Iterating over rows ends, whatever the server sent: after at most as many rows as the message has bytes, and
  as the page announced unless it announced a negative number, \<^verbatim>\<open>Next\<close> gives an error, the end of the rows, or panics.\<close>

theorem rows_iteration_ends:
  assumes "msgpack_codec M"
  shows "\<exists>vss e. drain H M rep c r = Some (vss, e) \<and>
    length vss \<le> (if 0 \<le> rowsLeft r then min (nat (rowsLeft r)) (length (rw_message r)) else length (rw_message r))"
  using msgpack_codec.drain_ends [OF assms] by (simp only: rows_bound_def)

theorem rows_iteration_ends_witness:
  "\<exists>vss e. drain exact_host ref_codec (Arrives []) sample_conn sample_rows = Some (vss, e) \<and>
     length vss \<le> (if 0 \<le> rowsLeft sample_rows then min (nat (rowsLeft sample_rows)) (length (rw_message sample_rows))
                  else length (rw_message sample_rows))"
  by (rule rows_iteration_ends [OF ref.msgpack_codec_axioms])

text \<open>C3: A query through the driver that is answered without flags, with rows that can be decoded, delivers the answer: the columns under their names, and, one call of
  \<^verbatim>\<open>Next\<close> after another, every row of the page in order with its values in the order of the columns; then the end of the
  rows, if the server has no further page. If it has, the next call panics: the operation that fetches it is not
  implemented.\<close>

theorem query_rows_delivered:
  assumes "msgpack_codec M" and "sql_client c = Some cl" and "conn cl"
    and "fields_payload M \<lparr>qd_Schema = si_Schema (info c), PageSize = si_PageSize (info c), Query = query,
           QueryArgs = ordered_args sorter args, Timeout = si_Timeout (info c)\<rparr> now = Ok payload"
    and "short_time ts" and "wf_described [] ds" and "length ds < 2 ^ 63"
    and "\<forall>b \<in> set outs. length b < 2 ^ 32" and "length outs < 2 ^ 63"
    and "length (reply_payload M (RequestId cl) 0 ts ts (enc_answer M q ds outs)) < 2 ^ 31"
    and "mapR (read_row H \<lparr>Columns = map fst ds\<rparr>) outs = Ok vss"
  shows "\<exists>c' r. QueryContext M sorter c query args now
      (Arrives (frame (reply_payload M (RequestId cl) 0 ts ts (enc_answer M q ds outs)))) = (c', Ok r) \<and>
    rows_Columns r = map (Name \<circ> fst) ds \<and>
    drain H M rep c' r = Some (if HasRowSet q then vss else [], if HasMore q then Panic NilDereference else Err EOF)"
proof -
  define res where "res = (NewResponseOperation (RequestId cl))\<lparr>Flags := ucast (0 :: 64 word), ObsTs := read_time ts, ro_message := enc_answer M q ds outs\<rparr>"
  define cl' where "cl' = cl\<lparr>RequestId := RequestId cl + 1, sent := sent cl @ [RequestOperation_WriteTo M OpSqlExecute (RequestId cl) payload]\<rparr>"
  have op: "operate M cl OpSqlExecute payload ''failed to execute SQL_EXECUTE operation''
      (Arrives (frame (reply_payload M (RequestId cl) 0 ts ts (enc_answer M q ds outs)))) = (cl', Ok res)"
    using msgpack_codec.operate_success [OF assms(1,3,5,5) _ assms(10), of OpSqlExecute payload] by (simp add: res_def cl'_def)
  have "ro_message res = enc_answer M q ds outs" by (simp add: res_def)
  from msgpack_codec.newRows_enc [OF assms(1,6,7,9) this] obtain r where r: "newRows M res = Ok r"
    "rows_Columns r = map (Name \<circ> fst) ds" "rw_metadata r = \<lparr>Columns = map fst ds\<rparr>" "hasMore r = HasMore q"
    "rw_message r = (if HasRowSet q then concat (map (WritePackedBytes M) outs) else [])"
    "rowsLeft r = (if HasRowSet q then int (length outs) else 0)" by blast
  have con: "isConnected (c\<lparr>sql_client := Some cl'\<rparr>)" using assms(3) by (simp add: isConnected_def Connected_def cl'_def)
  have "drain H M rep (c\<lparr>sql_client := Some cl'\<rparr>) r = Some (if HasRowSet q then vss else [], if HasMore q then Panic NilDereference else Err EOF)"
  proof (cases "HasRowSet q")
    case True
    then show ?thesis using msgpack_codec.drain_enc [OF assms(1,8), of H r vss, OF _ _ _ con] r assms(11) by simp
  next
    case False
    then show ?thesis using msgpack_codec.drain_enc [OF assms(1), of "[]" H r "[]", OF _ _ _ _ con] r by simp
  qed
  moreover have "QueryContext M sorter c query args now
      (Arrives (frame (reply_payload M (RequestId cl) 0 ts ts (enc_answer M q ds outs)))) = (c\<lparr>sql_client := Some cl'\<rparr>, Ok r)"
    using assms(2,3) by (simp add: QueryContext_def isConnected_def Connected_def with_client_def QuerySQLFieldsRaw_def
        assms(4) op r(1))
  ultimately show ?thesis using r(2) by blast
qed

text \<open>C18: The driver and \<^verbatim>\<open>QuerySQL\<close> decode a row to the same values or the same error: the named row is the list of
  values the driver delivers, put under the column names, when every column comes from a table column and the names
  differ.\<close>

theorem driver_rows_agree:
  assumes "all_origins meta" and "distinct (origin_names meta)"
  shows "decode_row H ctxt [''DATETIME'', ''TIMESTAMP''] meta bytes =
    rmap (\<lambda>vs. map_of (zip (origin_names meta) vs)) (read_row H meta bytes)"
  by (rule decode_row_values [OF assms])

theorem driver_rows_agree_witness:
  "decode_row exact_host ''c'' [''DATETIME'', ''TIMESTAMP''] sample_result_table [0, 1, 5] =
    rmap (\<lambda>vs. map_of (zip (origin_names sample_result_table) vs)) (read_row exact_host sample_result_table [0, 1, 5])"
  using sample_describes
  by (intro driver_rows_agree) (simp_all add: all_origins_def describes_all_def origin_names_def sample_result_table_def)

text \<open>C31: A column that is computed, so that the server sends no origin for it, cannot be read by \<^verbatim>\<open>QuerySQL\<close>, wherever
  it stands: naming its value panics, for every row that parses and whose columns before it can be read.\<close>

theorem computed_column_panics:
  assumes "wf_metadata meta" and "j < length (Columns meta)" and "Origin (Columns meta ! j) = None"
    and "NewTupleFromByteArrayWithMetadata meta bytes = Ok t"
    and "\<And>i. i < j \<Longrightarrow> \<exists>x. read_cell H ctxt timeTypes meta t i = Ok x"
  shows "decode_row H ctxt timeTypes meta bytes = Panic NilDereference"
proof -
  obtain ty where ty: "meta_GetColumnTypeById meta (int j) = Ok (Some ty)" using wf_metadata_type [OF assms(1,2)] by blast
  have "GetColumnOriginNameById meta (int j) = Panic NilDereference"
    using assms(1-3) by (simp add: GetColumnOriginNameById_def first_match_indexed wf_metadata_def deref_def)
  then have "read_cell H ctxt timeTypes meta t j = Panic NilDereference" using ty by (simp add: read_cell_def)
  moreover have "[0..<length (Columns meta)] = [0..<j] @ j # [Suc j..<length (Columns meta)]"
    using upt_add_eq_append [of 0 j "length (Columns meta) - j"] assms(2) by (simp add: upt_conv_Cons)
  moreover have "\<exists>row'. read_cells H ctxt timeTypes meta t ([0..<j] @ j # js) row = read_cells H ctxt timeTypes meta t (j # js) row'"
    for js row
    by (rule read_cells_prefix) (use assms(5) in simp)
  ultimately show ?thesis by (metis (no_types, lifting) decode_row_def assms(4) map_err.simps(1) rbind.simps(1,3) read_cells.simps(2))
qed

text \<open>C24: The order in which the arguments are handed over does not matter, only their ordinals, and neither does the
  sorting algorithm: queries and statements over the same arguments do the same.\<close>

theorem argument_order_irrelevant:
  assumes "slice_sorter sorter" and "slice_sorter sorter'" and "mset args = mset args'"
    and "distinct (map Ordinal args)"
  shows "QueryContext M sorter c query args now rep = QueryContext M sorter' c query args' now rep \<and>
    ExecContext H M sorter c query args now rep rep' = ExecContext H M sorter' c query args' now rep rep'"
proof -
  have "distinct (map Ordinal args')" using assms(3,4) by (metis mset_eq_imp_distinct_iff mset_map)
  then have "ordered_args sorter args = ordered_args sorter' args'"
    using assms sort_key_perm [OF assms(3,4)] by (simp add: ordered_args_determined)
  then show ?thesis by (simp add: QueryContext_def ExecContext_def)
qed

text \<open>A cursor is never closed through the rows of a query: they are made with the cursor id 0, so closing them, or
  leaving them to the finalizer, sends nothing, however many rows are left.\<close>

theorem rows_never_close_cursor:
  assumes "newRows M res = Ok r"
  shows "rw_id r = 0 \<and> fst (rows_Close M c r rep) = c \<and> fst (rowsFinalizer M c r rep) = c"
proof -
  have h: "outcome (ReadQuerySQLResponseHeader M empty_result m) = Ok (result, m') \<Longrightarrow> ResponseId result = 0" for m result m'
    by (auto simp: ReadQuerySQLResponseHeader_def Let_def outcome_readq outcome_if readf_Ok_iff empty_result_def split: if_splits)
  then have i: "rw_id r = 0" using assms by (auto simp: newRows_def readf_Ok_iff Let_def split: if_splits)
  then have "fst (rows_Close M c r rep) = c"
    using resourceClose_zero [of M c rep] by (auto simp: rows_Close_def Let_def split: prod.split)
  with i show ?thesis by (auto simp: rowsFinalizer_def split: prod.split)
qed

text \<open>C20: On a connection that is not connected, preparing, querying, executing, closing a resource and fetching a page give
  \<^verbatim>\<open>driver.ErrBadConn\<close>, and a ping gives it wrapped in another error; nothing changes. And closing a connection disconnects it. (The client itself would panic.)\<close>

theorem closed_connection_rejected:
  assumes "\<not> isConnected c"
  shows "Prepare c query = Err ErrBadConn \<and> QueryContext M sorter c query args now rep = (c, Err ErrBadConn) \<and>
    ExecContext H M sorter c query args now rep rep' = (c, Err ErrBadConn) \<and> resourceClose M c i rep = (c, Err ErrBadConn) \<and>
    QueryNexPageContext c i = (c, Err ErrBadConn) \<and>
    Ping H M c now rep rep' = (c, Err (Wrapf ErrBadConn ''failed to execute ping query'')) \<and>
    \<not> isConnected (fst (conn_Close c' e))"
  using assms
  by (simp add: Prepare_def QueryContext_def ExecContext_def resourceClose_def QueryNexPageContext_def with_client_None_iff
      Ping_def conn_Close_disconnects)



text \<open>A ping succeeds on an answer of one row with one value that prints as 1; any other value makes it panic instead
  of giving the error it builds.\<close>

theorem Ping_outcome:
  assumes "QueryContext M (\<lambda>_ args. args) c ''SELECT 1'' [] now rep = (c', Ok r)" and "Next H M c' r 1 rep' = (c'', r', Ok [v])"
  shows "Ping H M c now rep rep' = (c'', if sprint_v H v = ''1'' then Ok () else Panic NilDereference)"
  using assms by (simp add: Ping_def)


text \<open>Two arguments given out of order.\<close>

definition sample_args :: "named_value list" where
  "sample_args = [\<lparr>nv_Name = [], Ordinal = 2, nv_Value = VBool True\<rparr>, \<lparr>nv_Name = [], Ordinal = 1, nv_Value = VNil\<rparr>]"

theorem argument_order_irrelevant_witness:
  "QueryContext ref_codec insertion_sort sample_conn ''q'' sample_args epoch (Arrives []) =
     QueryContext ref_codec insertion_sort sample_conn ''q'' (rev sample_args) epoch (Arrives []) \<and>
   ExecContext exact_host ref_codec insertion_sort sample_conn ''q'' sample_args epoch (Arrives []) (Arrives []) =
     ExecContext exact_host ref_codec insertion_sort sample_conn ''q'' (rev sample_args) epoch (Arrives []) (Arrives [])"
  by (rule argument_order_irrelevant [OF insertion.slice_sorter_axioms insertion.slice_sorter_axioms])
    (simp_all add: sample_args_def)

text \<open>A table column and then a computed one.\<close>

definition sample_computed :: result_metadata where
  "sample_computed = \<lparr>Columns = [sample_result_column ''A'' 0 4, (sample_result_column ''B'' 1 4)\<lparr>Origin := None\<rparr>]\<rparr>"

definition sample_computed_tuple :: tuple where
  "sample_computed_tuple = \<lparr>binTupleValue = [0, 1, 2, 5, 6],
     tvalues = [\<lparr>Type = 4, TScale = 0, TPrecision = 0, Value = [5]\<rparr>, \<lparr>Type = 4, TScale = 0, TPrecision = 0, Value = [6]\<rparr>],
     numElements = 2, entrySize = 1, entryBase = 1, valueBase = 3\<rparr>"

lemma sample_computed_parses: "NewTupleFromByteArrayWithMetadata sample_computed [0, 1, 2, 5, 6] = Ok sample_computed_tuple"
  by (simp add: sample_computed_tuple_def sample_computed_def NewTupleFromByteArrayWithMetadata_def headerSize_def fromHeader_def
      read_element_def entryOffset_def sample_result_column_def ColTypes_def wrap_def deref_def Let_def index_at_def slice_of_def upt_rec)

lemma sample_computed_first: "read_cell H ctxt timeTypes sample_computed sample_computed_tuple 0 = Ok (''A'', VInt32 5)"
  by (simp add: sample_computed_def sample_computed_tuple_def sample_result_column_def ColTypes_def wrap_def deref_def Let_def index_at_def
      read_cell_def meta_GetColumnTypeById_def GetColumnOriginNameById_def first_match_def GetValue_def element_value_def
      expandIntValue_def decodeBigEndianTwosComplement_def convert_value_def strip_marker_def)

theorem computed_column_panics_witness:
  "decode_row exact_host ''c'' [] sample_computed [0, 1, 2, 5, 6] = Panic NilDereference"
proof (rule computed_column_panics [where j = 1, OF _ _ _ sample_computed_parses])
  show "\<exists>x. read_cell exact_host ''c'' [] sample_computed sample_computed_tuple i = Ok x" if "i < 1" for i
    using that sample_computed_first by simp
qed (simp_all add: sample_computed_def wf_metadata_def indexed_def sample_result_column_def nth_Cons split: nat.split, simp_all add: ColTypes_def)

theorem rows_never_close_cursor_witness:
  "rw_id (sample_rows\<lparr>rowsLeft := 0, rw_metadata := \<lparr>Columns = []\<rparr>, rw_fields := []\<rparr>) = 0 \<and>
   fst (rows_Close ref_codec sample_conn (sample_rows\<lparr>rowsLeft := 0, rw_metadata := \<lparr>Columns = []\<rparr>, rw_fields := []\<rparr>) (Arrives [])) = sample_conn \<and>
   fst (rowsFinalizer ref_codec sample_conn (sample_rows\<lparr>rowsLeft := 0, rw_metadata := \<lparr>Columns = []\<rparr>, rw_fields := []\<rparr>) (Arrives [])) = sample_conn"
proof (rule rows_never_close_cursor)
  have "NewResultSetMetadataFromReader ref_codec (enc_metadata ref_codec []) = Ok (\<lparr>Columns = []\<rparr>, [])"
    using ref.read_metadata_enc [of "[]" "[]"] by simp
  then show "newRows ref_codec ((NewResponseOperation 0)\<lparr>ro_message := enc_answer ref_codec empty_result [] []\<rparr>) =
      Ok (sample_rows\<lparr>rowsLeft := 0, rw_metadata := \<lparr>Columns = []\<rparr>, rw_fields := []\<rparr>)"
    using ref.read_header_enc [of empty_result empty_result "enc_metadata ref_codec []"]
    by (simp add: newRows_def enc_answer_def empty_result_def sample_rows_def)
qed

theorem closed_connection_rejected_witness:
  "Prepare \<lparr>info = sample_info, sql_client = None, released = None\<rparr> ''q'' = Err ErrBadConn \<and>
   QueryContext ref_codec insertion_sort \<lparr>info = sample_info, sql_client = None, released = None\<rparr> ''q'' [] epoch (Arrives []) =
     (\<lparr>info = sample_info, sql_client = None, released = None\<rparr>, Err ErrBadConn) \<and>
   ExecContext exact_host ref_codec insertion_sort \<lparr>info = sample_info, sql_client = None, released = None\<rparr> ''q'' [] epoch (Arrives []) (Arrives []) =
     (\<lparr>info = sample_info, sql_client = None, released = None\<rparr>, Err ErrBadConn) \<and>
   resourceClose ref_codec \<lparr>info = sample_info, sql_client = None, released = None\<rparr> 4 (Arrives []) = (\<lparr>info = sample_info, sql_client = None, released = None\<rparr>, Err ErrBadConn) \<and>
   QueryNexPageContext \<lparr>info = sample_info, sql_client = None, released = None\<rparr> 4 = (\<lparr>info = sample_info, sql_client = None, released = None\<rparr>, Err ErrBadConn) \<and>
   Ping exact_host ref_codec \<lparr>info = sample_info, sql_client = None, released = None\<rparr> epoch (Arrives []) (Arrives []) =
     (\<lparr>info = sample_info, sql_client = None, released = None\<rparr>, Err (Wrapf ErrBadConn ''failed to execute ping query'')) \<and>
   \<not> isConnected (fst (conn_Close sample_conn None))"
  by (rule closed_connection_rejected) (simp add: isConnected_def)


text \<open>The query SELECT over the sample connection, and a page with one row.\<close>

definition sample_driver_payload :: "64 word \<Rightarrow> byte list" where
  "sample_driver_payload psize =
     (case fields_payload ref_codec \<lparr>qd_Schema = si_Schema (info sample_conn), PageSize = psize, Query = ''q'',
        QueryArgs = ordered_args insertion_sort [], Timeout = si_Timeout (info sample_conn)\<rparr> epoch of Ok p \<Rightarrow> p | _ \<Rightarrow> [])"

lemma sample_driver_query:
  "fields_payload ref_codec \<lparr>qd_Schema = si_Schema (info sample_conn), PageSize = psize, Query = ''q'',
     QueryArgs = ordered_args insertion_sort [], Timeout = si_Timeout (info sample_conn)\<rparr> epoch = Ok (sample_driver_payload psize)"
  by (simp add: sample_driver_payload_def query_payload_def fields_payload_eq ordered_args_def insertion_sort_def Let_def)

lemma sample_read_row: "read_row H sample_result_table [0, 1, 5] = Ok [VInt32 5]"
  by (simp add: sample_result_table_def read_row_def NewTupleFromByteArrayWithMetadata_def headerSize_def fromHeader_def read_element_def
      entryOffset_def sample_result_column_def ColTypes_def wrap_def deref_def Let_def index_at_def slice_of_def upt_rec
      strip_marker_def read_value_def meta_GetColumnTypeById_def first_match_def GetValue_def element_value_def
      expandIntValue_def decodeBigEndianTwosComplement_def convert_value_def)

theorem query_rows_delivered_witness:
  "\<exists>c' r. QueryContext ref_codec insertion_sort sample_conn ''q'' [] epoch
      (Arrives (frame (reply_payload ref_codec (RequestId sample_client) 0 epoch epoch
        (enc_answer ref_codec sample_result [(sample_result_column ''A'' 0 4, None, None)] [[0, 1, 5]])))) = (c', Ok r) \<and>
    rows_Columns r = map (Name \<circ> fst) [(sample_result_column ''A'' 0 4, None :: nat option, None :: nat option)] \<and>
    drain exact_host ref_codec (Arrives []) c' r =
      Some (if HasRowSet sample_result then [[VInt32 5]] else [], if HasMore sample_result then Panic NilDereference else Err EOF)"
proof (rule query_rows_delivered [OF ref.msgpack_codec_axioms _ _ sample_driver_query short_epoch sample_described _ _ _ sample_reply_length])
  show "mapR (read_row exact_host \<lparr>Columns = map fst [(sample_result_column ''A'' 0 4, None :: nat option, None :: nat option)]\<rparr>) [[0, 1, 5]] =
      Ok [[VInt32 5]]"
    using sample_read_row by (simp add: sample_result_table_def)
qed (simp_all add: sample_conn_def sample_client_def)


end
