(* ===== verification/SqlDriver.thy ===== *)
theory SqlDriver
  imports SqlConn
begin

text \<open>
  Opening a connection by name (sql/driver.go, sql/driver-go1.10.go, sql/connector.go): the parameters of the URL, the
  protocol version, and the choice of the client. Go's number parsing is modelled here; the URL parser and the
  semantic-version parser are given functions, and so is the order in which the map of parameters is visited.
\<close>

subsection \<open>Numbers (strconv)\<close>

text \<open>A range error comes with the nearest representable value, a syntax error with 0.\<close>

datatype num_error = ErrSyntax | ErrRange

definition lower_byte :: "nat \<Rightarrow> nat" where
  "lower_byte c = c OR 0x20"

definition char_code :: "char \<Rightarrow> nat" where
  "char_code c = of_char c"

definition digit_value :: "nat \<Rightarrow> nat option" where
  "digit_value c =
     (if 48 \<le> c \<and> c \<le> 57 then Some (c - 48)
      else if 97 \<le> lower_byte c \<and> lower_byte c \<le> 122 then Some (lower_byte c - 97 + 10) else None)"

text \<open>The digit loop: the value so far, and whether an underscore was seen.\<close>

fun uint_digits :: "nat \<Rightarrow> bool \<Rightarrow> nat \<Rightarrow> bool \<Rightarrow> nat list \<Rightarrow> (nat \<times> bool) + num_error" where
  "uint_digits base base0 n us [] = Inl (n, us)"
| "uint_digits base base0 n us (c # cs) =
     (if c = 95 \<and> base0 then uint_digits base base0 n True cs
      else case digit_value c of
             None \<Rightarrow> Inr ErrSyntax
           | Some d \<Rightarrow>
               if base \<le> d then Inr ErrSyntax
               else if 2 ^ 64 \<le> n * base + d then Inr ErrRange
               else uint_digits base base0 (n * base + d) us cs)"

text \<open>\<^verbatim>\<open>underscoreOK\<close>: \<open>saw\<close> is the class of the last character: 0 the beginning, 1 a digit or the prefix, 2 an
  underscore, 3 anything else.\<close>

fun underscores_ok :: "bool \<Rightarrow> nat \<Rightarrow> nat list \<Rightarrow> bool" where
  "underscores_ok hex saw [] = (saw \<noteq> 2)"
| "underscores_ok hex saw (c # cs) =
     (if 48 \<le> c \<and> c \<le> 57 \<or> hex \<and> 97 \<le> lower_byte c \<and> lower_byte c \<le> 102 then underscores_ok hex 1 cs
      else if c = 95 then saw = 1 \<and> underscores_ok hex 2 cs
      else saw \<noteq> 2 \<and> underscores_ok hex 3 cs)"

definition underscoreOK :: "nat list \<Rightarrow> bool" where
  "underscoreOK s =
     (case s of
        a # b # t \<Rightarrow>
          if a = 48 \<and> lower_byte b \<in> {98, 111, 120} then underscores_ok (lower_byte b = 120) 1 t else underscores_ok False 0 s
      | _ \<Rightarrow> underscores_ok False 0 s)"

text \<open>\<^verbatim>\<open>ParseUint(s, base, 64)\<close> for base 10 and base 0, where the prefix decides.\<close>

definition base_prefix :: "nat list \<Rightarrow> nat \<times> nat list" where
  "base_prefix s =
     (case s of
        a # b # c # t \<Rightarrow>
          if a = 48 \<and> lower_byte b = 98 then (2, c # t)
          else if a = 48 \<and> lower_byte b = 111 then (8, c # t)
          else if a = 48 \<and> lower_byte b = 120 then (16, c # t)
          else if a = 48 then (8, tl s) else (10, s)
      | a # t \<Rightarrow> if a = 48 then (8, t) else (10, s)
      | [] \<Rightarrow> (10, []))"

definition ParseUint :: "bool \<Rightarrow> nat list \<Rightarrow> nat + num_error" where
  "ParseUint base0 s =
     (if s = [] then Inr ErrSyntax
      else let (base, t) = (if base0 then base_prefix s else (10, s))
           in case uint_digits base base0 0 False t of
                Inr e \<Rightarrow> Inr e
              | Inl (n, us) \<Rightarrow> if us \<and> \<not> underscoreOK s then Inr ErrSyntax else Inl n)"

definition ParseInt :: "bool \<Rightarrow> string \<Rightarrow> int \<times> num_error option" where
  "ParseInt base0 s0 =
     (let s = map char_code s0;
          neg = (s \<noteq> [] \<and> hd s = 45);
          t = (if s \<noteq> [] \<and> (hd s = 45 \<or> hd s = 43) then tl s else s)
      in case ParseUint base0 t of
           Inr ErrSyntax \<Rightarrow> (0, Some ErrSyntax)
         | Inr ErrRange \<Rightarrow> (if neg then - (2 ^ 63) else 2 ^ 63 - 1, Some ErrRange)
         | Inl n \<Rightarrow>
             if \<not> neg \<and> 2 ^ 63 \<le> n then (2 ^ 63 - 1, Some ErrRange)
             else if neg \<and> 2 ^ 63 < n then (- (2 ^ 63), Some ErrRange)
             else (if neg then - int n else int n, None))"

definition Atoi :: "string \<Rightarrow> int \<times> num_error option" where
  "Atoi s = ParseInt False s"

subsection \<open>The given parsers\<close>

record url =
  Scheme :: string
  Hostname :: string
  url_Port :: string
  Path :: string
  url_Query :: "(string \<times> string list) list"

text \<open>\<^verbatim>\<open>url.Parse\<close>, \<^verbatim>\<open>semver.NewVersion\<close> (major, minor, patch), the order in which the query map is visited, and the
  text of a number error.\<close>

record url_host = host +
  parse_url :: "string \<Rightarrow> url res"
  new_version :: "string \<Rightarrow> (int \<times> int \<times> int) res"
  visit :: "(string \<times> string list) list \<Rightarrow> (string \<times> string list) list"
  num_error_text :: "string \<Rightarrow> string \<Rightarrow> num_error \<Rightarrow> string"

subsection \<open>The connection name\<close>

definition parseYesNo :: "'z url_host_scheme \<Rightarrow> string \<Rightarrow> bool res" where
  "parseYesNo U s =
     (let t = to_lower U (TrimSpace s)
      in if t = ''yes'' then Ok True else if t = ''no'' then Ok False
         else Err (Errorf (''invalid boolean value (expected \"yes\" or \"no\"): '' @ s)))"

text \<open>What the loop over the parameters fills in.\<close>

record url_state =
  us_info :: sql_info
  us_ver :: "int \<times> int \<times> int"
  tlsEnabled :: bool
  tlsInsecureSkipVerify :: bool

definition checked :: "'z url_host_scheme \<Rightarrow> string \<Rightarrow> string \<Rightarrow> int \<times> num_error option \<Rightarrow> int res" where
  "checked U f val p =
     (case snd p of None \<Rightarrow> Ok (fst p) | Some e \<Rightarrow> Err (GoError (num_error_text U f val e)))"

definition first_value :: "string list \<Rightarrow> string" where
  "first_value v = (case v of [] \<Rightarrow> [] | x # _ \<Rightarrow> TrimSpace x)"

definition bad_param :: "string \<Rightarrow> string \<Rightarrow> 'a res \<Rightarrow> 'a res" where
  "bad_param k val r = wrap_err (''unexpected parameter \"'' @ k @ ''\" with value \"'' @ val @ ''\"'') r"

text \<open>The cases of the switch over the parameter's name.\<close>

datatype param = PSchema | PVersion | PUsername | PPassword | PTls | PTlsSkip | PPageSize | PTimeout | PUnknown

definition param_of :: "string \<Rightarrow> param" where
  "param_of name =
     (if name = ''schema'' then PSchema else if name = ''version'' then PVersion
      else if name = ''username'' then PUsername else if name = ''password'' then PPassword
      else if name = ''tls'' then PTls else if name = ''tls-insecure-skip-verify'' then PTlsSkip
      else if name = ''page-size'' then PPageSize else if name = ''timeout'' then PTimeout else PUnknown)"

definition set_param :: "'z url_host_scheme \<Rightarrow> url_state \<Rightarrow> string \<times> string list \<Rightarrow> url_state res" where
  "set_param U st kv =
     (let (k, v) = kv; val = first_value v in
      case param_of (to_lower U k) of
        PSchema \<Rightarrow> Ok (st\<lparr>us_info := (us_info st)\<lparr>si_Schema := val\<rparr>\<rparr>)
      | PVersion \<Rightarrow> if val = [] then Ok st else rmap (\<lambda>ver. st\<lparr>us_ver := ver\<rparr>) (bad_param k val (new_version U val))
      | PUsername \<Rightarrow> Ok (st\<lparr>us_info := (us_info st)\<lparr>Username := val\<rparr>\<rparr>)
      | PPassword \<Rightarrow> Ok (st\<lparr>us_info := (us_info st)\<lparr>Password := val\<rparr>\<rparr>)
      | PTls \<Rightarrow> rmap (\<lambda>b. st\<lparr>tlsEnabled := b\<rparr>) (bad_param k val (parseYesNo U val))
      | PTlsSkip \<Rightarrow> rmap (\<lambda>b. st\<lparr>tlsInsecureSkipVerify := b\<rparr>) (bad_param k val (parseYesNo U val))
      | PPageSize \<Rightarrow>
          if val = [] then Ok st
          else rmap (\<lambda>n. st\<lparr>us_info := (us_info st)\<lparr>si_PageSize := word_of_int n\<rparr>\<rparr>) (bad_param k val (checked U ''Atoi'' val (Atoi val)))
      | PTimeout \<Rightarrow>
          if val = [] then Ok st
          else rmap (\<lambda>n. st\<lparr>us_info := (us_info st)\<lparr>si_Timeout := word_of_int n\<rparr>\<rparr>) (bad_param k val (checked U ''ParseInt'' val (ParseInt True val)))
      | PUnknown \<Rightarrow> Err (Errorf (''unknown connection parameter \"'' @ k @ ''\" with value \"['' @ join_with '' '' v @ '']\"'')))"

fun set_params :: "'z url_host_scheme \<Rightarrow> url_state \<Rightarrow> (string \<times> string list) list \<Rightarrow> url_state res" where
  "set_params U st [] = Ok st"
| "set_params U st (kv # kvs) = rbind (set_param U st kv) (\<lambda>st. set_params U st kvs)"

definition trim_slashes :: "string \<Rightarrow> string" where
  "trim_slashes s = rev (dropWhile (\<lambda>c. c = CHR ''/'') (rev (dropWhile (\<lambda>c. c = CHR ''/'') s)))"

definition initial_info :: "url \<Rightarrow> sql_info" where
  "initial_info u =
     (let port = fst (Atoi (url_Port u))
      in \<lparr>ci_Major = 0, ci_Minor = 0, ci_Patch = 0, Username = [], Password = [], URL = [],
          Network = (if Scheme u = [] then ''tcp'' else Scheme u),
          Host = (if Hostname u = [] then ''127.0.0.1'' else Hostname u),
          Port = (if port = 0 then 10800 else port), TLSConfig = None, Cache = trim_slashes (Path u),
          si_Schema = [], si_PageSize = 10000, si_Timeout = 0\<rparr>)"

definition parseURL :: "'z url_host_scheme \<Rightarrow> string \<Rightarrow> sql_info res" where
  "parseURL U name =
     rbind (wrap_err ''failed to parse connection name'' (parse_url U name)) (\<lambda>u.
     rbind (set_params U \<lparr>us_info = initial_info u, us_ver = (3, 0, 0), tlsEnabled = False, tlsInsecureSkipVerify = False\<rparr>
              (visit U (url_Query u))) (\<lambda>st.
       let (major, minor, patch) = us_ver st;
           ci = (us_info st)\<lparr>URL := name, ci_Major := major, ci_Minor := minor, ci_Patch := patch\<rparr>;
           ci = (if si_Schema ci = [] then ci\<lparr>si_Schema := ''PUBLIC''\<rparr> else ci)
       in Ok (if tlsEnabled st then ci\<lparr>TLSConfig := Some (tlsInsecureSkipVerify st)\<rparr> else ci)))"

subsection \<open>Opening\<close>

definition unsupported_version :: "sql_info \<Rightarrow> gerror" where
  "unsupported_version ci =
     Errorf (''unsupported protocol version: v'' @ int_text (ci_Major ci) @ ''.'' @ int_text (ci_Minor ci) @ ''.'' @ int_text (ci_Patch ci))"

text \<open>A connector is its connection info. \<open>dial\<close> and \<open>rep\<close> are the network's answers, as in \<^verbatim>\<open>Connect\<close>.\<close>

definition connector_Connect :: "host \<Rightarrow> msgpack \<Rightarrow> ((string \<times> string) list \<Rightarrow> (string \<times> string) list) \<Rightarrow> sql_info \<Rightarrow>
    gerror option \<Rightarrow> reply \<Rightarrow> sql_conn res" where
  "connector_Connect H M iter ci dial rep =
     (if ci_Major ci = 3 then snd (v1_Connect H M iter ci dial rep) else Err (unsupported_version ci))"

definition OpenConnector :: "'z url_host_scheme \<Rightarrow> string \<Rightarrow> sql_info res" where
  "OpenConnector U name = wrap_err ''failed to parse connection name'' (parseURL U name)"

definition Open :: "'z url_host_scheme \<Rightarrow> msgpack \<Rightarrow> ((string \<times> string) list \<Rightarrow> (string \<times> string) list) \<Rightarrow> string \<Rightarrow>
    gerror option \<Rightarrow> reply \<Rightarrow> sql_conn res" where
  "Open U M iter name dial rep =
     rbind (wrap_err ''failed to parse connection name'' (parseURL U name)) (\<lambda>ci.
       if ci_Major ci = 3 then snd (v1_Connect (host.truncate U) M iter ci dial rep) else Err (unsupported_version ci))"

subsection \<open>The order of the parameters\<close>

fun param_text :: "param \<Rightarrow> string" where
  "param_text PSchema = ''schema''"
| "param_text PVersion = ''version''"
| "param_text PUsername = ''username''"
| "param_text PPassword = ''password''"
| "param_text PTls = ''tls''"
| "param_text PTlsSkip = ''tls-insecure-skip-verify''"
| "param_text PPageSize = ''page-size''"
| "param_text PTimeout = ''timeout''"
| "param_text PUnknown = []"

lemma param_text_of: "param_of name \<noteq> PUnknown \<Longrightarrow> param_text (param_of name) = name"
  by (auto simp: param_of_def split: if_splits)

lemma set_param_known: "set_param U st kv = Ok st' \<Longrightarrow> param_of (to_lower U (fst kv)) \<noteq> PUnknown"
  by (cases kv) (auto simp: set_param_def Let_def)

text \<open>The updates each case can make.\<close>

fun updates :: "param \<Rightarrow> (url_state \<Rightarrow> url_state) set" where
  "updates PSchema = range (\<lambda>x s. s\<lparr>us_info := (us_info s)\<lparr>si_Schema := x\<rparr>\<rparr>)"
| "updates PVersion = insert (\<lambda>s. s) (range (\<lambda>x s. s\<lparr>us_ver := x\<rparr>))"
| "updates PUsername = range (\<lambda>x s. s\<lparr>us_info := (us_info s)\<lparr>Username := x\<rparr>\<rparr>)"
| "updates PPassword = range (\<lambda>x s. s\<lparr>us_info := (us_info s)\<lparr>Password := x\<rparr>\<rparr>)"
| "updates PTls = range (\<lambda>x s. s\<lparr>tlsEnabled := x\<rparr>)"
| "updates PTlsSkip = range (\<lambda>x s. s\<lparr>tlsInsecureSkipVerify := x\<rparr>)"
| "updates PPageSize = insert (\<lambda>s. s) (range (\<lambda>x s. s\<lparr>us_info := (us_info s)\<lparr>si_PageSize := x\<rparr>\<rparr>))"
| "updates PTimeout = insert (\<lambda>s. s) (range (\<lambda>x s. s\<lparr>us_info := (us_info s)\<lparr>si_Timeout := x\<rparr>\<rparr>))"
| "updates PUnknown = {}"

lemma updates_commute: "f \<in> updates p \<Longrightarrow> g \<in> updates q \<Longrightarrow> p \<noteq> q \<Longrightarrow> f (g s) = g (f s)"
proof -
  assume "f \<in> updates p" "g \<in> updates q" "p \<noteq> q"
  then show ?thesis by (cases p; cases q) (simp_all only: updates.simps, auto)
qed

lemma set_param_update:
  assumes "set_param U st kv = Ok st'"
  shows "\<exists>f \<in> updates (param_of (to_lower U (fst kv))). st' = f st \<and> (\<forall>s. set_param U s kv = Ok (f s))"
proof -
  obtain k v where kv: "kv = (k, v)" by (cases kv)
  define val where "val = first_value v"
  note d = kv set_param_def val_def [symmetric] Let_def
  show ?thesis
  proof (cases "param_of (to_lower U k)")
    case PVersion
    then show ?thesis using assms by (cases "val = []"; cases "bad_param k val (new_version U val)") (auto simp: d)
  next
    case PTls
    then show ?thesis using assms by (cases "bad_param k val (parseYesNo U val)") (auto simp: d)
  next
    case PTlsSkip
    then show ?thesis using assms by (cases "bad_param k val (parseYesNo U val)") (auto simp: d)
  next
    case PPageSize
    show ?thesis
    proof (cases "val = []")
      case False
      then obtain n where n: "bad_param k val (checked U ''Atoi'' val (Atoi val)) = Ok n"
        "st' = st\<lparr>us_info := (us_info st)\<lparr>si_PageSize := word_of_int n\<rparr>\<rparr>"
        using assms PPageSize by (auto simp: d)
      show ?thesis
        by (rule bexI [of _ "\<lambda>s. s\<lparr>us_info := (us_info s)\<lparr>si_PageSize := word_of_int n\<rparr>\<rparr>"])
          (simp_all add: d n PPageSize False)
    qed (use assms PPageSize in \<open>simp add: d\<close>)
  next
    case PTimeout
    show ?thesis
    proof (cases "val = []")
      case False
      then obtain n where n: "bad_param k val (checked U ''ParseInt'' val (ParseInt True val)) = Ok n"
        "st' = st\<lparr>us_info := (us_info st)\<lparr>si_Timeout := word_of_int n\<rparr>\<rparr>"
        using assms PTimeout by (auto simp: d)
      show ?thesis
        by (rule bexI [of _ "\<lambda>s. s\<lparr>us_info := (us_info s)\<lparr>si_Timeout := word_of_int n\<rparr>\<rparr>"])
          (simp_all add: d n PTimeout False)
    qed (use assms PTimeout in \<open>simp add: d\<close>)
  qed (use assms in \<open>auto simp: d\<close>)
qed

lemma set_param_commute:
  assumes "set_param U st a = Ok st1" "set_param U st1 b = Ok st2" "to_lower U (fst a) \<noteq> to_lower U (fst b)"
  shows "\<exists>st1'. set_param U st b = Ok st1' \<and> set_param U st1' a = Ok st2"
proof -
  have "param_of (to_lower U (fst a)) \<noteq> param_of (to_lower U (fst b))"
    using set_param_known [OF assms(1)] set_param_known [OF assms(2)] assms(3) by (metis param_text_of)
  moreover obtain f where f: "f \<in> updates (param_of (to_lower U (fst a)))" "st1 = f st" "\<And>s. set_param U s a = Ok (f s)"
    using set_param_update [OF assms(1)] by blast
  moreover obtain g where g: "g \<in> updates (param_of (to_lower U (fst b)))" "st2 = g st1" "\<And>s. set_param U s b = Ok (g s)"
    using set_param_update [OF assms(2)] by blast
  ultimately have "f (g st) = g (f st)" using updates_commute by blast
  then show ?thesis using f(2,3) g(2,3) by simp
qed

lemma set_params_front:
  assumes "set_params U st (xs @ a # ys) = Ok st'" "\<forall>x \<in> set xs. to_lower U (fst x) \<noteq> to_lower U (fst a)"
  shows "set_params U st (a # xs @ ys) = Ok st'"
  using assms
proof (induction xs arbitrary: st)
  case (Cons x xs)
  then obtain st1 where "set_param U st x = Ok st1" "set_params U st1 (a # xs @ ys) = Ok st'" by auto
  moreover from this(2) obtain st2 where "set_param U st1 a = Ok st2" "set_params U st2 (xs @ ys) = Ok st'" by auto
  moreover obtain st1' where "set_param U st a = Ok st1'" "set_param U st1' x = Ok st2"
    using set_param_commute [OF calculation(1,3)] Cons.prems(2) by auto
  ultimately show ?case by simp
qed simp

lemma set_params_permute:
  assumes "set_params U st kvs = Ok st'" "mset kvs' = mset kvs" "distinct (map (\<lambda>kv. to_lower U (fst kv)) kvs)"
  shows "set_params U st kvs' = Ok st'"
  using assms
proof (induction kvs' arbitrary: kvs st)
  case (Cons a kvs')
  then have "a \<in> set kvs" by (metis list.set_intros(1) mset_eq_setD)
  then obtain xs ys where k: "kvs = xs @ a # ys" by (meson split_list)
  have "set_params U st (a # xs @ ys) = Ok st'" using Cons.prems k by (intro set_params_front) (force simp: image_iff)+
  then obtain st1 where "set_param U st a = Ok st1" "set_params U st1 (xs @ ys) = Ok st'" by auto
  moreover have "mset kvs' = mset (xs @ ys)" using Cons.prems(2) k by simp
  moreover have "distinct (map (\<lambda>kv. to_lower U (fst kv)) (xs @ ys))" using Cons.prems(3) k by auto
  ultimately show ?case using Cons.IH by simp
qed simp

lemma set_params_known:
  "set_params U st kvs = Ok st' \<Longrightarrow> list_all (\<lambda>kv. param_of (to_lower U (fst kv)) \<noteq> PUnknown) kvs"
  by (induction kvs arbitrary: st) (auto dest: set_param_known)

subsection \<open>Reading decimal numbers\<close>

lemma char_code_digit: "d < 10 \<Longrightarrow> char_code (char_of (48 + d)) = 48 + d"
  by (simp add: char_code_def of_char_of)

lemma uint_digits_append:
  "uint_digits base base0 n us xs = Inl (n', us') \<Longrightarrow>
   uint_digits base base0 n us (xs @ ys) = uint_digits base base0 n' us' ys"
  by (induction xs arbitrary: n us) (auto split: if_splits option.splits)

lemma uint_digits_nat_text:
  "m < 2 ^ 64 \<Longrightarrow> uint_digits 10 base0 0 us (map char_code (nat_text m)) = Inl (m, us)"
proof (induction m rule: nat_text.induct)
  case (1 m)
  have d: "uint_digits 10 base0 n us [char_code (char_of (48 + k))] = Inl (n * 10 + k, us)" if "k < 10" "n * 10 + k < 2 ^ 64" for n k
    using that by (simp add: char_code_digit digit_value_def)
  show ?case
  proof (cases "m < 10")
    case True
    then show ?thesis using d [of m 0] by (simp add: nat_text.simps [of m])
  next
    case False
    then have "uint_digits 10 base0 0 us (map char_code (nat_text (m div 10))) = Inl (m div 10, us)"
      using "1.IH" "1.prems" by simp
    from uint_digits_append [OF this] show ?thesis
      using False d [of "m mod 10" "m div 10"] "1.prems" by (subst nat_text.simps) simp
  qed
qed

lemma nat_text_hd: "m \<noteq> 0 \<Longrightarrow> char_code (hd (nat_text m)) \<noteq> 48"
proof (induction m rule: nat_text.induct)
  case (1 m)
  then show ?case by (subst nat_text.simps) (auto simp: char_code_digit)
qed

lemma nat_text_codes: "c \<in> set (map char_code (nat_text m)) \<Longrightarrow> 48 \<le> c \<and> c \<le> 57"
  using nat_text_digits [of m] by (auto simp: digit_chars_def char_code_def)

lemma base_prefix_decimal: "s \<noteq> [] \<Longrightarrow> hd s \<noteq> 48 \<Longrightarrow> base_prefix s = (10, s)"
  by (auto simp: base_prefix_def neq_Nil_conv split: list.splits)

lemma ParseUint_nat_text: "m < 2 ^ 64 \<Longrightarrow> ParseUint base0 (map char_code (nat_text m)) = Inl m"
proof (cases "m = 0")
  case True
  then show ?thesis by (simp add: ParseUint_def nat_text.simps [of 0] base_prefix_def char_code_def digit_value_def)
next
  case False
  assume "m < 2 ^ 64"
  then have "uint_digits 10 b 0 False (map char_code (nat_text m)) = Inl (m, False)" for b by (rule uint_digits_nat_text)
  moreover have "base_prefix (map char_code (nat_text m)) = (10, map char_code (nat_text m))"
    using nat_text_hd [OF False] by (intro base_prefix_decimal) (simp_all add: hd_map)
  ultimately show ?thesis by (simp add: ParseUint_def)
qed

lemma uint_digits_bound: "uint_digits base base0 n us s = Inl (m, us') \<Longrightarrow> n < 2 ^ 64 \<Longrightarrow> m < 2 ^ 64"
  by (induction s arbitrary: n us) (auto split: if_splits option.splits)

lemma ParseUint_bound: "ParseUint base0 s = Inl n \<Longrightarrow> n < 2 ^ 64"
  by (auto simp: ParseUint_def split: if_splits prod.splits sum.splits dest!: uint_digits_bound)

lemma set_params_visit: "set_params (U\<lparr>visit := f\<rparr>) st kvs = set_params U st kvs"
proof (induction kvs arbitrary: st)
  case (Cons kv kvs)
  have "checked (U\<lparr>visit := f\<rparr>) g val p = checked U g val p" for g val p
    by (simp add: checked_def split: option.split)
  then have "set_param (U\<lparr>visit := f\<rparr>) st kv = set_param U st kv"
    by (cases kv; cases "param_of (to_lower U (fst kv))") (simp_all add: set_param_def parseYesNo_def Let_def)
  with Cons show ?case by simp
qed simp

subsection \<open>Properties\<close>

text \<open>C23: The parameters of a connection name may be visited in any order, as Go's maps are: if no two of them are the same
  up to case, one order gives a connection info exactly when another does, and then the same one.\<close>

theorem parameter_order_irrelevant:
  assumes "parse_url U name = Ok u" and "distinct (map (\<lambda>kv. to_lower U (fst kv)) (url_Query u))"
    and "mset (visit U (url_Query u)) = mset (url_Query u)" and "mset (f (url_Query u)) = mset (url_Query u)"
  shows "parseURL U name = Ok ci \<longleftrightarrow> parseURL (U\<lparr>visit := f\<rparr>) name = Ok ci"
proof -
  have "set_params U st (visit U (url_Query u)) = Ok st' \<longleftrightarrow> set_params U st (f (url_Query u)) = Ok st'" for st st'
  proof -
    have "distinct (map (\<lambda>kv. to_lower U (fst kv)) (visit U (url_Query u)))" "distinct (map (\<lambda>kv. to_lower U (fst kv)) (f (url_Query u)))"
      using assms(2-4) by (metis mset_eq_imp_distinct_iff mset_map)+
    then show ?thesis using set_params_permute [of U st] assms(3,4) by metis
  qed
  then show ?thesis using assms(1) by (simp add: parseURL_def set_params_visit)
qed

text \<open>A URL with the parameters in the order they were written, for the examples.\<close>

definition sample_url_host :: url_host where
  "sample_url_host = \<lparr>sprint_v = \<lambda>_. [], format_float = \<lambda>_. [], rat_set_string = \<lambda>_. None, time_parse = \<lambda>_ _. None,
     to_upper = id, to_lower = id, local_offset = \<lambda>_. 0, equal_fold = ascii_fold, time_text = \<lambda>_. [],
     parse_url = \<lambda>_. Ok \<lparr>Scheme = [], Hostname = ''h'', url_Port = ''1'', Path = ''/c/'',
                          url_Query = [(''schema'', [''S'']), (''timeout'', [''500''])]\<rparr>,
     new_version = \<lambda>_. Ok (3, 0, 0), visit = id, num_error_text = \<lambda>_ _ _. []\<rparr>"

theorem parameter_order_irrelevant_witness:
  "parseURL sample_url_host ''n'' = Ok sample_info \<longleftrightarrow> parseURL (sample_url_host\<lparr>visit := rev\<rparr>) ''n'' = Ok sample_info"
  by (rule parameter_order_irrelevant [where u = "\<lparr>Scheme = [], Hostname = ''h'', url_Port = ''1'', Path = ''/c/'',
        url_Query = [(''schema'', [''S'']), (''timeout'', [''500''])]\<rparr>"]) (simp_all add: sample_url_host_def)

text \<open>A page size or timeout written in decimal is read as that number, for every int64, with or without automatic
  base; and whatever the text is, the number obtained fits an int64 and an accepted one needs no clipping.\<close>

theorem number_parameters_exact:
  assumes "int_in 64 n"
  shows "ParseInt base0 (int_text n) = (n, None) \<and> int_in 64 (fst (ParseInt base0 s))"
proof -
  have b: "nat \<bar>n\<bar> < 2 ^ 64" "- (2 ^ 63) \<le> n" "n < 2 ^ 63" using assms by (auto simp: int_in_def)
  have h: "hd (map char_code (nat_text m)) \<noteq> 45" "hd (map char_code (nat_text m)) \<noteq> 43" for m
  proof -
    have "hd (map char_code (nat_text m)) \<in> set (map char_code (nat_text m))" by (rule hd_in_set) simp
    from nat_text_codes [OF this] show "hd (map char_code (nat_text m)) \<noteq> 45" "hd (map char_code (nat_text m)) \<noteq> 43" by simp_all
  qed
  have "char_code (CHR ''-'') = 45" by (simp add: char_code_def)
  then have "ParseInt base0 (int_text n) = (n, None)"
    using b h ParseUint_nat_text [OF b(1), of base0] by (auto simp: ParseInt_def int_text_parts Let_def)
  moreover have "int_in 64 (fst (ParseInt base0 s))"
    using ParseUint_bound [of base0] by (auto simp: ParseInt_def Let_def int_in_def split: sum.split num_error.split)
  ultimately show ?thesis by blast
qed

theorem number_parameters_exact_witness:
  "ParseInt True (int_text (-42)) = (-42, None) \<and> int_in 64 (fst (ParseInt True ''0x_fff''))"
  by (rule number_parameters_exact) (simp add: int_in_def)

text \<open>C27: A connection name with no parameters is accepted with the documented defaults for everything it leaves out:
  tcp, 127.0.0.1, port 10800 when none or none that is a number is given, protocol version 3.0.0, no user name and no password,
  schema PUBLIC, pages of 10000 rows, no timeout, no TLS. The cache name is the path without its slashes; it is
  documented as mandatory, but an empty one is accepted. \<^verbatim>\<open>Open\<close> then connects with these.\<close>

theorem connection_name_defaults:
  assumes "parse_url U name = Ok u" and "url_Query u = []" and "mset (visit U (url_Query u)) = mset (url_Query u)"
  shows "\<exists>ci. parseURL U name = Ok ci \<and> URL ci = name \<and> ci_Major ci = 3 \<and> ci_Minor ci = 0 \<and> ci_Patch ci = 0 \<and>
    Network ci = (if Scheme u = [] then ''tcp'' else Scheme u) \<and> Host ci = (if Hostname u = [] then ''127.0.0.1'' else Hostname u) \<and>
    Port ci = (if fst (Atoi (url_Port u)) = 0 then 10800 else fst (Atoi (url_Port u))) \<and> Username ci = [] \<and> Password ci = [] \<and>
    si_Schema ci = ''PUBLIC'' \<and> si_PageSize ci = 10000 \<and> si_Timeout ci = 0 \<and> TLSConfig ci = None \<and> Cache ci = trim_slashes (Path u) \<and>
    Open U M iter name dial rep = snd (v1_Connect (host.truncate U) M iter ci dial rep)"
proof -
  have "visit U (url_Query u) = []" using assms(2,3) by simp
  then show ?thesis using assms(1) by (simp add: parseURL_def Open_def initial_info_def Let_def)
qed

text \<open>The name of the test \<^verbatim>\<open>success test 2\<close> of driver\_test.go, as \<^verbatim>\<open>url.Parse\<close> splits it.\<close>

definition sample_plain_host :: url_host where
  "sample_plain_host = sample_url_host\<lparr>parse_url := \<lambda>_. Ok \<lparr>Scheme = ''tcp'', Hostname = ''localhost'', url_Port = [],
     Path = ''/TestDB2'', url_Query = []\<rparr>\<rparr>"

theorem connection_name_defaults_witness:
  "\<exists>ci. parseURL sample_plain_host ''tcp://localhost/TestDB2'' = Ok ci \<and> URL ci = ''tcp://localhost/TestDB2'' \<and>
    ci_Major ci = 3 \<and> ci_Minor ci = 0 \<and> ci_Patch ci = 0 \<and> Network ci = ''tcp'' \<and> Host ci = ''localhost'' \<and> Port ci = 10800 \<and>
    Username ci = [] \<and> Password ci = [] \<and> si_Schema ci = ''PUBLIC'' \<and> si_PageSize ci = 10000 \<and> si_Timeout ci = 0 \<and>
    TLSConfig ci = None \<and> Cache ci = ''TestDB2''"
  using connection_name_defaults [of sample_plain_host "''tcp://localhost/TestDB2''"
      "\<lparr>Scheme = ''tcp'', Hostname = ''localhost'', url_Port = [], Path = ''/TestDB2'', url_Query = []\<rparr>" ref_codec id None "Arrives []"]
  by (auto simp: sample_plain_host_def sample_url_host_def Atoi_def ParseInt_def ParseUint_def trim_slashes_def)

end
