(* ===== verification/TupleOps.thy ===== *)
theory TupleOps
  imports Schemas BinaryTuple
begin

text \<open>
  Key-value writes (client-tuple-operations.go): rows and keys are encoded as binary tuples, framed and sent as one
  request. \<open>serve_write\<close> is the reading of such a request by a server; the refinement is that every write arrives
  there as the command it was meant to be.
\<close>

subsection \<open>The request\<close>

definition writePackedEmptyBitSet :: "byte list" where
  "writePackedEmptyBitSet = [0xc7, 0x00, 8]"

definition SchemaVersion :: "table_schema \<Rightarrow> int" where
  "SchemaVersion s = Version s"

text \<open>\<^verbatim>\<open>int64(tableId)\<close> of a Go int, which has 64 bits.\<close>

definition write_payload :: "msgpack \<Rightarrow> 64 word \<Rightarrow> 64 word \<Rightarrow> byte list list \<Rightarrow> byte list" where
  "write_payload M tableId schemaVersion tuples =
     WritePackedInt64 M tableId @ WritePackedNull M @ WritePackedInt64 M schemaVersion @
     WritePackedInt64 M (word_of_nat (length tuples)) @
     concat (map (\<lambda>tuple. writePackedEmptyBitSet @ WritePackedBytes M tuple) tuples)"

definition tupleWriteAll ::
  "msgpack \<Rightarrow> client \<Rightarrow> 16 word \<Rightarrow> 64 word \<Rightarrow> 64 word \<Rightarrow> byte list list \<Rightarrow> reply \<Rightarrow> client \<times> unit res" where
  "tupleWriteAll M c opCode tableId schemaVersion tuples rep =
     (if tuples = [] then (c, Ok ())
      else let (c, r) = operate M c opCode (write_payload M tableId schemaVersion tuples)
                          (''failed to execute tuple operation '' @ int_text (sint opCode)) rep
           in (c, rmap (\<lambda>_. ()) r))"

definition TableUpsertAll where
  "TableUpsertAll M c tableId schemaVersion rows rep = tupleWriteAll M c OpTupleUpsertAll tableId schemaVersion rows rep"

definition TableDeleteAll where
  "TableDeleteAll M c tableId schemaVersion keys rep = tupleWriteAll M c OpTupleDeleteAll tableId schemaVersion keys rep"

subsection \<open>Rows\<close>

text \<open>
  A row is a Go map: its entries in the order the iteration visits them. A later entry replaces an earlier one
  whose name is equal up to case.
\<close>

type_synonym row = "(string \<times> goval) list"

definition row_lookup :: "host \<Rightarrow> row \<Rightarrow> string \<Rightarrow> goval" where
  "row_lookup H row name =
     (case map_of (rev (map (\<lambda>(k, v). (to_upper H k, v)) row)) (to_upper H name) of Some v \<Rightarrow> v | None \<Rightarrow> VNil)"

definition buildTuple :: "host \<Rightarrow> table_column slice_sort \<Rightarrow> table_schema \<Rightarrow> row \<Rightarrow> bool \<Rightarrow> byte list res" where
  "buildTuple H sorter s row keyOnly =
     (let columns = (if keyOnly then KeyColumns sorter s else ts_Columns s)
      in BuildBinaryTuple H (map (\<lambda>col. \<lparr>Kind = tc_Kind col, ColScale = tc_Scale col\<rparr>) columns)
           (map (\<lambda>col. row_lookup H row (tc_Name col)) columns))"

fun encode_rows :: "string \<Rightarrow> (row \<Rightarrow> byte list res) \<Rightarrow> nat \<Rightarrow> row list \<Rightarrow> byte list list res" where
  "encode_rows ctxt enc i [] = Ok []"
| "encode_rows ctxt enc i (row # rows) =
     rbind (wrap_err (ctxt @ int_text (int i)) (enc row)) (\<lambda>tuple.
     rmap (\<lambda>tuples. tuple # tuples) (encode_rows ctxt enc (Suc i) rows))"

text \<open>A handle always has its schema (\<^verbatim>\<open>GetTableByName\<close>); a handle without one panics.\<close>

definition with_schema :: "client \<Rightarrow> table \<Rightarrow> (table_schema \<Rightarrow> client \<times> 'a res) \<Rightarrow> client \<times> 'a res" where
  "with_schema c t f = (case t_Schema t of None \<Rightarrow> (c, Panic NilDereference) | Some s \<Rightarrow> f s)"

definition UpsertAll ::
  "host \<Rightarrow> msgpack \<Rightarrow> table_column slice_sort \<Rightarrow> client \<Rightarrow> table \<Rightarrow> row list \<Rightarrow> reply \<Rightarrow> client \<times> unit res" where
  "UpsertAll H M sorter c t rows rep =
     (if rows = [] then (c, Ok ())
      else with_schema c t (\<lambda>s.
        case encode_rows ''failed to encode row '' (\<lambda>row. buildTuple H sorter s row False) 0 rows of
          Ok tuples \<Rightarrow> TableUpsertAll M c (word_of_int (t_Id t)) (word_of_int (SchemaVersion s)) tuples rep
        | Err e \<Rightarrow> (c, Err e)
        | Panic p \<Rightarrow> (c, Panic p)))"

definition DeleteAll ::
  "host \<Rightarrow> msgpack \<Rightarrow> table_column slice_sort \<Rightarrow> client \<Rightarrow> table \<Rightarrow> row list \<Rightarrow> reply \<Rightarrow> client \<times> unit res" where
  "DeleteAll H M sorter c t keys rep =
     (if keys = [] then (c, Ok ())
      else with_schema c t (\<lambda>s.
        case encode_rows ''failed to encode key '' (\<lambda>key. buildTuple H sorter s key True) 0 keys of
          Ok tuples \<Rightarrow> TableDeleteAll M c (word_of_int (t_Id t)) (word_of_int (SchemaVersion s)) tuples rep
        | Err e \<Rightarrow> (c, Err e)
        | Panic p \<Rightarrow> (c, Panic p)))"

subsection \<open>What a server reads\<close>

datatype command = WriteRows "16 word" "64 word" int int "byte list list"

definition read_mask :: "byte list \<Rightarrow> (byte list \<times> byte list) res" where
  "read_mask r =
     (case r of c # n # t # r \<Rightarrow> if c = 0xc7 \<and> n = 0 \<and> t = 8 then Ok ([], r) else Err (GoError ''mask'')
      | _ \<Rightarrow> Err (GoError ''mask''))"

fun read_rows :: "msgpack \<Rightarrow> nat \<Rightarrow> byte list \<Rightarrow> byte list list res" where
  "read_rows M 0 r = (if r = [] then Ok [] else Err (GoError ''trailing bytes''))"
| "read_rows M (Suc n) r =
     readf [] read_mask r (\<lambda>_ r. readf [] (ReadPackedBytes M) r (\<lambda>b r. rmap ((#) b) (read_rows M n r)))"

definition serve_write :: "msgpack \<Rightarrow> byte list \<Rightarrow> command res" where
  "serve_write M f =
     readf [] response_ReadFrom f (\<lambda>(p, n) rest.
     if rest \<noteq> [] then Err (GoError ''trailing bytes'')
     else readf [] (ReadPackedInt64 M) p (\<lambda>code p.
     readf [] (ReadPackedInt64 M) p (\<lambda>rid p.
     readf [] (ReadPackedInt64 M) p (\<lambda>tid p.
     readf [] (TryReadPackedNil M) p (\<lambda>no_tx p.
     readf [] (ReadPackedInt64 M) p (\<lambda>ver p.
     readf [] (ReadPackedInt64 M) p (\<lambda>cnt p.
     if \<not> no_tx then Err (GoError ''transaction'')
     else rmap (WriteRows (ucast code) rid (sint tid) (sint ver)) (read_rows M (unat cnt) p))))))))"

context msgpack_codec
begin

lemma readf_nil [simp]: "readf ctxt (TryReadPackedNil M) (WritePackedNull M @ r) k = k True r"
  by (rule readf_Ok) (rule try_nil)

lemma read_rows_enc:
  assumes "\<forall>b \<in> set bs. length b < 2 ^ 32"
  shows "read_rows M (length bs) (concat (map (\<lambda>b. writePackedEmptyBitSet @ WritePackedBytes M b) bs)) = Ok bs"
  using assms
proof (induction bs)
  case (Cons b bs)
  have "readf ctxt read_mask (writePackedEmptyBitSet @ r) k = k [] r" for ctxt r and k :: "byte list \<Rightarrow> byte list \<Rightarrow> byte list list res"
    by (rule readf_Ok) (simp add: read_mask_def writePackedEmptyBitSet_def)
  then show ?case using Cons by simp
qed simp

lemma serve_write_request:
  assumes "length (request_payload M op rid (write_payload M tid ver bs)) < 2 ^ 31" "\<forall>b \<in> set bs. length b < 2 ^ 32"
  shows "serve_write M (RequestOperation_WriteTo M op rid (write_payload M tid ver bs)) =
    Ok (WriteRows op rid (sint tid) (sint ver) bs)"
proof -
  have "length bs \<le> length (concat (map (\<lambda>b. writePackedEmptyBitSet @ WritePackedBytes M b) bs))"
    by (induction bs) (simp_all add: writePackedEmptyBitSet_def)
  then have "length bs < 2 ^ 31" using assms(1) by (simp add: request_payload_def write_payload_def)
  then have "unat (word_of_nat (length bs) :: 64 word) = length bs" by (intro unat_word_of_nat_id) simp
  moreover have "(ucast (scast op :: 64 word) :: 16 word) = op" by (rule bit_word_eqI) (auto simp: bit_simps)
  moreover have "readf [] response_ReadFrom (RequestOperation_WriteTo M op rid (write_payload M tid ver bs)) k =
    k (request_payload M op rid (write_payload M tid ver bs),
       4 + int (length (request_payload M op rid (write_payload M tid ver bs)))) []" for k :: "byte list \<times> int \<Rightarrow> byte list \<Rightarrow> command res"
    using readf_frame [OF assms(1)] by (simp add: RequestOperation_frame frame_def)
  ultimately show ?thesis using read_rows_enc [OF assms(2)]
    by (simp add: serve_write_def request_payload_def write_payload_def)
qed

end

lemma encode_rows_Ok_iff: "encode_rows ctxt enc i rows = Ok ts \<longleftrightarrow> mapR enc rows = Ok ts"
  by (induction rows arbitrary: i ts) auto

lemma encode_rows_failure:
  assumes "k < length rows" "\<forall>i < k. \<exists>b. enc (rows ! i) = Ok b" "enc (rows ! k) = Err e"
  shows "encode_rows ctxt enc j rows = Err (Wrapf e (ctxt @ int_text (int (j + k))))"
  using assms
proof (induction rows arbitrary: j k)
  case (Cons row rows)
  show ?case
  proof (cases k)
    case 0
    then show ?thesis using Cons.prems by simp
  next
    case (Suc k')
    obtain b where "enc row = Ok b" using Cons.prems(2) Suc by fastforce
    moreover have "encode_rows ctxt enc (Suc j) rows = Err (Wrapf e (ctxt @ int_text (int (Suc j + k'))))"
      using Cons.prems Suc by (intro Cons.IH) auto
    ultimately show ?thesis using Suc by simp
  qed
qed simp

lemma tupleWriteAll_state:
  "conn c \<Longrightarrow> tuples \<noteq> [] \<Longrightarrow>
   fst (tupleWriteAll M c op tid ver tuples (Arrives bs)) =
     c\<lparr>RequestId := RequestId c + 1,
       sent := sent c @ [RequestOperation_WriteTo M op (RequestId c) (write_payload M tid ver tuples)]\<rparr>"
  by (simp add: tupleWriteAll_def operate_state Do_state split: prod.split)
    (simp flip: operate_state [where rep = "Arrives bs"] add: operate_state Do_state prod_eq_iff)

text \<open>\<open>write_all keyOnly\<close> is \<^verbatim>\<open>DeleteAll\<close> or \<^verbatim>\<open>UpsertAll\<close>.\<close>

definition write_all :: "bool \<Rightarrow> host \<Rightarrow> msgpack \<Rightarrow> table_column slice_sort \<Rightarrow> client \<Rightarrow> table \<Rightarrow> row list \<Rightarrow>
    reply \<Rightarrow> client \<times> unit res" where
  "write_all keyOnly = (if keyOnly then DeleteAll else UpsertAll)"

lemma write_eq:
  assumes "rows \<noteq> []" "t_Schema t = Some s"
  shows "write_all k H M sorter c t rows rep =
    (case encode_rows (if k then ''failed to encode key '' else ''failed to encode row '') (\<lambda>row. buildTuple H sorter s row k) 0 rows of
       Ok tuples \<Rightarrow> tupleWriteAll M c (if k then 29 else 13) (word_of_int (t_Id t)) (word_of_int (Version s)) tuples rep
     | Err e \<Rightarrow> (c, Err e)
     | Panic p \<Rightarrow> (c, Panic p))"
  using assms
  by (simp add: write_all_def DeleteAll_def UpsertAll_def with_schema_def TableDeleteAll_def TableUpsertAll_def SchemaVersion_def
      cong: res.case_cong)

subsection \<open>Properties\<close>

text \<open>C2: a write whose rows can all be encoded reaches the server as one request, which the server reads as exactly
  the intended command: upsert or delete, the table, the schema version and the encoded rows in order.\<close>

theorem write_refines_command:
  assumes "msgpack_codec M" and "conn c" and "rows \<noteq> []" and "t_Schema t = Some s"
    and "int_in 64 (t_Id t)" and "int_in 64 (Version s)"
    and "mapR (\<lambda>row. buildTuple H sorter s row k) rows = Ok tuples" and "\<forall>b \<in> set tuples. length b < 2 ^ 32"
    and "length (request_payload M (if k then 29 else 13) (RequestId c)
           (write_payload M (word_of_int (t_Id t)) (word_of_int (Version s)) tuples)) < 2 ^ 31"
  shows "\<exists>f. sent (fst (write_all k H M sorter c t rows (Arrives bs))) = sent c @ [f] \<and>
    serve_write M f = Ok (WriteRows (if k then 29 else 13) (RequestId c) (t_Id t) (Version s) tuples)"
proof -
  have "length tuples = length rows" using assms(7) by (rule mapR_length)
  then have "tuples \<noteq> []" using assms(3) by auto
  moreover have "encode_rows ctxt (\<lambda>row. buildTuple H sorter s row k) 0 rows = Ok tuples" for ctxt
    using assms(7) by (simp add: encode_rows_Ok_iff)
  ultimately show ?thesis
    using msgpack_codec.serve_write_request [OF assms(1,9,8)] tupleWriteAll_state [OF assms(2)]
    by (simp add: write_eq [OF assms(3,4)] sint_of_int64 assms(5,6))
qed

definition sample_table :: table where
  "sample_table = \<lparr>t_Id = 9, t_Name = ''T'', t_Schema = Some \<lparr>Version = 3, ts_Columns = [sample_column]\<rparr>\<rparr>"

lemma sample_row: "buildTuple exact_host insertion_sort \<lparr>Version = 3, ts_Columns = [sample_column]\<rparr> [(''ID'', VInt 7)] k = Ok [0, 1, 7]"
  by (cases k) (simp_all add: buildTuple_def KeyColumns_def insertion_sort_def row_lookup_def sample_column_def exact_host_def build_simps toInt64_def
      putBinaryTupleInt_def int_in_def word_le_def)

theorem write_refines_command_witness:
  "\<exists>f. sent (fst (write_all True exact_host ref_codec insertion_sort sample_client sample_table [[(''ID'', VInt 7)]] (Arrives []))) =
      sent sample_client @ [f] \<and>
    serve_write ref_codec f = Ok (WriteRows (if True then 29 else 13) (RequestId sample_client) (t_Id sample_table)
      (Version \<lparr>Version = 3, ts_Columns = [sample_column]\<rparr>) [[0, 1, 7]])"
proof (rule write_refines_command [OF ref.msgpack_codec_axioms])
  show "length (request_payload ref_codec (if True then 29 else 13) (RequestId sample_client)
      (write_payload ref_codec (word_of_int (t_Id sample_table)) (word_of_int (Version \<lparr>Version = 3, ts_Columns = [sample_column]\<rparr>)) [[0, 1, 7]])) < 2 ^ 31"
    by (simp add: sample_simps request_payload_def write_payload_def sample_client_def sample_table_def writePackedEmptyBitSet_def)
qed (simp_all add: sample_client_def sample_table_def sample_row int_in_def)

text \<open>C17: a write is all or nothing on the client's side: when a row cannot be encoded, nothing is sent, the client is
  unchanged, and the error names the first such row.\<close>

theorem write_all_or_nothing:
  assumes "t_Schema t = Some s" and "n < length rows"
    and "\<forall>i < n. \<exists>b. buildTuple H sorter s (rows ! i) k = Ok b" and "buildTuple H sorter s (rows ! n) k = Err e"
  shows "write_all k H M sorter c t rows rep =
    (c, Err (Wrapf e ((if k then ''failed to encode key '' else ''failed to encode row '') @ int_text (int n))))"
proof -
  have "rows \<noteq> []" using assms(2) by auto
  then show ?thesis using encode_rows_failure [OF assms(2-4), of _ 0] assms(1) by (simp add: write_eq)
qed

theorem write_all_or_nothing_witness:
  "write_all False exact_host ref_codec insertion_sort sample_client
     (sample_table\<lparr>t_Schema := Some \<lparr>Version = 3, ts_Columns = [sample_column\<lparr>tc_Kind := BtUuid\<rparr>]\<rparr>\<rparr>) [[(''ID'', VBool True)]] (Arrives []) =
    (sample_client, Err (Wrapf (Errorf (''binary tuple: column '' @ nat_text 0 @ '': '' @ err_text (Errorf (''cannot convert '' @ ''bool'' @ '' to UUID''))))
      ((if False then ''failed to encode key '' else ''failed to encode row '') @ int_text (int 0))))"
  by (rule write_all_or_nothing [where s = "\<lparr>Version = 3, ts_Columns = [sample_column\<lparr>tc_Kind := BtUuid\<rparr>]\<rparr>"])
    (simp_all add: sample_table_def buildTuple_def row_lookup_def sample_column_def exact_host_def build_simps)

text \<open>C25: a row is encoded the same way in whatever order its map is visited, as long as no two of its names are
  equal up to case; a column without an entry is encoded as NULL.\<close>

theorem row_order_irrelevant:
  assumes "mset row = mset row'" and "distinct (map (\<lambda>(k, v). to_upper H k) row)"
  shows "buildTuple H sorter s row keyOnly = buildTuple H sorter s row' keyOnly \<and>
    (to_upper H name \<notin> (\<lambda>(k, v). to_upper H k) ` set row \<longrightarrow> row_lookup H row name = VNil)"
proof -
  let ?u = "map (\<lambda>(k, v). (to_upper H k, v))"
  have d: "map fst (?u r) = map (\<lambda>(k, v). to_upper H k) r" for r by (simp add: comp_def case_prod_beta)
  have d1: "distinct (map fst (?u row))" using assms(2) by (simp only: d)
  have "mset (map fst (?u row)) = mset (map fst (?u row'))" using assms(1) by (simp only: mset_map)
  then have d2: "distinct (map fst (?u row'))" using d1 by (metis mset_eq_imp_distinct_iff)
  have "set (rev (?u row)) = set (rev (?u row'))" using assms(1) by (metis mset_map mset_rev set_mset_mset)
  moreover have "distinct (map fst (rev (?u row)))" "distinct (map fst (rev (?u row')))"
    using d1 d2 by (simp_all only: rev_map [symmetric] distinct_rev)
  ultimately have "map_of (rev (?u row)) = map_of (rev (?u row'))" by (simp only: map_of_inject_set)
  then have l: "row_lookup H row = row_lookup H row'" by (simp add: row_lookup_def fun_eq_iff)
  have "row_lookup H row name = VNil" if "to_upper H name \<notin> (\<lambda>(k, v). to_upper H k) ` set row"
  proof -
    have "to_upper H name \<notin> fst ` set (rev (?u row))" using that by (auto simp: image_iff)
    then have "map_of (rev (?u row)) (to_upper H name) = None" by (simp add: map_of_eq_None_iff)
    then show ?thesis by (simp add: row_lookup_def)
  qed
  then show ?thesis by (simp add: buildTuple_def l)
qed

theorem row_order_irrelevant_witness:
  "buildTuple exact_host insertion_sort \<lparr>Version = 3, ts_Columns = [sample_column]\<rparr> [(''ID'', VInt 7), (''B'', VNil)] False =
     buildTuple exact_host insertion_sort \<lparr>Version = 3, ts_Columns = [sample_column]\<rparr> [(''B'', VNil), (''ID'', VInt 7)] False \<and>
   row_lookup exact_host [(''ID'', VInt 7), (''B'', VNil)] ''C'' = VNil"
proof -
  have "buildTuple exact_host insertion_sort \<lparr>Version = 3, ts_Columns = [sample_column]\<rparr> [(''ID'', VInt 7), (''B'', VNil)] False =
     buildTuple exact_host insertion_sort \<lparr>Version = 3, ts_Columns = [sample_column]\<rparr> [(''B'', VNil), (''ID'', VInt 7)] False \<and>
    (to_upper exact_host ''C'' \<notin> (\<lambda>(k, v). to_upper exact_host k) ` set [(''ID'', VInt 7), (''B'', VNil)] \<longrightarrow>
      row_lookup exact_host [(''ID'', VInt 7), (''B'', VNil)] ''C'' = VNil)"
    by (rule row_order_irrelevant) (simp_all add: exact_host_def)
  then show ?thesis by (simp add: exact_host_def)
qed

end
