(* ===== verification/Session.thy ===== *)
theory Session
  imports SqlConn
begin

text \<open>
  Whole sessions of the driver: any sequence of queries, statements, pings, row reads, closings and finalizers over one
  connection. There are two views. A session is a run of the client (\<open>client_run\<close>), which gives the order of the ids on
  the wire; and it refines, operation by operation, a machine that knows only the wire: which frame each operation
  sends, with which id and payload, and when the connection is closed (\<open>wire_step\<close>).
\<close>

subsection \<open>Steps of a session\<close>

text \<open>The rows are those of any query; the network's answers, the sorter and the times are arbitrary.\<close>

inductive session_step :: "host \<Rightarrow> msgpack \<Rightarrow> sql_conn \<Rightarrow> sql_conn \<Rightarrow> bool" for H M where
  query: "session_step H M c (fst (QueryContext M sorter c query args now rep))"
| exec: "session_step H M c (fst (ExecContext H M sorter c query args now rep rep'))"
| statement_query: "session_step H M c (fst (stmt_QueryContext M sorter c s args now rep))"
| statement_exec: "session_step H M c (fst (stmt_ExecContext H M sorter c s args now rep rep'))"
| ping: "session_step H M c (fst (Ping H M c now rep rep'))"
| next_row: "session_step H M c (fst (Next H M c r n rep))"
| close_rows: "session_step H M c (fst (rows_Close M c r rep))"
| finalize_rows: "session_step H M c (fst (rowsFinalizer M c r rep))"
| close: "session_step H M c (fst (conn_Close c e))"
| finalize: "session_step H M c (connFinalizer c e)"

inductive session_run :: "host \<Rightarrow> msgpack \<Rightarrow> sql_conn \<Rightarrow> nat \<Rightarrow> sql_conn \<Rightarrow> bool" for H M where
  start: "session_run H M c 0 c"
| more: "session_run H M c n c1 \<Longrightarrow> session_step H M c1 c2 \<Longrightarrow> session_run H M c (Suc n) c2"

text \<open>The client a connection stands for.\<close>

definition stands_for :: "sql_conn \<Rightarrow> client \<Rightarrow> bool" where
  "stands_for c cl \<longleftrightarrow> (case sql_client c of Some cl' \<Rightarrow> cl' = cl | None \<Rightarrow> \<not> conn cl)"

text \<open>What takes the connection from \<open>c\<close> to \<open>c'\<close> takes its client at most \<open>k\<close> steps.\<close>

definition simulated :: "msgpack \<Rightarrow> nat \<Rightarrow> sql_conn \<Rightarrow> sql_conn \<Rightarrow> bool" where
  "simulated M k c c' \<longleftrightarrow>
     (\<forall>cl. stands_for c cl \<longrightarrow> (\<exists>m \<le> k. \<exists>cl'. client_run M cl m cl' \<and> stands_for c' cl'))"

subsection \<open>The simulation\<close>

lemma client_run_trans:
  assumes "client_run M a m b" "client_run M b n c"
  shows "client_run M a (m + n) c"
  using assms(2,1) by (induction rule: client_run.induct) (auto intro: client_run.more)

lemma client_step_run: "client_step M c c' \<Longrightarrow> client_run M c 1 c'"
  using client_run.more [OF client_run.start] by simp

named_theorems simulation

lemma simulated_refl [simulation]: "simulated M k c c"
  unfolding simulated_def by (blast intro: client_run.start)

lemma simulated_trans:
  assumes "simulated M j a b" "simulated M k b c" "j + k \<le> n"
  shows "simulated M n a c"
  unfolding simulated_def
proof (intro allI impI)
  fix cl assume "stands_for a cl"
  then obtain m cl1 where 1: "m \<le> j" "client_run M cl m cl1" "stands_for b cl1"
    using assms(1) unfolding simulated_def by blast
  then obtain m' cl2 where 2: "m' \<le> k" "client_run M cl1 m' cl2" "stands_for c cl2"
    using assms(2) unfolding simulated_def by blast
  show "\<exists>m \<le> n. \<exists>cl'. client_run M cl m cl' \<and> stands_for c cl'"
    using client_run_trans [OF 1(2) 2(2)] 1(1) 2(1,3) assms(3) by (intro exI [of _ "m + m'"]) auto
qed

lemma simulated_le: "simulated M k a b \<Longrightarrow> k \<le> n \<Longrightarrow> simulated M n a b"
  by (rule simulated_trans [OF _ simulated_refl [of M 0]]) simp_all

lemma with_client_simulated:
  assumes "\<And>cl. conn cl \<Longrightarrow> fst (f cl) = cl \<or> client_step M cl (fst (f cl))"
  shows "simulated M 1 c (fst (with_client c f))"
  unfolding simulated_def
proof (intro allI impI)
  fix cl assume s: "stands_for c cl"
  show "\<exists>m \<le> 1. \<exists>cl'. client_run M cl m cl' \<and> stands_for (fst (with_client c f)) cl'"
  proof (cases "sql_client c = Some cl \<and> conn cl")
    case True
    then have "stands_for (fst (with_client c f)) (fst (f cl))"
      by (simp add: with_client_def Connected_def stands_for_def split: prod.splits)
    moreover have "client_run M cl 0 (fst (f cl)) \<or> client_run M cl 1 (fst (f cl))"
      using assms [of cl] True client_run.start [of M cl] client_step_run by auto
    ultimately show ?thesis by (meson le_refl zero_le)
  next
    case False
    then have "fst (with_client c f) = c"
      using s by (auto simp: with_client_def Connected_def stands_for_def split: option.splits)
    then show ?thesis using s client_run.start [of M cl] by auto
  qed
qed

lemma QuerySQLFieldsRaw_step:
  "conn cl \<Longrightarrow> fst (QuerySQLFieldsRaw M cl d now rep) = cl \<or> client_step M cl (fst (QuerySQLFieldsRaw M cl d now rep))"
  by (auto simp: QuerySQLFieldsRaw_def intro: client_step.operation split: res.splits)

lemma QuerySQLFields_client: "fst (QuerySQLFields H M cl d now rep) = fst (QuerySQLFieldsRaw M cl d now rep)"
  by (simp add: QuerySQLFields_def split_beta)

text \<open>The call as \<^verbatim>\<open>ExecContext\<close> makes it.\<close>

abbreviation exec_query :: "host \<Rightarrow> msgpack \<Rightarrow> query_data \<Rightarrow> gotime \<Rightarrow> reply \<Rightarrow> client \<Rightarrow> client \<times> query_result res" where
  "exec_query H M d now rep cl \<equiv> (let (cl, res, err) = QuerySQLFields H M cl d now rep in (cl, rmap (\<lambda>_. res) err))"

lemma exec_query_client: "fst (exec_query H M d now rep cl) = fst (QuerySQLFieldsRaw M cl d now rep)"
  by (simp add: split_beta QuerySQLFields_client)

lemma exec_query_step: "conn cl \<Longrightarrow> fst (exec_query H M d now rep cl) = cl \<or> client_step M cl (fst (exec_query H M d now rep cl))"
  unfolding exec_query_client by (rule QuerySQLFieldsRaw_step)

lemma ResourceClose_step:
  "conn cl \<Longrightarrow> fst (ResourceClose M cl i rep) = cl \<or> client_step M cl (fst (ResourceClose M cl i rep))"
  using client_step.operation [of cl M OpSqlCursorClose "[]" _ rep]
  by (auto simp: ResourceClose_def split: prod.splits) (metis fst_conv)

lemma resourceClose_simulated [simulation]: "simulated M 1 c (fst (resourceClose M c i rep))"
  unfolding resourceClose_def by (intro with_client_simulated ResourceClose_step)

lemma QueryContext_simulated [simulation]: "simulated M 1 c (fst (QueryContext M sorter c query args now rep))"
  using with_client_simulated [of "\<lambda>cl. QuerySQLFieldsRaw M cl d now rep" M c for d] QuerySQLFieldsRaw_step
  by (auto simp: QueryContext_def Let_def simulated_refl split: prod.splits) (metis fst_conv)

lemma ExecContext_simulated [simulation]: "simulated M 2 c (fst (ExecContext H M sorter c query args now rep rep'))"
proof (cases "isConnected c")
  case False
  then show ?thesis by (simp add: ExecContext_def simulated_refl)
next
  case True
  define d where "d = \<lparr>qd_Schema = si_Schema (info c), PageSize = 10000, Query = query, QueryArgs = ordered_args sorter args,
    Timeout = si_Timeout (info c)\<rparr>"
  obtain c1 r where 1: "with_client c (exec_query H M d now rep) = (c1, r)" by fastforce
  have s: "simulated M 1 c c1"
    using with_client_simulated [of "exec_query H M d now rep" M c, OF exec_query_step] 1 by simp
  have "fst (ExecContext H M sorter c query args now rep rep') =
      (case r of Ok res \<Rightarrow> if HasMore res then fst (resourceClose M c1 (ResponseId res) rep') else c1 | _ \<Rightarrow> c1)"
    using True 1 by (simp add: ExecContext_def d_def [symmetric] Let_def split_beta split: res.splits)
  then show ?thesis
    using simulated_trans [OF s resourceClose_simulated, of 2] simulated_le [OF s, of 2] by (simp split: res.splits)
qed

lemma rows_Close_simulated [simulation]: "simulated M 1 c (fst (rows_Close M c r rep))"
  using resourceClose_simulated by (simp add: rows_Close_def Let_def split_beta simulated_refl)

lemma rowsFinalizer_simulated [simulation]: "simulated M 1 c (fst (rowsFinalizer M c r rep))"
  using rows_Close_simulated by (simp add: rowsFinalizer_def split_beta simulated_refl)

lemma QueryNexPageContext_state: "fst (QueryNexPageContext c i) = c"
  by (cases c) (simp add: QueryNexPageContext_def with_client_def QuerySQLFieldsCursorGetPageRaw_def split: option.splits)

lemma Next_simulated [simulation]: "simulated M 1 c (fst (Next H M c r n rep))"
  using QueryNexPageContext_state [of c "rw_id r"] rows_Close_simulated
  by (auto simp: Next_def Let_def split_beta simulated_refl split: res.splits)

lemma Ping_simulated [simulation]: "simulated M 2 c (fst (Ping H M c now rep rep'))"
proof -
  obtain c1 r where 1: "QueryContext M (\<lambda>_ args. args) c ''SELECT 1'' [] now rep = (c1, r)" by fastforce
  have s: "simulated M 1 c c1" using QueryContext_simulated [of M c "\<lambda>_ args. args" "''SELECT 1''" "[]" now rep] 1 by simp
  have "fst (Ping H M c now rep rep') = (case r of Ok rows \<Rightarrow> fst (Next H M c1 rows 1 rep') | _ \<Rightarrow> c1)"
    using 1 by (simp add: Ping_def split_beta split: res.splits)
  then show ?thesis
    using simulated_trans [OF s Next_simulated, of 2] simulated_le [OF s, of 2] by (simp split: res.splits)
qed

lemma conn_Close_simulated [simulation]: "simulated M 1 c (fst (conn_Close c e))"
  unfolding simulated_def
proof (intro allI impI)
  fix cl assume s: "stands_for c cl"
  show "\<exists>m \<le> 1. \<exists>cl'. client_run M cl m cl' \<and> stands_for (fst (conn_Close c e)) cl'"
  proof (cases "sql_client c")
    case None
    then show ?thesis using s client_run.start [of M cl] by (auto simp: conn_Close_def)
  next
    case (Some cl')
    then have "stands_for (fst (conn_Close c e)) (fst (Close cl e))"
      using s by (auto simp: conn_Close_def stands_for_def Close_def Connected_def)
    then show ?thesis using client_step_run [OF client_step.close] by blast
  qed
qed

lemma connFinalizer_simulated [simulation]: "simulated M 1 c (connFinalizer c e)"
  using conn_Close_simulated by (simp add: connFinalizer_def simulated_refl)

lemma simulated_1_2: "simulated M 1 c c' \<Longrightarrow> simulated M 2 c c'"
  by (erule simulated_le) simp

lemma session_step_simulated: "session_step H M c c' \<Longrightarrow> simulated M 2 c c'"
  by (cases rule: session_step.cases) (auto simp: stmt_QueryContext_def stmt_ExecContext_def intro: simulation simulated_1_2 [unfolded One_nat_def] simulation [unfolded One_nat_def])

lemma session_run_simulated: "session_run H M c n c' \<Longrightarrow> simulated M (2 * n) c c'"
  by (induction rule: session_run.induct)
    (auto intro: simulated_refl simulated_trans [OF _ session_step_simulated])

lemma session_client:
  assumes "snd (v1_Connect H M iter ci dial rep) = Ok c"
  shows "info c = ci \<and> (\<exists>cl. sql_client c = Some cl \<and> conn cl \<and> RequestId cl = 0 \<and>
    sent cl = [RequestHandshake_WriteTo M iter (ci_Major ci) (ci_Minor ci) (ci_Patch ci) (Username ci) (Password ci)])"
  using assms
  by (auto simp: v1_Connect_def Connect_def Do_def Let_def conn_info.defs
      split: option.splits reply.splits res.splits prod.splits if_splits)

subsection \<open>Operations of a session, one after another\<close>

text \<open>The operations database/sql calls, with what the network answers to each; \<open>op_args\<close> are the arguments of one.\<close>

datatype session_op =
    QueryOp string "named_value list" gotime reply
  | StmtQueryOp stmt "named_value list" gotime reply
  | ExecOp string "named_value list" gotime reply reply
  | StmtExecOp stmt "named_value list" gotime reply reply
  | PingOp gotime reply reply
  | NextOp sql_rows nat reply
  | CloseRowsOp sql_rows reply
  | FinalizeRowsOp sql_rows reply
  | CloseOp "gerror option"
  | FinalizeOp "gerror option"

fun op_args :: "session_op \<Rightarrow> named_value list" where
  "op_args (QueryOp q args now rep) = args"
| "op_args (StmtQueryOp s args now rep) = args"
| "op_args (ExecOp q args now rep rep') = args"
| "op_args (StmtExecOp s args now rep rep') = args"
| "op_args _ = []"

fun session_do :: "host \<Rightarrow> msgpack \<Rightarrow> named_value slice_sort \<Rightarrow> session_op \<Rightarrow> sql_conn \<Rightarrow> sql_conn" where
  "session_do H M sorter (QueryOp q args now rep) c = fst (QueryContext M sorter c q args now rep)"
| "session_do H M sorter (StmtQueryOp s args now rep) c = fst (stmt_QueryContext M sorter c s args now rep)"
| "session_do H M sorter (ExecOp q args now rep rep') c = fst (ExecContext H M sorter c q args now rep rep')"
| "session_do H M sorter (StmtExecOp s args now rep rep') c = fst (stmt_ExecContext H M sorter c s args now rep rep')"
| "session_do H M sorter (PingOp now rep rep') c = fst (Ping H M c now rep rep')"
| "session_do H M sorter (NextOp r n rep) c = fst (Next H M c r n rep)"
| "session_do H M sorter (CloseRowsOp r rep) c = fst (rows_Close M c r rep)"
| "session_do H M sorter (FinalizeRowsOp r rep) c = fst (rowsFinalizer M c r rep)"
| "session_do H M sorter (CloseOp e) c = fst (conn_Close c e)"
| "session_do H M sorter (FinalizeOp e) c = connFinalizer c e"

subsection \<open>The wire of a session\<close>

text \<open>A request is put on an open wire that takes it, under the next id.\<close>

definition puts :: "msgpack \<Rightarrow> 16 word \<Rightarrow> byte list \<Rightarrow> reply \<Rightarrow> client \<Rightarrow> client" where
  "puts M code payload rep w =
     (case rep of
        WriteFails e \<Rightarrow> w
      | Arrives bs \<Rightarrow> if conn w then w\<lparr>RequestId := RequestId w + 1, sent := sent w @ [RequestOperation_WriteTo M code (RequestId w) payload]\<rparr>
                     else w)"

definition puts_close :: "msgpack \<Rightarrow> 64 word \<Rightarrow> reply \<Rightarrow> client \<Rightarrow> client" where
  "puts_close M i rep w = (if i = 0 then w else puts M OpSqlCursorClose [] rep w)"

text \<open>The query of the connection \<open>ci\<close> with a page size and the arguments by their ordinals.\<close>

definition wire_query :: "sql_info \<Rightarrow> 64 word \<Rightarrow> string \<Rightarrow> named_value list \<Rightarrow> query_data" where
  "wire_query ci page q args =
     \<lparr>qd_Schema = si_Schema ci, PageSize = page, Query = q, QueryArgs = map nv_Value (sort_key Ordinal args), Timeout = si_Timeout ci\<rparr>"

definition puts_query :: "msgpack \<Rightarrow> query_data \<Rightarrow> gotime \<Rightarrow> reply \<Rightarrow> client \<Rightarrow> client" where
  "puts_query M d now rep w =
     (case query_payload M d now of Ok payload \<Rightarrow> puts M OpSqlExecute payload rep w | _ \<Rightarrow> w)"

text \<open>A statement closes the cursor of an answer that \<^verbatim>\<open>QuerySQL\<close> would have decoded and that announces more pages.\<close>

definition puts_exec :: "host \<Rightarrow> msgpack \<Rightarrow> query_data \<Rightarrow> gotime \<Rightarrow> reply \<Rightarrow> reply \<Rightarrow> client \<Rightarrow> client" where
  "puts_exec H M d now rep rep' w =
     (let w' = puts_query M d now rep w
      in case QuerySQL H M w d now rep of
           (_, res, Ok _) \<Rightarrow> if HasMore res then puts_close M (ResponseId res) rep' w' else w'
         | _ \<Rightarrow> w')"

fun wire_step :: "host \<Rightarrow> msgpack \<Rightarrow> sql_info \<Rightarrow> session_op \<Rightarrow> client \<Rightarrow> client" where
  "wire_step H M ci (QueryOp q args now rep) w = puts_query M (wire_query ci (si_PageSize ci) q args) now rep w"
| "wire_step H M ci (StmtQueryOp s args now rep) w = puts_query M (wire_query ci (si_PageSize ci) (stmt_query s) args) now rep w"
| "wire_step H M ci (ExecOp q args now rep rep') w = puts_exec H M (wire_query ci 10000 q args) now rep rep' w"
| "wire_step H M ci (StmtExecOp s args now rep rep') w = puts_exec H M (wire_query ci 10000 (stmt_query s) args) now rep rep' w"
| "wire_step H M ci (PingOp now rep rep') w = puts_query M (wire_query ci (si_PageSize ci) ''SELECT 1'' []) now rep w"
| "wire_step H M ci (NextOp r n rep) w = w"
| "wire_step H M ci (CloseRowsOp r rep) w = (if 0 < rowsLeft r then puts_close M (rw_id r) rep w else w)"
| "wire_step H M ci (FinalizeRowsOp r rep) w = (if 0 < rowsLeft r then puts_close M (rw_id r) rep w else w)"
| "wire_step H M ci (CloseOp e) w = w\<lparr>conn := False\<rparr>"
| "wire_step H M ci (FinalizeOp e) w = w\<lparr>conn := False\<rparr>"

text \<open>The wire a connection stands for: that of its client, or of the client it gave up.\<close>

definition wire_of :: "sql_conn \<Rightarrow> client" where
  "wire_of c =
     (case sql_client c of
        Some cl \<Rightarrow> cl
      | None \<Rightarrow> (case released c of Some cl \<Rightarrow> cl | None \<Rightarrow> \<lparr>conn = False, RequestId = 0, sent = []\<rparr>))"

definition session_ok :: "sql_info \<Rightarrow> sql_conn \<Rightarrow> bool" where
  "session_ok ci c \<longleftrightarrow> info c = ci \<and> (sql_client c = None \<longrightarrow> \<not> conn (wire_of c))"

lemma session_ok_Some: "session_ok ci (c\<lparr>sql_client := Some cl\<rparr>) = (info c = ci)" "wire_of (c\<lparr>sql_client := Some cl\<rparr>) = cl"
  by (simp_all add: session_ok_def wire_of_def)

lemma isConnected_wire: "session_ok ci c \<Longrightarrow> isConnected c = conn (wire_of c)"
  by (auto simp: session_ok_def wire_of_def isConnected_def Connected_def split: option.splits)

text \<open>An operation of the client, seen on the wire.\<close>

lemma with_client_wire:
  assumes "session_ok ci c"
  shows "with_client c f =
    (if conn (wire_of c) then (c\<lparr>sql_client := Some (fst (f (wire_of c)))\<rparr>, snd (f (wire_of c))) else (c, Err ErrBadConn))"
  using assms
  by (auto simp: session_ok_def wire_of_def with_client_def Connected_def split_beta split: option.splits)

lemma operate_puts: "fst (operate M cl code payload ctxt rep) = puts M code payload rep cl"
  by (simp add: operate_state Do_state puts_def split: reply.split)

lemma puts_closed: "\<not> conn w \<Longrightarrow> puts M code payload rep w = w"
  by (simp add: puts_def split: reply.split)

lemma QuerySQLFieldsRaw_puts: "fst (QuerySQLFieldsRaw M cl d now rep) = puts_query M d now rep cl"
  by (simp add: QuerySQLFieldsRaw_def puts_query_def fields_payload_eq operate_puts split: res.split)

lemma puts_query_closed: "\<not> conn w \<Longrightarrow> puts_query M d now rep w = w"
  by (simp add: puts_query_def puts_closed split: res.split)

lemma resourceClose_wire:
  assumes "session_ok ci c"
  shows "session_ok ci (fst (resourceClose M c i rep)) \<and> wire_of (fst (resourceClose M c i rep)) = puts_close M i rep (wire_of c)"
  using assms
  by (auto simp: resourceClose_def with_client_wire [OF assms] ResourceClose_def puts_close_def operate_puts puts_closed split_beta
      session_ok_Some) (auto simp: session_ok_def)

text \<open>One lemma for each operation.\<close>

lemma QueryContext_wire:
  assumes "session_ok ci c" "ordered_args sorter args = map nv_Value (sort_key Ordinal args)"
  shows "session_ok ci (fst (QueryContext M sorter c q args now rep)) \<and>
    wire_of (fst (QueryContext M sorter c q args now rep)) = puts_query M (wire_query ci (si_PageSize ci) q args) now rep (wire_of c)"
  using assms
  by (auto simp: QueryContext_def with_client_wire [OF assms(1)] isConnected_wire [OF assms(1)] split_beta Let_def session_ok_Some
      QuerySQLFieldsRaw_puts puts_query_closed wire_query_def) (auto simp: session_ok_def)

lemma exec_query_result:
  "snd (exec_query H M d now rep cl) = (case QuerySQL H M cl d now rep of (_, res, err) \<Rightarrow> rmap (\<lambda>_. res) err)"
  using query_copies_agree [of H M cl d now rep] by (auto simp: split_beta split: prod.splits res.splits)

lemma ExecContext_wire:
  assumes "session_ok ci c" "ordered_args sorter args = map nv_Value (sort_key Ordinal args)"
  shows "session_ok ci (fst (ExecContext H M sorter c q args now rep rep')) \<and>
    wire_of (fst (ExecContext H M sorter c q args now rep rep')) = puts_exec H M (wire_query ci 10000 q args) now rep rep' (wire_of c)"
proof (cases "conn (wire_of c)")
  case False
  then have "snd (snd (QuerySQL H M (wire_of c) d now rep)) \<noteq> Ok u" for d u
    by (auto simp: QuerySQL_def operate_def Do_def split_beta split: res.splits)
  then have "QuerySQL H M (wire_of c) d now rep \<noteq> (x, y, Ok u)" for d x y u by (metis snd_conv)
  then show ?thesis using False assms
    by (auto simp: ExecContext_def isConnected_wire [OF assms(1)] puts_exec_def puts_query_closed Let_def split: prod.split res.split)
next
  case True
  define d where "d = wire_query ci 10000 q args"
  define c1 where "c1 = c\<lparr>sql_client := Some (puts_query M d now rep (wire_of c))\<rparr>"
  obtain cq res err where Q: "QuerySQL H M (wire_of c) d now rep = (cq, res, err)" by (metis prod.exhaust)
  have 1: "with_client c (exec_query H M d now rep) = (c1, rmap (\<lambda>_. res) err)"
    unfolding with_client_wire [OF assms(1)] exec_query_client exec_query_result QuerySQLFieldsRaw_puts Q
    using True by (simp add: c1_def)
  have ok: "session_ok ci c1" "wire_of c1 = puts_query M d now rep (wire_of c)"
    using assms(1) by (simp_all add: c1_def session_ok_Some) (simp add: session_ok_def)
  have "fst (ExecContext H M sorter c q args now rep rep') =
      (case rmap (\<lambda>_. res) err of
         Ok res \<Rightarrow> if HasMore res then fst (resourceClose M c1 (ResponseId res) rep') else c1 | _ \<Rightarrow> c1)"
    using 1 True assms isConnected_wire [OF assms(1)]
    by (simp add: ExecContext_def d_def wire_query_def session_ok_def Let_def split_beta split: res.splits)
  then show ?thesis
    using ok resourceClose_wire [OF ok(1)]
    by (cases err) (simp_all add: puts_exec_def Let_def d_def [symmetric] Q)
qed

lemma rows_Close_wire:
  assumes "session_ok ci c"
  shows "session_ok ci (fst (rows_Close M c r rep)) \<and>
    wire_of (fst (rows_Close M c r rep)) = (if 0 < rowsLeft r then puts_close M (rw_id r) rep (wire_of c) else wire_of c)"
  using resourceClose_wire [OF assms] assms by (simp add: rows_Close_def Let_def split_beta)

lemma rowsFinalizer_wire:
  assumes "session_ok ci c"
  shows "session_ok ci (fst (rowsFinalizer M c r rep)) \<and>
    wire_of (fst (rowsFinalizer M c r rep)) = (if 0 < rowsLeft r then puts_close M (rw_id r) rep (wire_of c) else wire_of c)"
  using rows_Close_wire [OF assms] assms by (simp add: rowsFinalizer_def split_beta)

text \<open>Reading a row never reaches the wire: the operation that would fetch a page is not there.\<close>

lemma Next_wire:
  assumes "session_ok ci c"
  shows "fst (Next H M c r n rep) = c"
proof (cases "conn (wire_of c)")
  case True
  then have "QueryNexPageContext c i = (c, Panic NilDereference)" for i
    using assms
    by (cases c) (auto simp: QueryNexPageContext_def with_client_def Connected_def QuerySQLFieldsCursorGetPageRaw_def session_ok_def
        wire_of_def split: option.splits)
  then show ?thesis by (simp add: Next_def Let_def)
next
  case False
  then show ?thesis
    by (simp add: Next_def Let_def QueryNexPageContext_def rows_Close_def resourceClose_def with_client_wire [OF assms])
qed

lemma Ping_wire:
  assumes "session_ok ci c"
  shows "session_ok ci (fst (Ping H M c now rep rep')) \<and>
    wire_of (fst (Ping H M c now rep rep')) = puts_query M (wire_query ci (si_PageSize ci) ''SELECT 1'' []) now rep (wire_of c)"
proof -
  obtain c1 x where q: "QueryContext M (\<lambda>_ args. args) c ''SELECT 1'' [] now rep = (c1, x)" by fastforce
  have w: "session_ok ci c1 \<and> wire_of c1 = puts_query M (wire_query ci (si_PageSize ci) ''SELECT 1'' []) now rep (wire_of c)"
    using QueryContext_wire [OF assms, of "\<lambda>_ args. args" "[]" M "''SELECT 1''" now rep] q by (simp add: ordered_args_def)
  then have "fst (Next H M c1 rows 1 rep') = c1" for rows using Next_wire by blast
  then show ?thesis using w q by (simp add: Ping_def split_beta split: res.split)
qed

lemma conn_Close_wire:
  assumes "session_ok ci c"
  shows "session_ok ci (fst (conn_Close c e)) \<and> wire_of (fst (conn_Close c e)) = (wire_of c)\<lparr>conn := False\<rparr>"
proof (cases "sql_client c")
  case None
  then show ?thesis using assms by (cases "wire_of c") (simp add: conn_Close_def session_ok_def)
next
  case (Some cl)
  then show ?thesis using assms
    by (cases cl) (auto simp: conn_Close_def Close_def Connected_def session_ok_def wire_of_def)
qed

lemma connFinalizer_wire:
  assumes "session_ok ci c"
  shows "session_ok ci (connFinalizer c e) \<and> wire_of (connFinalizer c e) = (wire_of c)\<lparr>conn := False\<rparr>"
  using conn_Close_wire [OF assms] assms
  by (cases "wire_of c") (auto simp: connFinalizer_def isConnected_wire [OF assms])

lemma session_do_wire:
  assumes "session_ok ci c" "slice_sorter sorter" "distinct (map Ordinal (op_args op))"
  shows "session_ok ci (session_do H M sorter op c) \<and> wire_of (session_do H M sorter op c) = wire_step H M ci op (wire_of c)"
  using assms ordered_args_determined [OF assms(2,3)]
  by (cases op)
    (simp_all add: stmt_QueryContext_def stmt_ExecContext_def QueryContext_wire ExecContext_wire Ping_wire Next_wire rows_Close_wire
      rowsFinalizer_wire conn_Close_wire connFinalizer_wire)

lemma session_fold_wire:
  assumes "session_ok ci c" "slice_sorter sorter" "\<forall>op \<in> set ops. distinct (map Ordinal (op_args op))"
  shows "session_ok ci (fold (session_do H M sorter) ops c) \<and>
    wire_of (fold (session_do H M sorter) ops c) = fold (wire_step H M ci) ops (wire_of c)"
  using assms(1,3)
proof (induction ops arbitrary: c)
  case (Cons op ops)
  then show ?case using session_do_wire [OF Cons.prems(1) assms(2), of op H M] by simp
qed simp

subsection \<open>A sample session\<close>

text \<open>Connected, then one cursor closed.\<close>

definition sample_greeting_reply :: reply where
  "sample_greeting_reply = Arrives (MAGIC_BYTES @ frame (enc_hello ref_codec (empty_handshake\<lparr>Success := True, Major := 3\<rparr>)))"

definition sample_handshake :: "byte list" where
  "sample_handshake = RequestHandshake_WriteTo ref_codec (\<lambda>m. m) (ci_Major sample_info) (ci_Minor sample_info)
     (ci_Patch sample_info) (Username sample_info) (Password sample_info)"

definition sample_session :: sql_conn where
  "sample_session = \<lparr>info = sample_info, sql_client = Some \<lparr>conn = True, RequestId = 0, sent = [sample_handshake]\<rparr>, released = None\<rparr>"

lemma sample_session_connects:
  "snd (v1_Connect exact_host ref_codec (\<lambda>m. m) sample_info None sample_greeting_reply) = Ok sample_session"
  by (simp add: v1_Connect_def Connect_def Do_def sample_greeting_reply_def sample_greeting sample_session_def sample_handshake_def
      sample_info_def conn_info.defs Let_def)

definition sample_closing :: sql_conn where
  "sample_closing = fst (rows_Close ref_codec sample_session (sample_rows\<lparr>rw_id := 5, rowsLeft := 1\<rparr>) (Arrives []))"

lemma sample_session_run: "session_run exact_host ref_codec sample_session (Suc 0) sample_closing"
  unfolding sample_closing_def by (rule session_run.more [OF session_run.start session_step.close_rows])

lemma sample_closing_client:
  "sql_client sample_closing = Some \<lparr>conn = True, RequestId = 1,
     sent = [sample_handshake, RequestOperation_WriteTo ref_codec OpSqlCursorClose 0 []]\<rparr>"
  by (simp add: sample_closing_def rows_Close_def resourceClose_def with_client_def sample_session_def Connected_def
      ResourceClose_def operate_def Do_def split_beta)

text \<open>A query, a row read, rows left unread, and the connection closed.\<close>

definition sample_session_ops :: "session_op list" where
  "sample_session_ops =
     [QueryOp ''Q'' [] epoch (Arrives []), NextOp sample_rows 1 (Arrives []),
      CloseRowsOp (sample_rows\<lparr>rw_id := 5, rowsLeft := 1\<rparr>) (Arrives []), CloseOp None]"

subsection \<open>Properties\<close>

text \<open>C5: A session of the driver refines the machine that knows only the wire. After a successful \<^verbatim>\<open>Connect\<close>, whatever
  queries, statements, pings, row reads, closings and finalizers follow and whatever the server answers, the handshake
  and then exactly the machine's frames have been sent, in its order, with its ids and payloads: the query with the
  connection's schema, page size and timeout and its arguments by their ordinals, after a statement whose answer
  announces more pages the closing of its cursor, for rows left unread the closing of theirs unless its id is 0, and
  nothing for a row read; and the connection is connected exactly as long as the wire is open, which closing ends.\<close>

theorem session_refines_wire:
  assumes "snd (v1_Connect H M iter ci dial rep) = Ok c" and "slice_sorter sorter"
    and "\<forall>op \<in> set ops. distinct (map Ordinal (op_args op))"
  shows "wire_of (fold (session_do H M sorter) ops c) =
      fold (wire_step H M ci) ops
        \<lparr>conn = True, RequestId = 0,
         sent = [RequestHandshake_WriteTo M iter (ci_Major ci) (ci_Minor ci) (ci_Patch ci) (Username ci) (Password ci)]\<rparr> \<and>
    isConnected (fold (session_do H M sorter) ops c) = conn (wire_of (fold (session_do H M sorter) ops c))"
proof -
  have "session_ok ci c" "wire_of c = \<lparr>conn = True, RequestId = 0,
      sent = [RequestHandshake_WriteTo M iter (ci_Major ci) (ci_Minor ci) (ci_Patch ci) (Username ci) (Password ci)]\<rparr>"
    using session_client [OF assms(1)] by (auto simp: session_ok_def wire_of_def)
  note fold = session_fold_wire [OF this(1) assms(2,3), of H M, unfolded this(2)]
  then have "isConnected (fold (session_do H M sorter) ops c) = conn (wire_of (fold (session_do H M sorter) ops c))"
    using isConnected_wire by blast
  with fold show ?thesis by simp
qed

theorem session_refines_wire_witness:
  "wire_of (fold (session_do exact_host ref_codec insertion_sort) sample_session_ops sample_session) =
      fold (wire_step exact_host ref_codec sample_info) sample_session_ops
        \<lparr>conn = True, RequestId = 0,
         sent = [RequestHandshake_WriteTo ref_codec (\<lambda>m. m) (ci_Major sample_info) (ci_Minor sample_info) (ci_Patch sample_info)
                   (Username sample_info) (Password sample_info)]\<rparr> \<and>
    isConnected (fold (session_do exact_host ref_codec insertion_sort) sample_session_ops sample_session) =
      conn (wire_of (fold (session_do exact_host ref_codec insertion_sort) sample_session_ops sample_session))"
  by (rule session_refines_wire [OF sample_session_connects insertion.slice_sorter_axioms]) (simp add: sample_session_ops_def)

text \<open>C6: Over a whole session of the driver the wire carries the handshake and then requests with strictly increasing
  ids, no two alike, whatever the server answers and however queries, row reads and closings are mixed (for fewer
  than 2 to the 62 operations, so that the counter does not wrap).\<close>

theorem session_requests_increase:
  assumes "snd (v1_Connect H M iter ci dial rep) = Ok c" and "session_run H M c n c'" and "sql_client c' = Some cl'"
    and "n < 2 ^ 62"
  shows "\<exists>ids. list_all2 (request_with_id M) (tl (sent cl')) ids \<and> sorted_wrt (\<lambda>i j. uint i < uint j) ids \<and> distinct ids \<and>
    sent cl' \<noteq> [] \<and>
    hd (sent cl') = RequestHandshake_WriteTo M iter (ci_Major ci) (ci_Minor ci) (ci_Patch ci) (Username ci) (Password ci)"
proof -
  obtain cl where cl: "sql_client c = Some cl" "RequestId cl = 0"
    "sent cl = [RequestHandshake_WriteTo M iter (ci_Major ci) (ci_Minor ci) (ci_Patch ci) (Username ci) (Password ci)]"
    using session_client [OF assms(1)] by blast
  then have "stands_for c cl" by (simp add: stands_for_def)
  then obtain m where m: "m \<le> 2 * n" "client_run M cl m cl'"
    using session_run_simulated [OF assms(2)] assms(3) unfolding simulated_def stands_for_def by auto
  then have "ids_inv M cl m cl'" using assms(4) cl(2) by (intro ids_inv_run) simp_all
  then obtain fs ids where i: "sent cl' = sent cl @ fs" "list_all2 (request_with_id M) fs ids"
    "sorted_wrt (\<lambda>i j. uint i < uint j) ids"
    by (auto simp: ids_inv_def)
  have "distinct ids" using i(3) by (induction ids) auto
  with i cl(3) show ?thesis by auto
qed

theorem session_requests_increase_witness:
  "\<exists>ids. list_all2 (request_with_id ref_codec) [RequestOperation_WriteTo ref_codec OpSqlCursorClose 0 []] ids \<and>
    sorted_wrt (\<lambda>i j. uint i < uint j) ids \<and> distinct ids \<and>
    [sample_handshake, RequestOperation_WriteTo ref_codec OpSqlCursorClose 0 []] \<noteq> [] \<and>
    hd [sample_handshake, RequestOperation_WriteTo ref_codec OpSqlCursorClose 0 []] = sample_handshake"
  using session_requests_increase [OF sample_session_connects sample_session_run sample_closing_client]
  by (simp add: sample_handshake_def)

end
