(* ===== verification/Concurrency.thy ===== *)
theory Concurrency
  imports Client
begin

text \<open>
  Goroutines that share a client, one access to the shared state per step. A call reads \<^verbatim>\<open>c.RequestId\<close> when it builds its
  request, before \<^verbatim>\<open>Do\<close> takes the mutex (and a heartbeat increments it there, with a read and a write of its own); under
  the mutex \<^verbatim>\<open>Do\<close> writes the request, increments the id and reads the response. So the mutex keeps the frames apart, but
  not the ids: they are distinct when calls do not overlap, which is how database/sql uses a connection, and
  they are not when two calls do. The id a heartbeat's response expects and the results of the calls are left out here:
  they do not reach the shared state.
\<close>

subsection \<open>State\<close>

text \<open>Where a goroutine is: in no call; in a heartbeat whose request has the id \<open>i\<close>, before its increment has read the
  counter and after; before \<^verbatim>\<open>Do\<close> with its request; in \<^verbatim>\<open>Do\<close>, which holds the mutex: before the write, before the
  increment, within it, and receiving.\<close>

datatype phase =
    Idle
  | Beat "64 word"
  | BeatLoaded "64 word" "64 word"
  | Ready "byte list"
  | Locked "byte list"
  | Sent
  | Loaded "64 word"
  | Receiving

record par =
  shared :: client
  holder :: "nat option"
  phases :: "phase list"

text \<open>A goroutine begins a call, goes on with it (the network answers \<open>rep\<close>, if that is asked for), or the connection is
  closed.\<close>

datatype action =
    BeginOp nat "16 word" "byte list"
  | BeginBeat nat
  | Proceed nat reply
  | CloseConn

subsection \<open>Steps\<close>

definition phase_of :: "nat \<Rightarrow> par \<Rightarrow> phase" where
  "phase_of t s = (if t < length (phases s) then phases s ! t else Idle)"

definition enter :: "nat \<Rightarrow> phase \<Rightarrow> par \<Rightarrow> par" where
  "enter t p s = s\<lparr>phases := (phases s)[t := p]\<rparr>"

text \<open>A call may begin in an idle goroutine; when calls must not overlap, only while all are idle.\<close>

definition may_begin :: "bool \<Rightarrow> nat \<Rightarrow> par \<Rightarrow> bool" where
  "may_begin overlap t s \<longleftrightarrow>
     t < length (phases s) \<and> phases s ! t = Idle \<and> (overlap \<or> list_all (\<lambda>p. p = Idle) (phases s))"

definition proceed :: "msgpack \<Rightarrow> nat \<Rightarrow> reply \<Rightarrow> par \<Rightarrow> par option" where
  "proceed M t rep s =
     (let c = shared s
      in case phase_of t s of
           Idle \<Rightarrow> None
         | Beat i \<Rightarrow> Some (enter t (BeatLoaded i (RequestId c)) s)
         | BeatLoaded i v \<Rightarrow> Some (enter t (Ready (RequestHeartbeat_WriteTo M i)) (s\<lparr>shared := c\<lparr>RequestId := v + 1\<rparr>\<rparr>))
         | Ready req \<Rightarrow> if holder s = None then Some (enter t (Locked req) (s\<lparr>holder := Some t\<rparr>)) else None
         | Locked req \<Rightarrow>
             (case rep of
                Arrives bs \<Rightarrow> if conn c then Some (enter t Sent (s\<lparr>shared := c\<lparr>sent := sent c @ [req]\<rparr>\<rparr>))
                              else Some (enter t Idle (s\<lparr>holder := None\<rparr>))
              | WriteFails e \<Rightarrow> Some (enter t Idle (s\<lparr>holder := None\<rparr>)))
         | Sent \<Rightarrow> Some (enter t (Loaded (RequestId c)) s)
         | Loaded v \<Rightarrow> Some (enter t Receiving (s\<lparr>shared := c\<lparr>RequestId := v + 1\<rparr>\<rparr>))
         | Receiving \<Rightarrow> Some (enter t Idle (s\<lparr>holder := None\<rparr>)))"

fun act :: "msgpack \<Rightarrow> bool \<Rightarrow> action \<Rightarrow> par \<Rightarrow> par option" where
  "act M overlap (BeginOp t code payload) s =
     (if may_begin overlap t s
      then Some (enter t (Ready (RequestOperation_WriteTo M code (RequestId (shared s)) payload)) s) else None)"
| "act M overlap (BeginBeat t) s = (if may_begin overlap t s then Some (enter t (Beat (RequestId (shared s))) s) else None)"
| "act M overlap (Proceed t rep) s = proceed M t rep s"
| "act M overlap CloseConn s = Some (s\<lparr>shared := fst (Close (shared s) None)\<rparr>)"

fun acts :: "msgpack \<Rightarrow> bool \<Rightarrow> action list \<Rightarrow> par \<Rightarrow> par option" where
  "acts M overlap [] s = Some s"
| "acts M overlap (a # as) s = Option.bind (act M overlap a s) (acts M overlap as)"

text \<open>\<open>k\<close> goroutines in no call.\<close>

definition quiet :: "client \<Rightarrow> nat \<Rightarrow> par" where
  "quiet c k = \<lparr>shared = c, holder = None, phases = replicate k Idle\<rparr>"

subsection \<open>A call on its own\<close>

text \<open>A call that nothing interrupts does to the client what \<open>operate\<close> and \<open>SendHeartbeat\<close> do.\<close>

lemma quiet_simps [simp]:
  "shared (quiet c k) = c" "holder (quiet c k) = None" "phases (quiet c k) = replicate k Idle"
  by (simp_all add: quiet_def)

lemmas step_defs = proceed_def phase_of_def enter_def may_begin_def Let_def

definition in_call :: "client \<Rightarrow> nat \<Rightarrow> nat \<Rightarrow> phase \<Rightarrow> par" where
  "in_call c k t p = \<lparr>shared = c, holder = None, phases = (replicate k Idle)[t := p]\<rparr>"

lemma Do_run:
  assumes "t < k"
  shows "\<exists>n. acts M overlap (replicate n (Proceed t rep)) (in_call c k t (Ready req)) = Some (quiet (fst (Do c req rd rep)) k)"
proof (cases rep)
  case (WriteFails e)
  then have "acts M overlap (replicate (Suc (Suc 0)) (Proceed t rep)) (in_call c k t (Ready req)) = Some (quiet (fst (Do c req rd rep)) k)"
    using assms by (simp add: step_defs in_call_def quiet_def Do_state list_update_same_conv)
  then show ?thesis by blast
next
  case (Arrives bs)
  show ?thesis
  proof (cases "conn c")
    case True
    then have "acts M overlap (replicate (Suc (Suc (Suc (Suc (Suc 0))))) (Proceed t rep)) (in_call c k t (Ready req)) =
        Some (quiet (fst (Do c req rd rep)) k)"
      using assms Arrives by (simp add: step_defs in_call_def quiet_def Do_state list_update_same_conv)
    then show ?thesis by blast
  next
    case False
    then have "acts M overlap (replicate (Suc (Suc 0)) (Proceed t rep)) (in_call c k t (Ready req)) = Some (quiet (fst (Do c req rd rep)) k)"
      using assms Arrives by (simp add: step_defs in_call_def quiet_def Do_state list_update_same_conv)
    then show ?thesis by blast
  qed
qed

lemma operate_run:
  assumes "t < k"
  shows "\<exists>n. acts M overlap (BeginOp t code payload # replicate n (Proceed t rep)) (quiet c k) =
    Some (quiet (fst (operate M c code payload ctxt rep)) k)"
  using assms Do_run [OF assms, of M overlap rep c "RequestOperation_WriteTo M code (RequestId c) payload"
      "ResponseOperation_ReadFrom M (NewResponseOperation (RequestId c))"]
  by (simp add: operate_state may_begin_def enter_def list_all_length) (simp add: quiet_def in_call_def)

lemma heartbeat_run:
  assumes "t < k"
  shows "\<exists>n. acts M overlap (BeginBeat t # replicate n (Proceed t rep)) (quiet c k) = Some (quiet (fst (SendHeartbeat M c rep)) k)"
proof -
  obtain n where n: "acts M overlap (replicate n (Proceed t rep))
      (in_call (c\<lparr>RequestId := RequestId c + 1\<rparr>) k t (Ready (RequestHeartbeat_WriteTo M (RequestId c)))) =
      Some (quiet (fst (SendHeartbeat M c rep)) k)"
    using Do_run [OF assms, of M overlap rep "c\<lparr>RequestId := RequestId c + 1\<rparr>" "RequestHeartbeat_WriteTo M (RequestId c)"]
    unfolding SendHeartbeat_state by blast
  have "acts M overlap (BeginBeat t # replicate (Suc (Suc n)) (Proceed t rep)) (quiet c k) =
      acts M overlap (replicate n (Proceed t rep))
        (in_call (c\<lparr>RequestId := RequestId c + 1\<rparr>) k t (Ready (RequestHeartbeat_WriteTo M (RequestId c))))"
    using assms by (simp add: step_defs list_all_length) (simp add: quiet_def in_call_def)
  with n show ?thesis by metis
qed

subsection \<open>Calls that do not overlap\<close>

text \<open>What holds of the ids sent so far in each phase of the one call in progress.\<close>

definition below :: "64 word list \<Rightarrow> 64 word \<Rightarrow> bool" where
  "below ids i \<longleftrightarrow> (\<forall>j \<in> set ids. uint j < uint i)"

definition phase_ok :: "msgpack \<Rightarrow> 64 word \<Rightarrow> 64 word list \<Rightarrow> phase \<Rightarrow> bool" where
  "phase_ok M cur ids p =
     (case p of
        Idle \<Rightarrow> below ids cur
      | Beat i \<Rightarrow> i = cur \<and> below ids i
      | BeatLoaded i v \<Rightarrow> i = cur \<and> v = cur \<and> below ids i
      | Ready req \<Rightarrow> (\<exists>i. request_with_id M req i \<and> below ids i \<and> uint i \<le> uint cur)
      | Locked req \<Rightarrow> (\<exists>i. request_with_id M req i \<and> below ids i \<and> uint i \<le> uint cur)
      | Sent \<Rightarrow> (\<forall>j \<in> set ids. uint j \<le> uint cur)
      | Loaded v \<Rightarrow> v = cur \<and> (\<forall>j \<in> set ids. uint j \<le> uint cur)
      | Receiving \<Rightarrow> below ids cur)"

definition serial_inv :: "msgpack \<Rightarrow> client \<Rightarrow> nat \<Rightarrow> nat \<Rightarrow> par \<Rightarrow> bool" where
  "serial_inv M c0 k n s \<longleftrightarrow>
     uint (RequestId (shared s)) \<le> uint (RequestId c0) + int n \<and>
     (\<exists>t p fs ids. phases s = (replicate k Idle)[t := p] \<and> (t < k \<or> p = Idle) \<and>
        sent (shared s) = sent c0 @ fs \<and> list_all2 (request_with_id M) fs ids \<and>
        sorted_wrt (\<lambda>i j. uint i < uint j) ids \<and> phase_ok M (RequestId (shared s)) ids p)"

lemma below_append: "below (ids @ [i]) j \<longleftrightarrow> below ids j \<and> uint i < uint j"
  by (auto simp: below_def)

lemma below_mono: "below ids i \<Longrightarrow> uint i \<le> uint j \<Longrightarrow> below ids j"
  unfolding below_def by force

lemma below_le: "below ids i \<Longrightarrow> uint i \<le> uint j \<Longrightarrow> x \<in> set ids \<Longrightarrow> uint x \<le> uint j"
  unfolding below_def by force

lemma phase_ok_ids: "phase_ok M cur ids p \<Longrightarrow> j \<in> set ids \<Longrightarrow> uint j \<le> uint cur"
  by (cases p) (auto simp: phase_ok_def below_def dest!: bspec)

lemma one_phase:
  assumes "phases s = (replicate k Idle)[t := p]" "t < k \<or> p = Idle"
  shows "phase_of u s = (if u = t then p else Idle)"
  using assms by (auto simp: phase_of_def nth_list_update)

lemma enter_one:
  assumes "phases s = (replicate k Idle)[t := p]"
  shows "phases (enter t q s) = (replicate k Idle)[t := q]"
  using assms by (simp add: enter_def)

lemma enter_shared [simp]: "shared (enter t p s) = shared s" "holder (enter t p s) = holder s"
  by (simp_all add: enter_def)

lemma serial_invI:
  assumes "uint (RequestId (shared s)) \<le> uint (RequestId c0) + int n" "phases s = (replicate k Idle)[t := p]" "t < k \<or> p = Idle"
    "sent (shared s) = sent c0 @ fs" "list_all2 (request_with_id M) fs ids" "sorted_wrt (\<lambda>i j. uint i < uint j) ids"
    "phase_ok M (RequestId (shared s)) ids p"
  shows "serial_inv M c0 k n s"
  using assms unfolding serial_inv_def by blast

lemma serial_begin:
  assumes "serial_inv M c0 k n s" "may_begin False u s" "\<And>ids. below ids (RequestId (shared s)) \<Longrightarrow> phase_ok M (RequestId (shared s)) ids q"
  shows "serial_inv M c0 k (Suc n) (enter u q s)"
proof -
  obtain t p fs ids where i: "uint (RequestId (shared s)) \<le> uint (RequestId c0) + int n" "phases s = (replicate k Idle)[t := p]"
    "t < k \<or> p = Idle" "sent (shared s) = sent c0 @ fs" "list_all2 (request_with_id M) fs ids"
    "sorted_wrt (\<lambda>i j. uint i < uint j) ids" "phase_ok M (RequestId (shared s)) ids p"
    using assms(1) unfolding serial_inv_def by blast
  have u: "u < length (phases s)" "\<forall>p \<in> set (phases s). p = Idle" using assms(2) by (auto simp: may_begin_def list_all_iff)
  then have e: "phases s = replicate k Idle" using i(2) by (intro replicate_eqI) auto
  have "p = Idle" using i(2,3) u(2) by (metis length_replicate nth_list_update_eq nth_mem length_list_update)
  then have "below ids (RequestId (shared s))" using i(7) by (simp add: phase_ok_def)
  then show ?thesis using i u(1) e assms(3)
    by (intro serial_invI [where t = u and p = q and fs = fs and ids = ids]) (simp_all add: enter_def)
qed

lemma serial_proceed:
  assumes "serial_inv M c0 k n s" "proceed M u rep s = Some s'" "uint (RequestId c0) + int (Suc n) < 2 ^ 64"
  shows "serial_inv M c0 k (Suc n) s'"
proof -
  obtain t p fs ids where i: "uint (RequestId (shared s)) \<le> uint (RequestId c0) + int n" "phases s = (replicate k Idle)[t := p]"
    "t < k \<or> p = Idle" "sent (shared s) = sent c0 @ fs" "list_all2 (request_with_id M) fs ids"
    "sorted_wrt (\<lambda>i j. uint i < uint j) ids" "phase_ok M (RequestId (shared s)) ids p"
    using assms(1) unfolding serial_inv_def by blast
  have u: "u = t" "phase_of u s = p" "p \<noteq> Idle"
    using assms(2) one_phase [OF i(2,3), of u] by (auto simp: proceed_def split: if_splits)
  then have t: "t < k" using i(3) by simp
  let ?cur = "RequestId (shared s)"
  have inc: "uint (?cur + 1) = uint ?cur + 1" using uint_plus_small [of ?cur 1] i(1) assms(3) by simp
  note keep = i(1,4,5,6) t enter_one [OF i(2)]
  note intro = serial_invI [where t = t and fs = fs and ids = ids]
  show ?thesis
  proof (cases p)
    case Idle
    then show ?thesis using u by simp
  next
    case (Beat i)
    then have "s' = enter t (BeatLoaded i ?cur) s" using assms(2) u by (simp add: proceed_def)
    then show ?thesis using keep i(7) Beat by (intro intro) (auto simp: phase_ok_def)
  next
    case (BeatLoaded i v)
    then have s': "s' = enter t (Ready (RequestHeartbeat_WriteTo M i)) (s\<lparr>shared := (shared s)\<lparr>RequestId := v + 1\<rparr>\<rparr>)"
      using assms(2) u by (simp add: proceed_def Let_def)
    have "request_with_id M (RequestHeartbeat_WriteTo M i) i" by (simp add: request_with_id_def)
    then show ?thesis using keep i(2,7) BeatLoaded inc unfolding s'
      by (intro intro [where p = "Ready (RequestHeartbeat_WriteTo M i)"]) (auto simp: phase_ok_def enter_def)
  next
    case (Ready req)
    then have s': "s' = enter t (Locked req) (s\<lparr>holder := Some t\<rparr>)" using assms(2) u by (simp add: proceed_def split: if_splits)
    then show ?thesis using keep i(2,7) Ready unfolding s'
      by (intro intro [where p = "Locked req"]) (auto simp: phase_ok_def enter_def)
  next
    case (Locked req)
    then obtain i where j: "request_with_id M req i" "below ids i" "uint i \<le> uint ?cur" using i(7) by (auto simp: phase_ok_def)
    consider "s' = enter t Idle (s\<lparr>holder := None\<rparr>)"
      | "s' = enter t Sent (s\<lparr>shared := (shared s)\<lparr>sent := sent (shared s) @ [req]\<rparr>\<rparr>)"
      using assms(2) u Locked by (auto simp: proceed_def Let_def split: reply.splits if_splits)
    then show ?thesis
    proof cases
      case 1
      then show ?thesis using keep i(2) below_mono [OF j(2,3)]
        by (intro intro [where p = Idle]) (auto simp: phase_ok_def enter_def)
    next
      case 2
      have "list_all2 (request_with_id M) (fs @ [req]) (ids @ [i])" using i(5) j(1) by (simp add: list_all2_appendI)
      moreover have "sorted_wrt (\<lambda>i j. uint i < uint j) (ids @ [i])" using i(6) j(2) by (simp add: sorted_wrt_append below_def)
      moreover have "phase_ok M ?cur (ids @ [i]) Sent" using j(3) below_le [OF j(2,3)] by (auto simp: phase_ok_def)
      ultimately show ?thesis using keep i(2) 2
        by (intro serial_invI [where t = t and p = Sent and fs = "fs @ [req]" and ids = "ids @ [i]"]) (auto simp: enter_def)
    qed
  next
    case Sent
    then have "s' = enter t (Loaded ?cur) s" using assms(2) u by (simp add: proceed_def)
    then show ?thesis using keep i(7) Sent by (intro intro) (auto simp: phase_ok_def)
  next
    case (Loaded v)
    then have s': "s' = enter t Receiving (s\<lparr>shared := (shared s)\<lparr>RequestId := v + 1\<rparr>\<rparr>)"
      using assms(2) u by (simp add: proceed_def Let_def)
    have "below ids (?cur + 1)" using i(7) Loaded inc by (force simp: phase_ok_def below_def)
    then show ?thesis using keep i(2,7) Loaded inc unfolding s'
      by (intro intro [where p = Receiving]) (auto simp: phase_ok_def enter_def)
  next
    case Receiving
    then have s': "s' = enter t Idle (s\<lparr>holder := None\<rparr>)" using assms(2) u by (simp add: proceed_def)
    then show ?thesis using keep i(2,7) Receiving unfolding s'
      by (intro intro [where p = Idle]) (auto simp: phase_ok_def enter_def)
  qed
qed

lemma serial_act:
  assumes "serial_inv M c0 k n s" "act M False a s = Some s'" "uint (RequestId c0) + int (Suc n) < 2 ^ 64"
  shows "serial_inv M c0 k (Suc n) s'"
proof (cases a)
  case (BeginOp t code payload)
  have "request_with_id M (RequestOperation_WriteTo M code (RequestId (shared s)) payload) (RequestId (shared s))"
    by (auto simp: request_with_id_def)
  then show ?thesis using assms BeginOp by (auto intro!: serial_begin simp: phase_ok_def split: if_splits)
next
  case (BeginBeat t)
  then show ?thesis using assms by (auto intro!: serial_begin simp: phase_ok_def split: if_splits)
next
  case (Proceed t rep)
  then show ?thesis using assms serial_proceed by simp
next
  case CloseConn
  then have "phases s' = phases s" "RequestId (shared s') = RequestId (shared s)" "sent (shared s') = sent (shared s)"
    using assms(2) by (auto simp: Close_def)
  then show ?thesis using assms(1) by (force simp: serial_inv_def)
qed

lemma serial_acts:
  assumes "serial_inv M c0 k n s" "acts M False as s = Some s'" "uint (RequestId c0) + int (n + length as) < 2 ^ 64"
  shows "serial_inv M c0 k (n + length as) s'"
  using assms
proof (induction as arbitrary: n s)
  case (Cons a as)
  then obtain s1 where 1: "act M False a s = Some s1" "acts M False as s1 = Some s'" by (auto simp: bind_eq_Some_conv)
  then have "serial_inv M c0 k (Suc n) s1" using Cons.prems by (intro serial_act [OF Cons.prems(1)]) simp_all
  with Cons.IH [of "Suc n" s1] 1(2) Cons.prems(3) show ?case by simp
qed simp

lemma serial_start: "serial_inv M c k 0 (quiet c k)"
  by (rule serial_invI [where t = 0 and p = Idle and fs = "[]" and ids = "[]"])
    (simp_all add: phase_ok_def below_def, cases k, simp_all)

subsection \<open>Properties\<close>

text \<open>C10: When the calls of a client do not overlap, whichever of its goroutines make them and wherever they are cut
  off by a failed write or a closed connection, the requests that reach the wire carry strictly increasing ids, as
  long as the 64-bit counter does not wrap: no two requests share an id.\<close>

theorem request_ids_increase:
  assumes "acts M False as (quiet c0 k) = Some s" and "RequestId c0 = 0" and "length as < 2 ^ 63"
  shows "\<exists>ids. list_all2 (request_with_id M) (drop (length (sent c0)) (sent (shared s))) ids \<and>
    sorted_wrt (\<lambda>i j. uint i < uint j) ids \<and> distinct ids \<and>
    (\<forall>i \<in> set ids. uint i \<le> uint (RequestId (shared s))) \<and> uint (RequestId (shared s)) \<le> int (length as)"
proof -
  have "serial_inv M c0 k (0 + length as) s" using assms by (intro serial_acts [OF serial_start]) simp_all
  then obtain t p fs ids where i: "uint (RequestId (shared s)) \<le> int (length as)" "sent (shared s) = sent c0 @ fs"
    "list_all2 (request_with_id M) fs ids" "sorted_wrt (\<lambda>i j. uint i < uint j) ids" "phase_ok M (RequestId (shared s)) ids p"
    using assms(2) by (auto simp: serial_inv_def)
  have "distinct ids" using i(4) by (induction ids) auto
  with i phase_ok_ids [OF i(5)] show ?thesis by auto
qed

text \<open>A heartbeat by one goroutine, and then an operation by another.\<close>

definition sample_actions :: "action list" where
  "sample_actions = BeginBeat 0 # replicate 7 (Proceed 0 (Arrives [])) @ BeginOp 1 3 [] # replicate 5 (Proceed 1 (Arrives []))"

definition sample_shared :: client where
  "sample_shared = \<lparr>conn = True, RequestId = 0, sent = []\<rparr>"

lemma sample_actions_run:
  "acts ref_codec False sample_actions (quiet sample_shared 2) =
    Some (quiet \<lparr>conn = True, RequestId = 3, sent = [RequestHeartbeat_WriteTo ref_codec 0, RequestOperation_WriteTo ref_codec 3 2 []]\<rparr> 2)"
  by (simp add: sample_actions_def sample_shared_def quiet_def step_defs numeral_eq_Suc)

theorem request_ids_increase_witness:
  "\<exists>ids. list_all2 (request_with_id ref_codec)
      (drop (length (sent sample_shared))
        (sent (shared (quiet \<lparr>conn = True, RequestId = 3, sent = [RequestHeartbeat_WriteTo ref_codec 0, RequestOperation_WriteTo ref_codec 3 2 []]\<rparr> 2)))) ids \<and>
    sorted_wrt (\<lambda>i j. uint i < uint j) ids \<and> distinct ids \<and>
    (\<forall>i \<in> set ids. uint i \<le> uint (RequestId (shared
       (quiet \<lparr>conn = True, RequestId = 3, sent = [RequestHeartbeat_WriteTo ref_codec 0, RequestOperation_WriteTo ref_codec 3 2 []]\<rparr> 2)))) \<and>
    uint (RequestId (shared
       (quiet \<lparr>conn = True, RequestId = 3, sent = [RequestHeartbeat_WriteTo ref_codec 0, RequestOperation_WriteTo ref_codec 3 2 []]\<rparr> 2)))
      \<le> int (length sample_actions)"
  by (rule request_ids_increase [OF sample_actions_run]) (simp_all add: sample_shared_def sample_actions_def)

text \<open>Two goroutines that use the client at the same time can send two requests with the same id, one after the other:
  the mutex does not cover the reading of the id.\<close>

theorem concurrent_ids_collide:
  assumes "conn c"
  shows "\<exists>s. acts M True
      (BeginOp 0 code payload # BeginOp 1 code' payload' # replicate 5 (Proceed 0 (Arrives bs)) @ replicate 5 (Proceed 1 (Arrives bs')))
      (quiet c 2) = Some s \<and>
    sent (shared s) = sent c @ [RequestOperation_WriteTo M code (RequestId c) payload, RequestOperation_WriteTo M code' (RequestId c) payload']"
  using assms by (simp add: quiet_def step_defs numeral_eq_Suc)

theorem concurrent_ids_collide_witness:
  "\<exists>s. acts ref_codec True
      (BeginOp 0 3 [] # BeginOp 1 4 [] # replicate 5 (Proceed 0 (Arrives [])) @ replicate 5 (Proceed 1 (Arrives []))) (quiet sample_shared 2) = Some s \<and>
    sent (shared s) = sent sample_shared @
      [RequestOperation_WriteTo ref_codec 3 (RequestId sample_shared) [], RequestOperation_WriteTo ref_codec 4 (RequestId sample_shared) []]"
  by (rule concurrent_ids_collide) (simp add: sample_shared_def)

end
