(* ===== verification/Spec2Isabelle.thy ===== *)
theory Spec2Isabelle
  imports SqlDriver TupleOps Session Concurrency
begin

text \<open>
  A verification development for the Go client of Apache Ignite 3 (src/).

  \<^bold>\<open>The program.\<close> A \<^verbatim>\<open>client\<close> holds one connection to a server. Every operation builds a payload of MessagePack values, frames
  it as a request that carries the next request id, sends it, reads one framed reply, checks its id, its flags and its
  error, and decodes the body. Rows travel as binary tuples. They are written by \<^verbatim>\<open>BuildBinaryTuple\<close> for key-value writes,
  and by \<^verbatim>\<open>Tuple.AddValue\<close> and \<^verbatim>\<open>Tuple.Bytes\<close> for the arguments of a query; they are read by
  \<^verbatim>\<open>NewTupleFromByteArrayWithMetadata\<close> and \<^verbatim>\<open>GetValue\<close> under the metadata of a result set. A database/sql driver (src/sql) sits
  on top of the client.

  \<^bold>\<open>Theories and the code they model\<close> (in src/binary/v1 unless said otherwise).
  \<^item> Prelude: bytes, little- and big-endian numbers, the interface of \<^verbatim>\<open>sort.Slice\<close> (locale \<open>slice_sorter\<close>: for any
    comparison that is a strict weak order the result is a permutation in that order; the comparison is the caller's).
    GoErrors: outcomes of Go code (\<open>Ok\<close>, \<open>Err\<close>, \<open>Panic\<close>) and binary/errors/ignite.go. BigInt, GoFloat, GoTime: what the client
    uses of math/big, of IEEE floats and of time.
  \<^item> Values: \<open>goval\<close> is a Go interface value, \<open>host\<close> the functions of the environment. PackedIO: the readers and writers of
    types.go, over the interface \<open>msgpack\<close> of Msgpack (locale \<open>msgpack_codec\<close>, interpreted on the reference codec
    \<open>ref_codec\<close>, which follows the MessagePack specification).
  \<^item> IntCodec, DecimalBytes, DecimalText, DateTimeCodec: integers, decimals, dates, times and timestamps as bytes and text
    (binary-tuple.go, tuple.go, types.go).
  \<^item> BinaryTuple: \<^verbatim>\<open>BuildBinaryTuple\<close> (binary-tuple.go). TupleWriter: the argument tuple; TupleReader: the reader (tuple.go).
    ColumnTypes: the table of types and the lookups of client-result-set.go. ColumnValues: writer and reader composed, one
    theorem per column type.
  \<^item> Protocol: requests and responses (request*.go, response*.go). Handshake: response-handshake.go and
    client-partition-awareness.go. Client: client.go, for one goroutine at a time. Concurrency: goroutines that share a client,
    one access to the shared state per step.
  \<^item> Schemas: client-schemas.go and client-tables-operations.go (locale \<open>key_sorter\<close>). TupleOps: client-tuple-operations.go.
  \<^item> ResultSet: the readers of client-result-set.go. Queries: client-sql-and-scan-queries.go.
  \<^item> SqlConn: sql/v1 (connection, rows, statements, results). SqlDriver: sql/driver.go, sql/driver-go1.10.go, sql/connector.go.
    Session: whole sessions of the driver, as runs of the client and as a refinement of a machine that knows only the wire.
  \<^item> This theory: a row that is written and then selected.

  \<^bold>\<open>State and operations.\<close> The record \<open>client\<close> keeps whether the connection is open, the next request id and the frames sent
  so far; an operation takes the client and what the network answers (\<open>reply\<close>: bytes that arrive, or a failure) and returns
  the client with a \<open>res\<close>. A reader takes the bytes left and returns a value with the rest, or an error; every early
  return of the code is a branch. A panic (index, type assertion, nil, negative length) is a value, so that its absence
  can be proved. Where an operation returns a partial result beside its error, the model does too. A connection of the driver that
  gave its client up keeps it, as \<^verbatim>\<open>Close\<close> left it, in the ghost field \<open>released\<close>. Integers are \<open>64 word\<close> or \<open>32 word\<close> where they come from the wire, and \<open>int\<close> where Go's \<^verbatim>\<open>int\<close> holds lengths, scales
  and indices. Loops over data are structural recursion or recursion on the number of rounds left, so they need no fuel. The loop of
  database/sql over \<^verbatim>\<open>Next\<close> (\<open>drain\<close>) could run on, so it is a \<open>partial_function\<close>; that it returns is proved.

  \<^bold>\<open>What the lemmas show.\<close>
  \<^item> Binary tuples: the exact layout, when a tuple is built, the first error, and that reading inverts writing; per
    column type, the values that survive and those that do not.
  \<^item> Protocol: the outcome of every well-formed reply; increasing request ids when calls do not overlap, and
    equal ids when they do (\<open>acts\<close>): the mutex covers the writing of a request but not the reading of its id; completion of answered operations; handshake round trip and rejection.
  \<^item> Schemas and row writes: round trip of a described schema, the key columns for any sorting algorithm, and refinement: what
    a server decodes (\<open>serve_write\<close>) is the command that was meant.
  \<^item> Queries and driver: round trip and well-formedness of metadata, completion of a query with its rows, equality of
    the outcomes of the two query operations, agreement of driver and client, termination of the iteration, behaviour on
    closed connections, refinement of the wire (\<open>wire_step\<close>) by every driver session (\<open>session_do\<close>), the ids on the wire (by
    simulation, \<open>client_run\<close>), independence of the order of arguments and of connection parameters.

  \<^bold>\<open>Given.\<close> These are arguments of the definitions, and what is relied on is stated as the laws of a locale or as named
  hypotheses: MessagePack; \<^verbatim>\<open>sort.Slice\<close>; the order in which a map is visited; upper and lower case, texts of floats and
  times, the local time zone, parsing of decimals and times from text (\<open>host\<close>); URL and semantic-version parsing (\<open>url_host\<close>); the
  result of \<^verbatim>\<open>time.Now\<close>; the outcome of dialing and the bytes that arrive.

  \<^bold>\<open>Bounds.\<close> Hypotheses such as \<open>length b < 2 ^ 32\<close> and \<open>length payload < 2 ^ 31\<close> are the limits of the MessagePack lengths
  and of the frame length. \<open>short_time\<close> keeps a time within the range of an int64 of milliseconds shifted by sixteen bits.

  \<^bold>\<open>Not modelled.\<close> Dialing, TLS and timeouts; the mutex in the theories above Client (a connection of database/sql is used by one
  goroutine at a time; Concurrency has the mutex); debug output and the JSON texts it prints; src/debug/log.go; the registration with database/sql; the type \<^verbatim>\<open>QueryScanData\<close>, which no operation uses; the one-line conversions between the time types
  and \<^verbatim>\<open>time.Time\<close>.
\<close>

subsection \<open>From a written row to a selected one\<close>

text \<open>A value that column \<open>c\<close>, selected with type id \<open>ty\<close>, holds: NULL in a column that is not shown as text, a
  decimal, a string that is neither empty nor starts with the marker byte, or an integer of any Go type.\<close>

definition column_holds :: "host \<Rightarrow> bt_column \<Rightarrow> int \<Rightarrow> goval \<Rightarrow> bool" where
  "column_holds H c ty v \<longleftrightarrow>
     (if v = VNil then ty \<in> {1, 2, 3, 4, 5, 6, 7, 9, 10, 15, 16}
      else if Kind c = BtDecimal
      then ty = 8 \<and> (case toDecimal H v (ColScale c) of
                       Ok d \<Rightarrow> Unscaled d \<noteq> None \<and> 0 \<le> Scale d \<and> Scale d \<le> 32767 | _ \<Rightarrow> False)
      else if Kind c = BtString
      then ty = 15 \<and> (case v of VString s \<Rightarrow> s \<noteq> [] \<and> str_bytes s ! 0 \<noteq> 0x80 | _ \<Rightarrow> False)
      else (Kind c, ty) \<in> {(BtInt8, 2), (BtInt16, 3), (BtInt32, 4), (BtInt64, 5)} \<and>
           (case toInt64 v of Ok n \<Rightarrow> True | _ \<Rightarrow> False))"

text \<open>The selected value \<open>r\<close> is the written value \<open>v\<close>: NULL, the exact decimal text, the string, or an integer with
  the same value.\<close>

definition same_value :: "host \<Rightarrow> bt_column \<Rightarrow> goval \<Rightarrow> goval \<Rightarrow> bool" where
  "same_value H c v r \<longleftrightarrow>
     (if v = VNil then r = VNil
      else if Kind c = BtDecimal
      then (case (toDecimal H v (ColScale c), r) of
              (Ok d, VString s) \<Rightarrow> Unscaled d = Some (fst (read_decimal s)) \<and> Scale d = int (snd (read_decimal s))
            | _ \<Rightarrow> False)
      else if Kind c = BtString then r = v
      else toInt64 r = toInt64 v)"

lemma convert_value_plain:
  assumes "t \<in> set ColTypes" "TypeId t \<in> {1, 2, 3, 4, 5, 6, 7, 9, 10, 15, 16}"
  shows "convert_value H [''DATETIME'', ''TIMESTAMP''] t j v = Ok v"
proof -
  have "list_all (\<lambda>t. TypeId t \<in> {1, 2, 3, 4, 5, 6, 7, 9, 10, 15, 16} \<longrightarrow>
      GoKind t \<noteq> 25) ColTypes"
    by (simp add: ColTypes_def)
  then have "GoKind t \<noteq> 25" using assms unfolding list_all_iff by blast
  then show ?thesis by (simp add: convert_value_def)
qed

lemma selected_value_holds:
  assumes "BuildBinaryTuple H cols vals = Ok out" "describes_all meta cols" "j < length cols"
    "column_holds H (cols ! j) (case CType (Columns meta ! j) of Some t \<Rightarrow> TypeId t | None \<Rightarrow> 0) (vals ! j)"
  shows "\<exists>r. selected_value H [''DATETIME'', ''TIMESTAMP''] cols vals meta j = Ok r \<and> same_value H (cols ! j) (vals ! j) r"
proof -
  have n: "length (Columns meta) = length cols" using assms(2) by (simp add: describes_all_def)
  obtain t where t: "t \<in> set ColTypes" "CType (Columns meta ! j) = Some t"
    using assms(2,3) n by (auto simp: describes_all_def wf_metadata_def dest!: bspec [OF _ nth_mem])
  have h: "column_holds H (cols ! j) (TypeId t) (vals ! j)" using assms(4) t(2) by simp
  have nz: "TypeId t \<noteq> 0" using h by (auto simp: column_holds_def split: if_splits)
  have d: "describes meta cols j (TypeId t)"
    using assms(2,3) n t nz by (auto simp: describes_def describes_all_def wf_metadata_def list_all_iff ColTypes_def)
  have s: "selected_value H [''DATETIME'', ''TIMESTAMP''] cols vals meta j =
      rbind (read_column H cols vals meta j (TypeId t)) (convert_value H [''DATETIME'', ''TIMESTAMP''] t j)"
    by (simp add: selected_value_def t(2) deref_def)
  have plain: "convert_value H [''DATETIME'', ''TIMESTAMP''] t j v = Ok v"
    if "TypeId t \<in> {1, 2, 3, 4, 5, 6, 7, 9, 10, 15, 16}" for v
    by (rule convert_value_plain [OF t(1) that])
  show ?thesis
  proof (cases "vals ! j = VNil")
    case True
    then have "read_column H cols vals meta j (TypeId t) = Ok VNil" by (rule null_column_roundtrip [OF assms(1) d])
    then show ?thesis using h True plain by (simp add: s column_holds_def same_value_def)
  next
    case nn: False
    consider (dec) "Kind (cols ! j) = BtDecimal" | (str) "Kind (cols ! j) = BtString" | (num) "Kind (cols ! j) \<noteq> BtDecimal" "Kind (cols ! j) \<noteq> BtString"
      by blast
    then show ?thesis
    proof cases
      case dec
      then obtain n sc where n: "toDecimal H (vals ! j) (ColScale (cols ! j)) = Ok \<lparr>Unscaled = Some n, Scale = sc\<rparr>"
        "TypeId t = 8" "0 \<le> sc" "sc \<le> 32767"
        using h nn by (auto simp: column_holds_def split: res.splits) (metis decimal.surjective option.collapse unit.exhaust)
      then have "read_column H cols vals meta j (TypeId t) = Ok (VDecimal \<lparr>Unscaled = Some n, Scale = sc\<rparr>)"
        using decimal_column_roundtrip [OF assms(1) _ dec n(1)] d by simp
      moreover have "GoKind t = 25" "SQLTypeName t = ''DECIMAL''" using t(1) n(2) by (auto simp: ColTypes_def)
      ultimately show ?thesis using FloatString_reads_back [of n "nat sc"] n dec nn
        by (simp add: s convert_value_def same_value_def Decimal_String_def Decimal_BigRat_def)
    next
      case str
      then obtain x where x: "vals ! j = VString x" "TypeId t = 15" "x \<noteq> []" "str_bytes x ! 0 \<noteq> 0x80"
        using h nn by (auto simp: column_holds_def split: goval.splits)
      then have "read_column H cols vals meta j (TypeId t) = Ok (VString x)"
        using string_column_roundtrip [OF assms(1) _ str x(1)] d by simp
      then show ?thesis using plain x str by (simp add: s same_value_def)
    next
      case num
      then obtain n where n: "(Kind (cols ! j), TypeId t) \<in> {(BtInt8, 2), (BtInt16, 3), (BtInt32, 4), (BtInt64, 5)}" "toInt64 (vals ! j) = Ok n"
        using h nn by (auto simp: column_holds_def split: res.splits)
      obtain r where "read_column H cols vals meta j (TypeId t) = Ok r" "toInt64 r = Ok n"
        using integer_column_roundtrip [OF assms(1) d n] by blast
      then show ?thesis using plain n num nn by (auto simp: s same_value_def)
    qed
  qed
qed

subsection \<open>Properties\<close>

text \<open>C1: A row that is written and then selected comes back: with metadata for the same columns under distinct names,
  decoding the bytes \<^verbatim>\<open>BuildBinaryTuple\<close> wrote gives a row with exactly those names, and under each name the value
  that was written: integers of any Go type with their value, decimals with a scale from 0 to 32767 as their exact text, strings that are not
  empty and do not start with the byte 0x80, and NULLs in columns other than DECIMAL, UUID, DATETIME and TIMESTAMP.\<close>

theorem written_row_selected:
  assumes "BuildBinaryTuple H cols vals = Ok out" and "describes_all meta cols" and "distinct (origin_names meta)"
    and "\<And>j. j < length cols \<Longrightarrow>
           column_holds H (cols ! j) (case CType (Columns meta ! j) of Some t \<Rightarrow> TypeId t | None \<Rightarrow> 0) (vals ! j)"
  shows "\<exists>row. decode_row H ''failed to get column type'' [''DATETIME'', ''TIMESTAMP''] meta out = Ok row \<and>
    dom row = set (origin_names meta) \<and>
    list_all2 (\<lambda>name cv. \<exists>r. row name = Some r \<and> same_value H (fst cv) (snd cv) r) (origin_names meta) (zip cols vals)"
proof -
  define ws where "ws = map (\<lambda>j. case selected_value H [''DATETIME'', ''TIMESTAMP''] cols vals meta j of Ok r \<Rightarrow> r | _ \<Rightarrow> VNil) [0..<length cols]"
  have w: "selected_value H [''DATETIME'', ''TIMESTAMP''] cols vals meta j = Ok (ws ! j)" "same_value H (cols ! j) (vals ! j) (ws ! j)"
    if "j < length cols" for j
    using selected_value_holds [OF assms(1,2) that assms(4) [OF that]] that by (auto simp: ws_def)
  have l: "length ws = length cols" by (simp add: ws_def)
  have r: "decode_row H ''failed to get column type'' [''DATETIME'', ''TIMESTAMP''] meta out = Ok (map_of (zip (origin_names meta) ws))"
    by (rule stored_row_selected [OF assms(1-3) l w(1)])
  have n: "length (origin_names meta) = length cols" using assms(2) by (simp add: describes_all_def origin_names_def)
  have "length vals = length cols" using assms(1) by (auto simp: BuildBinaryTuple_Ok_iff)
  moreover have "map_of (zip (origin_names meta) ws) (origin_names meta ! j) = Some (ws ! j)" if "j < length cols" for j
    using that n l assms(3) by (intro map_of_zip_nth) simp_all
  ultimately have "list_all2 (\<lambda>name cv. \<exists>r. map_of (zip (origin_names meta) ws) name = Some r \<and> same_value H (fst cv) (snd cv) r)
      (origin_names meta) (zip cols vals)"
    using w(2) n by (auto simp del: map_of_eq_Some_iff simp: list_all2_conv_all_nth)
  with r n l show ?thesis by (intro exI [of _ "map_of (zip (origin_names meta) ws)"]) simp
qed

theorem written_row_selected_witness:
  "\<exists>row. decode_row exact_host ''failed to get column type'' [''DATETIME'', ''TIMESTAMP''] sample_result_table [0, 1, 5] = Ok row \<and>
    dom row = set (origin_names sample_result_table) \<and>
    list_all2 (\<lambda>name cv. \<exists>r. row name = Some r \<and> same_value exact_host (fst cv) (snd cv) r) (origin_names sample_result_table)
      (zip [\<lparr>Kind = BtInt32, ColScale = 0\<rparr>] [VInt 5])"
proof (rule written_row_selected [OF _ sample_describes])
  show "BuildBinaryTuple exact_host [\<lparr>Kind = BtInt32, ColScale = 0\<rparr>] [VInt 5] = Ok [0, 1, 5]"
    by (simp add: build_simps toInt64_def putBinaryTupleInt_bytes int_in_def)
  show "column_holds exact_host ([\<lparr>Kind = BtInt32, ColScale = 0\<rparr>] ! j)
      (case CType (Columns sample_result_table ! j) of Some t \<Rightarrow> TypeId t | None \<Rightarrow> 0) ([VInt 5] ! j)"
    if "j < length [\<lparr>Kind = BtInt32, ColScale = 0\<rparr>]" for j
    using that by (simp add: sample_result_table_def sample_result_column_def ColTypes_def column_holds_def toInt64_def)
qed (simp_all add: sample_result_table_def sample_result_column_def origin_names_def)

end
